(* ===== verification/Prelude.thy ===== *)
theory Prelude
  imports Main "HOL-Library.Word" "HOL-Library.Sublist" "HOL-Library.Char_ord"
    "HOL-Library.List_Lexorder"
    "HOL-Library.Code_Target_Numeral"
begin

text \<open>
  Shared vocabulary of the development: machine integers, the part of Rust's string
  library that the modelled sources use, and the generic lemmas about it.

  A Rust \<open>String\<close>/\<open>&str\<close> is a \<^typ>\<open>string\<close>: a list of code points, of which
  the model covers U+0000 to U+00FF (one \<^typ>\<open>char\<close> each). A Rust byte slice is a list
  of 8-bit words. On ASCII text the two have the same length, and \<open>str_bytes\<close>
  gives the UTF-8 encoding otherwise. The order \<open><\<close> on strings is the lexicographic one
  of Rust's \<open>Ord\<close>. A fallible function returns \<open>'e + 'a\<close> with \<open>Inl\<close> the error,
  or an option.
\<close>

section \<open>Machine integers and results\<close>

type_synonym u8 = "8 word"
type_synonym u16 = "16 word"
type_synonym u32 = "32 word"
type_synonym u64 = "64 word"
type_synonym u128 = "128 word"
type_synonym bytes = "u8 list"

named_theorems str_defs \<open>definitions of the string operations\<close>

text \<open>The question-mark operator on \<open>Result\<close>: stop at the first error.\<close>

definition rbind :: "'e + 'a \<Rightarrow> ('a \<Rightarrow> 'e + 'b) \<Rightarrow> 'e + 'b" where
  "rbind m f = (case m of Inl e \<Rightarrow> Inl e | Inr a \<Rightarrow> f a)"

lemma rbind_simps [simp]: "rbind (Inl e) f = Inl e" "rbind (Inr a) f = f a"
  by (simp_all add: rbind_def)

lemma rbind_Inr_iff: "rbind m f = Inr b \<longleftrightarrow> (\<exists>a. m = Inr a \<and> f a = Inr b)"
  by (cases m) simp_all

lemma rbind_Inl_iff: "rbind m f = Inl e \<longleftrightarrow> m = Inl e \<or> (\<exists>a. m = Inr a \<and> f a = Inl e)"
  by (cases m) simp_all

section \<open>Characters\<close>

abbreviation code :: "char \<Rightarrow> nat" where
  "code c \<equiv> of_char c"

text \<open>\<open>char::is_whitespace\<close> on U+0000..U+00FF, and \<open>char::is_ascii_whitespace\<close> (which
  leaves out the vertical tab).\<close>

definition is_ws :: "char \<Rightarrow> bool" where [str_defs]:
  "is_ws c \<longleftrightarrow> code c \<in> {9, 10, 11, 12, 13, 32, 133, 160}"

definition is_ascii_ws :: "char \<Rightarrow> bool" where [str_defs]:
  "is_ascii_ws c \<longleftrightarrow> code c \<in> {9, 10, 12, 13, 32}"

definition lower_char :: "char \<Rightarrow> char" where [str_defs]:
  "lower_char c = (if 65 \<le> code c \<and> code c \<le> 90 then char_of (code c + 32) else c)"

definition is_digit :: "char \<Rightarrow> bool" where [str_defs]:
  "is_digit c \<longleftrightarrow> 48 \<le> code c \<and> code c \<le> 57"

definition is_alnum :: "char \<Rightarrow> bool" where [str_defs]:
  "is_alnum c \<longleftrightarrow> is_digit c \<or> (65 \<le> code c \<and> code c \<le> 90) \<or> (97 \<le> code c \<and> code c \<le> 122)"

definition is_hexdigit :: "char \<Rightarrow> bool" where [str_defs]:
  "is_hexdigit c \<longleftrightarrow> is_digit c \<or> (65 \<le> code c \<and> code c \<le> 70) \<or> (97 \<le> code c \<and> code c \<le> 102)"

abbreviation LF :: char where "LF \<equiv> CHR 0x0A"
abbreviation CR :: char where "CR \<equiv> CHR 0x0D"

lemma code_lt_256 [simp]: "code c < 256"
  by simp

lemma lower_char_idem [simp]: "lower_char (lower_char c) = lower_char c"
  by (simp add: lower_char_def)

section \<open>Rust string operations\<close>

definition trim_start :: "string \<Rightarrow> string" where [str_defs]:
  "trim_start s = dropWhile is_ws s"

definition trim_end_matches :: "(char \<Rightarrow> bool) \<Rightarrow> string \<Rightarrow> string" where [str_defs]:
  "trim_end_matches p s = rev (dropWhile p (rev s))"

definition trim :: "string \<Rightarrow> string" where [str_defs]:
  "trim s = trim_end_matches is_ws (trim_start s)"

definition ascii_lower :: "string \<Rightarrow> string" where [str_defs]:
  "ascii_lower s = map lower_char s"

definition eq_ignore_case :: "string \<Rightarrow> string \<Rightarrow> bool" where [str_defs]:
  "eq_ignore_case a b \<longleftrightarrow> ascii_lower a = ascii_lower b"

definition strip_prefix :: "string \<Rightarrow> string \<Rightarrow> string option" where [str_defs]:
  "strip_prefix p s = (if prefix p s then Some (drop (length p) s) else None)"

definition strip_suffix :: "string \<Rightarrow> string \<Rightarrow> string option" where [str_defs]:
  "strip_suffix p s = (if suffix p s then Some (take (length s - length p) s) else None)"

text \<open>\<open>str::split\<close>: never empty, one more piece than separators.\<close>

fun split_by :: "(char \<Rightarrow> bool) \<Rightarrow> string \<Rightarrow> string list" where
  "split_by p [] = [[]]"
| "split_by p (c # s) =
     (if p c then [] # split_by p s
      else (case split_by p s of [] \<Rightarrow> [[c]] | w # ws \<Rightarrow> (c # w) # ws))"

definition split_on :: "char \<Rightarrow> string \<Rightarrow> string list" where [str_defs]:
  "split_on c s = split_by (\<lambda>x. x = c) s"

definition split_whitespace :: "string \<Rightarrow> string list" where [str_defs]:
  "split_whitespace s = filter (\<lambda>w. w \<noteq> []) (split_by is_ws s)"

definition split_ascii_whitespace :: "string \<Rightarrow> string list" where [str_defs]:
  "split_ascii_whitespace s = filter (\<lambda>w. w \<noteq> []) (split_by is_ascii_ws s)"

definition split_once :: "char \<Rightarrow> string \<Rightarrow> (string \<times> string) option" where [str_defs]:
  "split_once c s =
     (if c \<in> set s then Some (takeWhile (\<lambda>x. x \<noteq> c) s, tl (dropWhile (\<lambda>x. x \<noteq> c) s))
      else None)"

definition rsplit_once :: "char \<Rightarrow> string \<Rightarrow> (string \<times> string) option" where [str_defs]:
  "rsplit_once c s = map_option (\<lambda>(a, b). (rev b, rev a)) (split_once c (rev s))"

text \<open>\<open>str::lines\<close>: pieces between line feeds, each without one trailing carriage return; a
  last piece that no line feed ends is kept as it is, and dropped when empty.\<close>

definition strip_cr :: "string \<Rightarrow> string" where [str_defs]:
  "strip_cr l = (if l \<noteq> [] \<and> last l = CR then butlast l else l)"

definition str_lines :: "string \<Rightarrow> string list" where [str_defs]:
  "str_lines s =
     (let ps = split_on LF s
      in map strip_cr (butlast ps) @ (if last ps = [] then [] else [last ps]))"

text \<open>\<open>str::find\<close> of a substring, and \<open>contains\<close>.\<close>

fun find_sub :: "string \<Rightarrow> string \<Rightarrow> nat option" where
  "find_sub p [] = (if p = [] then Some 0 else None)"
| "find_sub p (c # s) =
     (if prefix p (c # s) then Some 0 else map_option Suc (find_sub p s))"

definition contains :: "string \<Rightarrow> string \<Rightarrow> bool" where [str_defs]:
  "contains s p \<longleftrightarrow> find_sub p s \<noteq> None"

text \<open>\<open>parse::<u8/u16/u32/u64>\<close>: an optional plus sign, at least one digit, no overflow of
  the bound.\<close>

fun digits_val :: "nat \<Rightarrow> string \<Rightarrow> nat option" where
  "digits_val acc [] = Some acc"
| "digits_val acc (c # s) =
     (if is_digit c then digits_val (10 * acc + (code c - 48)) s else None)"

definition parse_uint :: "nat \<Rightarrow> string \<Rightarrow> nat option" where [str_defs]:
  "parse_uint bound s =
     (let d = (case s of [] \<Rightarrow> [] | c # r \<Rightarrow> if c = CHR ''+'' then r else c # r)
      in if d = [] then None
         else case digits_val 0 d of None \<Rightarrow> None
              | Some n \<Rightarrow> if n < bound then Some n else None)"

text \<open>\<open>Display\<close> of an unsigned integer.\<close>

fun show_nat :: "nat \<Rightarrow> string" where
  "show_nat n =
     (if n < 10 then [char_of (48 + n)] else show_nat (n div 10) @ [char_of (48 + n mod 10)])"

declare show_nat.simps [simp del]

text \<open>\<open>Ipv4Addr\<close>: its octets, \<open>Display\<close> and \<open>FromStr\<close> (four decimal octets of one to
  three digits, without leading zeros).\<close>

type_synonym ipv4 = "u8 \<times> u8 \<times> u8 \<times> u8"

definition show_ipv4 :: "ipv4 \<Rightarrow> string" where
  "show_ipv4 ip = (case ip of (a, b, c, d) \<Rightarrow>
     show_nat (unat a) @ ''.'' @ show_nat (unat b) @ ''.'' @ show_nat (unat c) @ ''.'' @ show_nat (unat d))"

definition parse_octet :: "string \<Rightarrow> u8 option" where
  "parse_octet s =
     (if s = [] \<or> 3 < length s \<or> (hd s = CHR ''0'' \<and> length s \<noteq> 1) then None
      else case digits_val 0 s of None \<Rightarrow> None
           | Some n \<Rightarrow> if n < 256 then Some (word_of_nat n) else None)"

definition parse_ipv4 :: "string \<Rightarrow> ipv4 option" where
  "parse_ipv4 s =
     (case split_on (CHR ''.'') s of
        [a, b, c, d] \<Rightarrow>
          (case (parse_octet a, parse_octet b, parse_octet c, parse_octet d) of
             (Some a', Some b', Some c', Some d') \<Rightarrow> Some (a', b', c', d')
           | _ \<Rightarrow> None)
      | _ \<Rightarrow> None)"

text \<open>UTF-8 of the modelled code points, and slicing at a byte offset: \<open>None\<close> is the panic
  of an offset that is out of range or not on a character boundary.\<close>

definition char_bytes :: "char \<Rightarrow> bytes" where
  "char_bytes c =
     (if code c < 128 then [word_of_nat (code c)]
      else [word_of_nat (192 + code c div 64), word_of_nat (128 + code c mod 64)])"

definition str_bytes :: "string \<Rightarrow> bytes" where
  "str_bytes s = concat (map char_bytes s)"

definition is_ascii :: "string \<Rightarrow> bool" where
  "is_ascii s \<longleftrightarrow> (\<forall>c \<in> set s. code c < 128)"

fun split_at_byte :: "nat \<Rightarrow> string \<Rightarrow> (string \<times> string) option" where
  "split_at_byte 0 s = Some ([], s)"
| "split_at_byte (Suc n) [] = None"
| "split_at_byte (Suc n) (c # s) =
     (if code c < 128 then map_option (\<lambda>(a, b). (c # a, b)) (split_at_byte n s)
      else (case n of 0 \<Rightarrow> None
            | Suc m \<Rightarrow> map_option (\<lambda>(a, b). (c # a, b)) (split_at_byte m s)))"

text \<open>\<open>String::from_utf8\<close>. Code points above U+00FF are outside the model of strings and are
  treated as invalid.\<close>

fun from_utf8 :: "bytes \<Rightarrow> string option" where
  "from_utf8 [] = Some []"
| "from_utf8 (b # bs) =
     (if unat b < 128 then map_option (Cons (char_of (unat b))) (from_utf8 bs)
      else case bs of
          c # bs' \<Rightarrow>
            if (b = 0xC2 \<or> b = 0xC3) \<and> 128 \<le> unat c \<and> unat c < 192
            then map_option (Cons (char_of ((unat b - 192) * 64 + (unat c - 128)))) (from_utf8 bs')
            else None
        | [] \<Rightarrow> None)"

section \<open>Lemmas about the string operations\<close>

lemma str_bytes_Nil [simp]: "str_bytes [] = []"
  by (simp add: str_bytes_def)

lemma str_bytes_Cons: "str_bytes (c # s) = char_bytes c @ str_bytes s"
  by (simp add: str_bytes_def)

lemma is_ascii_Cons [simp]: "is_ascii (c # s) \<longleftrightarrow> code c < 128 \<and> is_ascii s"
  by (simp add: is_ascii_def)

lemma is_ascii_Nil [simp]: "is_ascii []"
  by (simp add: is_ascii_def)

lemma length_str_bytes_ascii: "is_ascii s \<Longrightarrow> length (str_bytes s) = length s"
  by (induction s) (simp_all add: str_bytes_Cons char_bytes_def)

lemma split_at_byte_ascii:
  "is_ascii s \<Longrightarrow> n \<le> length s \<Longrightarrow> split_at_byte n s = Some (take n s, drop n s)"
proof (induction n s rule: split_at_byte.induct)
  case (3 n c s)
  then show ?case by simp
qed simp_all

lemma split_at_byte_append: "split_at_byte n s = Some (a, b) \<Longrightarrow> s = a @ b"
  by (induction n s arbitrary: a b rule: split_at_byte.induct)
    (auto split: if_splits nat.splits)


lemma set_trim_end_matches: "set (trim_end_matches p s) \<subseteq> set s"
  by (metis rev_rev_ident set_dropWhileD set_rev subsetI trim_end_matches_def)

lemma set_trim: "set (trim s) \<subseteq> set s"
  using set_trim_end_matches [of is_ws "trim_start s"]
  by (auto simp: trim_def trim_start_def dest: set_dropWhileD)

lemma trim_end_matches_last: "trim_end_matches p s \<noteq> [] \<Longrightarrow> \<not> p (last (trim_end_matches p s))"
  by (metis hd_dropWhile last_rev rev_is_Nil_conv rev_rev_ident trim_end_matches_def)

lemma trim_end_matches_id: "s \<noteq> [] \<Longrightarrow> \<not> p (last s) \<Longrightarrow> trim_end_matches p s = s"
  by (cases s rule: rev_cases) (simp_all add: trim_end_matches_def)

lemma trim_end_matches_hd:
  "trim_end_matches p s \<noteq> [] \<Longrightarrow> hd (trim_end_matches p s) = hd s"
proof -
  assume ne: "trim_end_matches p s \<noteq> []"
  have "s = trim_end_matches p s @ rev (takeWhile p (rev s))"
    unfolding trim_end_matches_def
    by (metis rev_append rev_rev_ident takeWhile_dropWhile_id)
  then show ?thesis using ne by (metis hd_append2)
qed

lemma trim_id: "s = [] \<or> (\<not> is_ws (hd s) \<and> \<not> is_ws (last s)) \<Longrightarrow> trim s = s"
  by (cases s) (auto simp: trim_def trim_start_def trim_end_matches_id, simp add: trim_end_matches_def)

lemma trim_ends: "trim s \<noteq> [] \<Longrightarrow> \<not> is_ws (hd (trim s)) \<and> \<not> is_ws (last (trim s))"
  unfolding trim_def trim_start_def
  by (metis dropWhile_eq_Nil_conv hd_dropWhile list.set_intros(1) neq_Nil_conv
      rev.simps(1) trim_end_matches_def dropWhile.simps(1) trim_end_matches_hd trim_end_matches_last)

lemma trim_idem [simp]: "trim (trim s) = trim s"
  using trim_ends trim_id by blast

lemma ascii_lower_idem [simp]: "ascii_lower (ascii_lower s) = ascii_lower s"
  by (simp add: ascii_lower_def)

lemma is_ws_lower_char [simp]: "is_ws (lower_char c) = is_ws c"
  by (auto simp: lower_char_def is_ws_def)

lemma trim_ascii_lower: "trim (ascii_lower s) = ascii_lower (trim s)"
proof -
  have "is_ws \<circ> lower_char = is_ws" by auto
  then show ?thesis
    by (simp add: trim_def trim_start_def trim_end_matches_def ascii_lower_def dropWhile_map
        rev_map)
qed

lemma strip_prefix_Some: "strip_prefix p s = Some r \<longleftrightarrow> s = p @ r"
  by (auto simp: strip_prefix_def prefix_def)

lemma strip_prefix_append [simp]: "strip_prefix p (p @ r) = Some r"
  by (simp add: strip_prefix_Some)

lemma split_by_not_Nil [simp]: "split_by p s \<noteq> []"
  by (induction s) (auto split: list.splits)

lemma split_by_none: "\<forall>c \<in> set s. \<not> p c \<Longrightarrow> split_by p s = [s]"
  by (induction s) auto

lemma split_by_append_sep:
  "\<forall>c \<in> set a. \<not> p c \<Longrightarrow> p x \<Longrightarrow> split_by p (a @ x # s) = a # split_by p s"
  by (induction a) auto

lemma split_by_pieces: "w \<in> set (split_by p s) \<Longrightarrow> c \<in> set w \<Longrightarrow> \<not> p c"
  by (induction s arbitrary: w) (auto split: if_splits list.splits, blast)

lemma split_by_subset: "w \<in> set (split_by p s) \<Longrightarrow> set w \<subseteq> set s"
  by (induction s arbitrary: w) (auto split: if_splits list.splits, fastforce+)

lemma split_once_append:
  "c \<notin> set a \<Longrightarrow> split_once c (a @ c # b) = Some (a, b)"
  by (induction a) (auto simp: split_once_def)

lemma split_once_Some:
  "split_once c s = Some (a, b) \<longleftrightarrow> s = a @ c # b \<and> c \<notin> set a"
proof
  assume "split_once c s = Some (a, b)"
  then have *: "c \<in> set s" "a = takeWhile (\<lambda>x. x \<noteq> c) s" "b = tl (dropWhile (\<lambda>x. x \<noteq> c) s)"
    by (auto simp: split_once_def split: if_splits)
  then obtain u v where "s = u @ c # v" "c \<notin> set u" by (metis split_list_first)
  moreover from this have "takeWhile (\<lambda>x. x \<noteq> c) s = u" "dropWhile (\<lambda>x. x \<noteq> c) s = c # v"
    by (induction u arbitrary: s) auto
  ultimately show "s = a @ c # b \<and> c \<notin> set a" using * by simp
next
  assume "s = a @ c # b \<and> c \<notin> set a"
  then show "split_once c s = Some (a, b)" by (simp add: split_once_append)
qed

lemma rsplit_once_Some:
  "rsplit_once c s = Some (a, b) \<longleftrightarrow> s = a @ c # b \<and> c \<notin> set b"
proof -
  have "rsplit_once c s = Some (a, b) \<longleftrightarrow> split_once c (rev s) = Some (rev b, rev a)"
    by (auto simp: rsplit_once_def)
  also have "\<dots> \<longleftrightarrow> rev s = rev b @ c # rev a \<and> c \<notin> set b"
    by (simp add: split_once_Some)
  also have "\<dots> \<longleftrightarrow> s = a @ c # b \<and> c \<notin> set b"
    by (metis (no_types, opaque_lifting) append.assoc append_Cons append_Nil rev.simps(2)
        rev_append rev_rev_ident)
  finally show ?thesis .
qed

lemma find_sub_Some:
  "find_sub p s = Some i \<Longrightarrow> \<exists>a b. s = a @ p @ b \<and> length a = i"
proof (induction s arbitrary: i)
  case Nil
  then show ?case by (auto split: if_splits)
next
  case (Cons c s)
  show ?case
  proof (cases "prefix p (c # s)")
    case True
    with Cons.prems show ?thesis by (auto simp: prefix_def)
  next
    case False
    with Cons.prems obtain j where "find_sub p s = Some j" "i = Suc j" by auto
    with Cons.IH obtain a b where "s = a @ p @ b" "length a = j" by blast
    with \<open>i = Suc j\<close> have "c # s = (c # a) @ p @ b \<and> length (c # a) = i" by simp
    then show ?thesis by blast
  qed
qed

lemma find_sub_prefix: "find_sub p (p @ s) = Some 0"
proof -
  have "prefix p (p @ s)" by simp
  then show ?thesis by (cases "p @ s") simp_all
qed

lemma find_sub_None: "find_sub p s = None \<longleftrightarrow> \<not> sublist p s"
  by (induction s) (auto simp: sublist_Cons_right)

lemma contains_iff: "contains s p \<longleftrightarrow> sublist p s"
  by (simp add: contains_def find_sub_None)

subsection \<open>Numbers and their decimal form\<close>

lemma digit_char [simp]: "d < 10 \<Longrightarrow> is_digit (char_of (48 + d)) \<and> code (char_of (48 + d)) = 48 + d"
  by (simp add: is_digit_def)

lemma digits_val_append:
  "digits_val acc (s @ t) = Option.bind (digits_val acc s) (\<lambda>n. digits_val n t)"
  by (induction s arbitrary: acc) auto

lemma show_nat_not_Nil [simp]: "show_nat n \<noteq> []"
  by (subst show_nat.simps) simp

lemma digits_val_show_nat: "digits_val 0 (show_nat n) = Some n"
proof (induction n rule: show_nat.induct)
  case (1 n)
  show ?case
  proof (cases "n < 10")
    case True
    then show ?thesis by (subst show_nat.simps) simp
  next
    case False
    with 1 have "digits_val 0 (show_nat (n div 10)) = Some (n div 10)" by simp
    with False show ?thesis
      by (subst show_nat.simps) (simp add: digits_val_append)
  qed
qed

lemma show_nat_digits: "c \<in> set (show_nat n) \<Longrightarrow> is_digit c"
proof (induction n rule: show_nat.induct)
  case (1 n)
  then show ?case by (subst (asm) show_nat.simps) (auto split: if_splits)
qed

lemma show_nat_no: "\<not> is_digit c \<Longrightarrow> c \<notin> set (show_nat n)"
  using show_nat_digits by blast

lemma parse_uint_bound: "parse_uint bound s = Some n \<Longrightarrow> n < bound"
  by (auto simp: parse_uint_def Let_def split: option.splits if_splits list.splits)

lemma parse_uint_show_nat [simp]: "n < bound \<Longrightarrow> parse_uint bound (show_nat n) = Some n"
proof -
  assume "n < bound"
  moreover have "CHR ''+'' \<notin> set (show_nat n)"
    by (rule show_nat_no) (simp add: is_digit_def)
  then have "(case show_nat n of [] \<Rightarrow> [] | c # r \<Rightarrow> if c = CHR ''+'' then r else c # r) = show_nat n"
    by (cases "show_nat n") auto
  ultimately show ?thesis by (simp add: parse_uint_def digits_val_show_nat)
qed

lemma show_nat_inj: "show_nat a = show_nat b \<Longrightarrow> a = b"
  by (metis digits_val_show_nat option.inject)

lemma show_nat_hd_zero: "hd (show_nat n) = CHR ''0'' \<longleftrightarrow> n = 0"
proof (induction n rule: show_nat.induct)
  case (1 n)
  show ?case
  proof (cases "n < 10")
    case True
    have "char_of (48 + n) = CHR ''0'' \<longleftrightarrow> n = 0"
    proof
      assume "char_of (48 + n) = CHR ''0''"
      then have "code (char_of (48 + n)) = code (CHR ''0'')" by simp
      then show "n = 0" using True by simp
    next
      have "char_of (48 :: nat) = CHR ''0''" by code_simp
      then show "n = 0 \<Longrightarrow> char_of (48 + n) = CHR ''0''" by simp
    qed
    then show ?thesis using True by (subst show_nat.simps) simp
  next
    case False
    with 1 show ?thesis by (subst show_nat.simps) simp
  qed
qed

lemma length_show_nat_octet: "n < 256 \<Longrightarrow> length (show_nat n) \<le> 3"
  by (simp add: show_nat.simps [of n] show_nat.simps [of "n div 10"] show_nat.simps [of "n div 10 div 10"])

lemma parse_octet_show [simp]: "parse_octet (show_nat (unat (b :: u8))) = Some b"
proof -
  have b: "unat b < 256" using unsigned_less [of b, where ?'a = nat] by simp
  have "length (show_nat 0) = 1" by (subst show_nat.simps) simp
  then have "\<not> (hd (show_nat (unat b)) = CHR ''0'' \<and> length (show_nat (unat b)) \<noteq> 1)"
    by (cases "unat b = 0") (simp_all add: show_nat_hd_zero)
  then show ?thesis
    using b length_show_nat_octet [OF b] by (simp add: parse_octet_def digits_val_show_nat)
qed

lemma parse_show_ipv4 [simp]: "parse_ipv4 (show_ipv4 ip) = Some ip"
proof -
  have no: "\<forall>c \<in> set (show_nat n). c \<noteq> CHR ''.''" for n
    using show_nat_no [of "CHR ''.''" n] by (auto simp: is_digit_def)
  show ?thesis
    using no by (cases ip) (simp add: show_ipv4_def parse_ipv4_def split_on_def split_by_append_sep split_by_none)
qed

subsection \<open>Reading machine words as numbers\<close>

lemma unat_take_bit: "unat (take_bit n w) = unat w mod 2 ^ n"
  by (simp only: unsigned_take_bit_eq) (simp add: take_bit_eq_mod)

lemma unat_and_mask: "unat (and w (mask n)) = unat w mod 2 ^ n"
  by (simp only: unat_take_bit flip: take_bit_eq_mask)

lemma unat_drop_bit: "unat (drop_bit n w) = unat w div 2 ^ n"
  by (simp only: unat_drop_bit_eq) (simp add: drop_bit_eq_div)

lemma unat_ucast_mod: "unat (ucast w :: 'b::len word) = unat w mod 2 ^ LENGTH('b)"
  by (simp only: unsigned_ucast_eq) (simp add: take_bit_eq_mod)

lemma unat_plus_small:
  "unat a + unat b < 2 ^ LENGTH('a) \<Longrightarrow> unat (a + b :: 'a::len word) = unat a + unat b"
  by (simp only: unat_word_ariths mod_less)

lemma unat_times_small:
  "unat a * unat b < 2 ^ LENGTH('a) \<Longrightarrow> unat (a * b :: 'a::len word) = unat a * unat b"
  by (simp only: unat_word_ariths mod_less)

subsection \<open>UTF-8\<close>

lemma unat_byte: "m < 256 \<Longrightarrow> unat (word_of_nat m :: u8) = m"
  by (simp add: unat_of_nat)

lemma from_utf8_char_bytes: "from_utf8 (char_bytes c @ bs) = map_option (Cons c) (from_utf8 bs)"
proof (cases "code c < 128")
  case True
  then have "unat (word_of_nat (code c) :: u8) = code c" by (simp add: unat_of_nat)
  with True show ?thesis by (simp add: char_bytes_def)
next
  case False
  let ?n = "code c"
  have n: "128 \<le> ?n" "?n < 256" using False by simp_all
  then have d: "?n div 64 = 2 \<or> ?n div 64 = 3" by linarith
  have u1: "unat (word_of_nat (192 + ?n div 64) :: u8) = 192 + ?n div 64"
    by (rule unat_byte) (use d in linarith)
  have "?n mod 64 < 64" by simp
  then have u2: "unat (word_of_nat (128 + ?n mod 64) :: u8) = 128 + ?n mod 64"
    by (intro unat_byte) linarith
  have w: "(word_of_nat (192 + ?n div 64) :: u8) = 0xC2 \<or> (word_of_nat (192 + ?n div 64) :: u8) = 0xC3"
    using d by auto
  have e: "?n div 64 * 64 + ?n mod 64 = ?n" by simp
  have r: "char_of ?n = c" by simp
  show ?thesis
    using n u1 u2 w e r by (simp add: char_bytes_def)
qed

lemma from_utf8_str_bytes [simp]: "from_utf8 (str_bytes s) = Some s"
  by (induction s) (simp_all add: str_bytes_Cons from_utf8_char_bytes)

lemma str_bytes_append [simp]: "str_bytes (a @ b) = str_bytes a @ str_bytes b"
  by (simp add: str_bytes_def)

lemma from_utf8_Nil: "from_utf8 bs = Some [] \<longleftrightarrow> bs = []"
  by (cases bs) (auto split: if_splits list.splits)


lemma str_bytes_inject [simp]: "str_bytes a = str_bytes b \<longleftrightarrow> a = b"
  by (metis from_utf8_str_bytes option.inject)

end
