(* ===== verification/Ulid.thy ===== *)
theory Ulid
  imports Prelude
begin

text \<open>
  \<open>bunsen-core/src/ulid.rs\<close>: the identifiers of Sessions and Runs. The clock and the two
  draws of the random generator are arguments. The lemmas show that the 26 characters are
  the 128-bit value in base 32, so identifiers are injective and sort by creation time,
  which \<open>Session::list\<close> relies on.
\<close>

unbundle bit_operations_syntax

definition CROCKFORD :: string where
  "CROCKFORD = ''0123456789ABCDEFGHJKMNPQRSTVWXYZ''"

text \<open>The loop of \<open>encode_26\<close> fills the array from its last cell down, so the characters
  already written are a suffix.\<close>

fun encode_loop :: "nat \<Rightarrow> u128 \<Rightarrow> string \<Rightarrow> string" where
  "encode_loop 0 bits chars = chars"
| "encode_loop (Suc i) bits chars =
     encode_loop i (drop_bit 5 bits) ((CROCKFORD ! unat (bits AND 0x1f)) # chars)"

definition encode_26 :: "u64 \<Rightarrow> u64 \<Rightarrow> string" where
  "encode_26 hi lo = encode_loop 26 (push_bit 64 (ucast hi) OR ucast lo) []"

definition ulid_generate :: "u64 \<Rightarrow> u64 \<Rightarrow> u64 \<Rightarrow> string" where
  "ulid_generate ts_ms draw1 draw2 =
     (let rand_hi = draw1 AND 0xFFFFFFFFFFFF;
          rand_lo = draw2;
          hi = push_bit 16 ts_ms OR drop_bit 32 rand_hi;
          lo = push_bit 32 rand_hi OR drop_bit 32 rand_lo
      in encode_26 hi lo)"

section \<open>The characters are base-32 digits\<close>

fun base32 :: "nat \<Rightarrow> nat \<Rightarrow> string" where
  "base32 0 v = []"
| "base32 (Suc n) v = base32 n (v div 32) @ [CROCKFORD ! (v mod 32)]"

lemma length_base32 [simp]: "length (base32 n v) = n"
  by (induction n arbitrary: v) auto

lemma unat_and_31: "unat ((w :: u128) AND 0x1f) = unat w mod 32"
proof -
  have "(0x1f :: u128) = mask 5" by (simp add: mask_eq_exp_minus_1)
  then show ?thesis by (simp only: unat_and_mask) simp
qed

lemma unat_drop_5: "unat (drop_bit 5 (w :: u128)) = unat w div 32"
  by (simp only: unat_drop_bit) simp

lemma encode_loop_base32: "encode_loop n w cs = base32 n (unat w) @ cs"
  by (induction n arbitrary: w cs) (simp_all add: unat_and_31 unat_drop_5)

lemma CROCKFORD_less: "i < j \<Longrightarrow> j < 32 \<Longrightarrow> CROCKFORD ! i < CROCKFORD ! j"
proof -
  have "sorted_wrt (<) CROCKFORD" by code_simp
  moreover have "length CROCKFORD = 32" by (simp add: CROCKFORD_def)
  ultimately show "i < j \<Longrightarrow> j < 32 \<Longrightarrow> ?thesis" by (simp add: sorted_wrt_iff_nth_less)
qed

lemma string_less_append:
  "length (xs :: string) = length ys \<Longrightarrow> xs < ys \<Longrightarrow> xs @ us < ys @ vs"
  by (simp add: list_less_def lexord_sufI)

lemma string_less_append_same: "(us :: string) < vs \<Longrightarrow> xs @ us < xs @ vs"
  by (simp add: list_less_def lexord_append_leftI)

lemma base32_mono: "v < w \<Longrightarrow> w < 32 ^ n \<Longrightarrow> base32 n v < base32 n w"
proof (induction n arbitrary: v w)
  case 0
  then show ?case by simp
next
  case (Suc n)
  have "v div 32 < w div 32 \<or> (v div 32 = w div 32 \<and> v mod 32 < w mod 32)"
  proof (cases "v div 32 = w div 32")
    case True
    have "v = 32 * (v div 32) + v mod 32" "w = 32 * (w div 32) + w mod 32" by simp_all
    with True Suc.prems(1) have "v mod 32 < w mod 32" by linarith
    with True show ?thesis by simp
  next
    case False
    moreover have "v div 32 \<le> w div 32" using Suc.prems(1) by (simp add: div_le_mono)
    ultimately show ?thesis by simp
  qed
  then consider "v div 32 < w div 32" | "v div 32 = w div 32" "v mod 32 < w mod 32"
    by blast
  then show ?case
  proof cases
    case 1
    moreover have "w div 32 < 32 ^ n" using Suc.prems(2) by (simp add: less_mult_imp_div_less)
    ultimately show ?thesis by (simp add: Suc.IH string_less_append)
  next
    case 2
    then have "[CROCKFORD ! (v mod 32)] < [CROCKFORD ! (w mod 32)]"
      by (simp add: CROCKFORD_less)
    with 2 show ?thesis by (simp add: string_less_append_same)
  qed
qed

section \<open>The value a ULID encodes\<close>

lemma unat_disjoint_or:
  fixes a b :: "'a::len word"
  assumes "n + m \<le> LENGTH('a)" "unat a < 2 ^ m" "unat b < 2 ^ n"
  shows "unat (push_bit n a OR b) = unat a * 2 ^ n + unat b"
proof -
  have "push_bit n a AND b = 0"
  proof (rule bit_word_eqI)
    fix i assume "i < LENGTH('a)"
    have "take_bit n (unat b) = unat b" using assms(3) by (rule take_bit_nat_eq_self)
    then have "\<not> bit b i" if "n \<le> i"
      using that by (metis bit_take_bit_iff bit_unsigned_iff not_le possible_bit_nat)
    then show "bit (push_bit n a AND b) i = bit (0 :: 'a word) i"
      by (auto simp: bit_and_iff bit_push_bit_iff)
  qed
  then have "push_bit n a OR b = push_bit n a + b"
    by (simp add: disjunctive_add_eq_or)
  moreover have lt: "unat a * 2 ^ n + unat b < 2 ^ LENGTH('a)"
  proof -
    have "unat a * 2 ^ n + unat b < (unat a + 1) * 2 ^ n" using assms(3) by (simp add: algebra_simps)
    also have "\<dots> \<le> 2 ^ m * 2 ^ n" using assms(2) by (intro mult_le_mono1) simp
    also have "\<dots> \<le> 2 ^ LENGTH('a)" using assms(1) by (simp add: flip: power_add)
    finally show ?thesis .
  qed
  moreover have "unat (push_bit n a) = unat a * 2 ^ n"
  proof -
    have "unat a * 2 ^ n < 2 ^ LENGTH('a)" using lt by linarith
    then show ?thesis
      by (simp only: unsigned_push_bit_eq) (metis push_bit_eq_mult take_bit_nat_eq_self)
  qed
  ultimately show ?thesis by (simp only: unat_word_ariths mod_less)
qed

lemma unat_or_below:
  fixes a b :: "'a::len word"
  assumes "n + m \<le> LENGTH('a)" "unat a < 2 ^ m" "unat b < 2 ^ n"
  shows "unat (push_bit n a OR b) < 2 ^ (n + m)"
proof -
  have "unat a * 2 ^ n + unat b < (unat a + 1) * 2 ^ n" using assms(3) by (simp add: algebra_simps)
  also have "\<dots> \<le> 2 ^ m * 2 ^ n" using assms(2) by (intro mult_le_mono1) simp
  finally show ?thesis by (simp add: unat_disjoint_or [OF assms] power_add mult.commute)
qed

lemma unat_ucast_128: "unat (ucast (w :: u64) :: u128) = unat w"
proof -
  have "unat w < 2 ^ 128" using unsigned_less [of w, where ?'a = nat] by simp
  then show ?thesis by (simp add: unsigned_ucast_eq take_bit_nat_eq_self)
qed

lemma encode_26_base32: "encode_26 hi lo = base32 26 (unat hi * 2 ^ 64 + unat lo)"
proof -
  have lt: "unat (w :: u64) < 2 ^ 64" for w using unsigned_less [of w, where ?'a = nat] by simp
  have "unat (push_bit 64 (ucast hi) OR ucast lo :: u128) =
      unat (ucast hi :: u128) * 2 ^ 64 + unat (ucast lo :: u128)"
    using lt [of hi] lt [of lo]
    by (intro unat_disjoint_or [where m = 64]) (simp_all add: unat_ucast_128)
  then show ?thesis
    by (simp only: encode_26_def encode_loop_base32 unat_ucast_128 append_Nil2)
qed

lemma encode_26_less:
  assumes "hi < hi'"
  shows "encode_26 hi lo < encode_26 hi' lo'"
proof -
  have lt: "unat (w :: u64) < 2 ^ 64" for w using unsigned_less [of w, where ?'a = nat] by simp
  have "unat hi < unat hi'" using assms by (simp add: word_less_nat_alt)
  then have "unat hi * 2 ^ 64 + unat lo < unat hi' * 2 ^ 64 + unat lo'"
    using lt [of lo] by simp
  moreover have "unat hi' * 2 ^ 64 + unat lo' < 32 ^ 26"
    using lt [of hi'] lt [of lo'] by simp
  ultimately show ?thesis unfolding encode_26_base32 by (rule base32_mono)
qed

lemma timestamp_word:
  assumes "unat (ts :: u64) < 2 ^ 48"
  shows "unat (push_bit 16 ts OR drop_bit 32 (d AND 0xFFFFFFFFFFFF)) =
    unat ts * 2 ^ 16 + unat (drop_bit 32 (d AND 0xFFFFFFFFFFFF))"
    and "unat (drop_bit 32 (d AND 0xFFFFFFFFFFFF) :: u64) < 2 ^ 16"
proof -
  have "d AND 0xFFFFFFFFFFFF = take_bit 48 d"
    by (simp add: take_bit_eq_mask mask_eq_exp_minus_1)
  then have "unat (d AND 0xFFFFFFFFFFFF) = unat d mod 2 ^ 48"
    by (simp only: unsigned_take_bit_eq) (simp add: take_bit_eq_mod)
  then have "unat (d AND 0xFFFFFFFFFFFF) < 2 ^ 48" by simp
  then show *: "unat (drop_bit 32 (d AND 0xFFFFFFFFFFFF) :: u64) < 2 ^ 16"
    by (simp only: unat_drop_bit_eq) (simp add: drop_bit_eq_div less_mult_imp_div_less)
  show "unat (push_bit 16 ts OR drop_bit 32 (d AND 0xFFFFFFFFFFFF)) =
    unat ts * 2 ^ 16 + unat (drop_bit 32 (d AND 0xFFFFFFFFFFFF))"
    using assms * by (intro unat_disjoint_or [where m = 48]) simp_all
qed

lemma set_base32: "set (base32 n v) \<subseteq> set CROCKFORD"
proof (induction n arbitrary: v)
  case (Suc n)
  have "length CROCKFORD = 32" by (simp add: CROCKFORD_def)
  then have "CROCKFORD ! (v mod 32) \<in> set CROCKFORD" by (intro nth_mem) simp
  with Suc show ?case by simp
qed simp

lemma add_mult_unique:
  fixes a b c d n :: nat
  assumes "a * n + b = c * n + d" "b < n" "d < n"
  shows "a = c \<and> b = d"
proof -
  have "(a * n + b) div n = a" "(c * n + d) div n = c"
    "(a * n + b) mod n = b" "(c * n + d) mod n = d"
    using assms(2,3) by simp_all
  with assms(1) show ?thesis by metis
qed

lemma add_mult_mono:
  fixes a b c d n :: nat
  assumes "a < c" "b < n"
  shows "a * n + b < c * n + d"
proof -
  have "a * n + b < (a + 1) * n" using assms(2) by simp
  also have "\<dots> \<le> c * n" using assms(1) by (intro mult_le_mono1) simp
  finally show ?thesis by simp
qed

lemma encode_26_injective:
  assumes "encode_26 hi lo = encode_26 hi' lo'"
  shows "hi = hi' \<and> lo = lo'"
proof -
  have lt: "unat (w :: u64) < 2 ^ 64" for w using unsigned_less [of w, where ?'a = nat] by simp
  have bound: "unat h * 2 ^ 64 + unat l < 32 ^ 26" for h l :: u64
    using lt [of h] lt [of l] by simp
  have "unat hi * 2 ^ 64 + unat lo = unat hi' * 2 ^ 64 + unat lo'"
    using assms base32_mono [OF _ bound] unfolding encode_26_base32
    by (metis linorder_neqE_nat order_less_irrefl)
  then have "unat hi = unat hi' \<and> unat lo = unat lo'"
    using lt [of lo] lt [of lo'] by (metis add_mult_unique)
  then show ?thesis by (simp add: word_unat_eq_iff)
qed

section \<open>Properties\<close>

text \<open>Identifiers sort by creation time. Of two ULIDs generated at different
  milliseconds (before the 48-bit timestamp runs out), whatever the random draws, the
  earlier one is the smaller string; each has 26 characters of the Crockford alphabet.\<close>

theorem ulids_sort_by_creation_time:
  assumes "unat t1 < unat t2" and "unat t2 < 2 ^ 48"
  shows "ulid_generate t1 a b < ulid_generate t2 c d
    \<and> length (ulid_generate t1 a b) = 26
    \<and> set (ulid_generate t1 a b) \<subseteq> set CROCKFORD"
proof -
  have "unat t1 < 2 ^ 48" using assms by simp
  from timestamp_word [OF this] timestamp_word [OF assms(2)]
  have "push_bit 16 t1 OR drop_bit 32 (a AND 0xFFFFFFFFFFFF)
      < push_bit 16 t2 OR drop_bit 32 (c AND 0xFFFFFFFFFFFF)"
    unfolding word_less_nat_alt using assms(1) add_mult_mono by metis
  then show ?thesis
    unfolding ulid_generate_def Let_def
    using encode_26_less set_base32 by (auto simp: encode_26_base32)
qed

theorem ulids_sort_by_creation_time_witness:
  "ulid_generate 1700000000000 5 6 < ulid_generate 1700000000001 1 2"
  using ulids_sort_by_creation_time [of 1700000000000 1700000000001 5 6 1 2] by simp

end
