(* ===== verification/SandboxNet.thy ===== *)
theory SandboxNet
  imports Ulid
begin

text \<open>
  \<open>bunsen-core/src/sandbox_net.rs\<close>: the addresses of a Run's point-to-point link and the
  name of its TAP device, both derived from the Run id. An \<open>Ipv4Addr\<close> is its four octets;
  \<open>ip_nat\<close> reads it as a number. Slicing a string at a byte offset may panic, which
  is \<^const>\<open>None\<close>.
\<close>

record run_network =
  net_host :: ipv4
  net_guest :: ipv4
  net_prefix_len :: u8

definition FNV_OFFSET :: u32 where "FNV_OFFSET = 0x811c9dc5"
definition FNV_PRIME :: u32 where "FNV_PRIME = 0x01000193"

definition fnv_step :: "u32 \<Rightarrow> u8 \<Rightarrow> u32" where
  "fnv_step h b = (h XOR ucast b) * FNV_PRIME"

definition subnet_index :: "string \<Rightarrow> u32" where
  "subnet_index run_id =
     (let idx = foldl fnv_step FNV_OFFSET (str_bytes run_id) AND 0x3fff
      in if idx = 0 then 1 else idx)"

definition derive_run_network :: "string \<Rightarrow> run_network" where
  "derive_run_network run_id =
     (let base = subnet_index run_id * 4;
          octet_2 = ucast (drop_bit 8 base AND 0xff);
          octet_3 = ucast (base AND 0xff)
      in \<lparr> net_host = (169, 254, octet_2, octet_3 + 1),
           net_guest = (169, 254, octet_2, octet_3 + 2),
           net_prefix_len = 30 \<rparr>)"

definition derive_tap_name :: "string \<Rightarrow> string option" where
  "derive_tap_name run_id =
     (let start = length (str_bytes run_id) - 11
      in map_option (\<lambda>(_, suf). ''tap-'' @ suf) (split_at_byte start run_id))"

section \<open>The address plan\<close>

definition ip_nat :: "ipv4 \<Rightarrow> nat" where
  "ip_nat ip = (case ip of (a, b, c, d) \<Rightarrow>
     ((unat a * 256 + unat b) * 256 + unat c) * 256 + unat d)"

lemma subnet_index_range: "1 \<le> unat (subnet_index r) \<and> unat (subnet_index r) < 16384"
proof -
  let ?i = "foldl fnv_step FNV_OFFSET (str_bytes r) AND 0x3fff"
  have "(0x3fff :: u32) = mask 14" by (simp add: mask_eq_exp_minus_1)
  then have "unat ?i = unat (foldl fnv_step FNV_OFFSET (str_bytes r)) mod 2 ^ 14"
    by (simp only: unat_and_mask)
  then have "unat ?i < 16384" by simp
  moreover have "1 \<le> unat ?i" if "?i \<noteq> 0" using that by (simp add: unat_gt_0 Suc_le_eq)
  ultimately show ?thesis by (auto simp: subnet_index_def Let_def)
qed

lemma octets_of_base:
  fixes i :: u32
  assumes "unat i < 16384"
  shows "unat (ucast (drop_bit 8 (i * 4) AND 0xff) :: u8) = unat i div 64"
    and "unat (ucast (i * 4 AND 0xff) :: u8) = unat i mod 64 * 4"
proof -
  have m: "(0xff :: u32) = mask 8" by (simp add: mask_eq_exp_minus_1)
  have "unat (i * 4) = unat i * unat (4 :: u32)"
    by (rule unat_times_small) (use assms in simp)
  then have u: "unat (i * 4) = unat i * 4" by simp
  have "unat i * 4 div 256 = unat i div 64" "unat i div 64 < 256"
    using assms by (simp_all add: div_mult2_eq [of _ 4 64, simplified] less_mult_imp_div_less)
  then show "unat (ucast (drop_bit 8 (i * 4) AND 0xff) :: u8) = unat i div 64"
    by (simp only: m unat_ucast_mod unat_and_mask unat_drop_bit u) simp
  have "unat i * 4 mod 256 = unat i mod 64 * 4"
    using mult_mod_left [of "unat i" 64 4] by simp
  then show "unat (ucast (i * 4 AND 0xff) :: u8) = unat i mod 64 * 4"
    by (simp only: m unat_ucast_mod unat_and_mask u) simp
qed

lemma run_network_numbers:
  fixes r
  defines "i \<equiv> unat (subnet_index r)"
  shows "ip_nat (net_host (derive_run_network r)) = 0xA9FE0000 + 4 * i + 1"
    and "ip_nat (net_guest (derive_run_network r)) = 0xA9FE0000 + 4 * i + 2"
proof -
  have lt: "i < 16384" using subnet_index_range unfolding i_def by blast
  note o = octets_of_base [OF lt [unfolded i_def], folded i_def]
  have m: "i mod 64 * 4 \<le> 252" using mod_less_divisor [of 64 i] by simp
  have h: "unat (ucast (subnet_index r * 4 AND 0xff) + k :: u8) = i mod 64 * 4 + unat k"
    if "unat k \<le> 3" for k :: u8
    using m that by (subst unat_plus_small) (simp_all add: o)
  have "i = i div 64 * 64 + i mod 64" by simp
  then have e: "i div 64 * 256 + i mod 64 * 4 = 4 * i" by linarith
  show "ip_nat (net_host (derive_run_network r)) = 0xA9FE0000 + 4 * i + 1"
    using e by (simp add: derive_run_network_def Let_def ip_nat_def o h)
  show "ip_nat (net_guest (derive_run_network r)) = 0xA9FE0000 + 4 * i + 2"
    using e by (simp add: derive_run_network_def Let_def ip_nat_def o h)
qed

section \<open>The TAP name of a ULID\<close>

lemma drop_base32: "drop n (base32 (n + m) v) = base32 m v"
  by (induction m arbitrary: v) simp_all

lemma CROCKFORD_ascii: "is_ascii CROCKFORD"
  by code_simp

lemma is_ascii_base32: "is_ascii (base32 n v)"
  using set_base32 CROCKFORD_ascii unfolding is_ascii_def by blast

lemma derive_tap_name_ascii:
  assumes "is_ascii r"
  shows "derive_tap_name r = Some (''tap-'' @ drop (length r - 11) r)"
  using assms by (simp add: derive_tap_name_def Let_def length_str_bytes_ascii split_at_byte_ascii)

lemma base32_mod: "base32 n (v mod 32 ^ n) = base32 n v"
proof (induction n arbitrary: v)
  case (Suc n)
  have "v mod 32 ^ Suc n div 32 = v div 32 mod 32 ^ n"
    by (simp add: mod_mult2_eq)
  moreover have "v mod 32 ^ Suc n mod 32 = v mod 32"
    by (simp add: mod_mod_cancel)
  ultimately show ?case using Suc by (simp del: power_Suc)
qed simp

lemma base32_eq_iff: "base32 n v = base32 n w \<longleftrightarrow> v mod 32 ^ n = w mod 32 ^ n"
proof
  assume eq: "base32 n v = base32 n w"
  show "v mod 32 ^ n = w mod 32 ^ n"
  proof (rule ccontr)
    assume "v mod 32 ^ n \<noteq> w mod 32 ^ n"
    then have "v mod 32 ^ n < w mod 32 ^ n \<or> w mod 32 ^ n < v mod 32 ^ n" by linarith
    moreover have "v mod 32 ^ n < 32 ^ n" "w mod 32 ^ n < 32 ^ n" by simp_all
    ultimately have "base32 n (v mod 32 ^ n) \<noteq> base32 n (w mod 32 ^ n)"
      using base32_mono by (metis order_less_irrefl)
    with eq show False by (simp add: base32_mod)
  qed
next
  assume "v mod 32 ^ n = w mod 32 ^ n"
  then show "base32 n v = base32 n w" by (metis base32_mod)
qed

lemma tap_name_encode_26:
  "derive_tap_name (encode_26 hi lo) = Some (''tap-'' @ base32 11 (unat lo))"
proof -
  have "(unat hi * 2 ^ 64 + unat lo) mod 32 ^ 11 = unat lo mod 32 ^ 11"
    using mod_mult_self3 [of "unat hi * 2 ^ 9" "32 ^ 11" "unat lo"] by (simp add: mult.commute)
  then have "base32 11 (unat hi * 2 ^ 64 + unat lo) = base32 11 (unat lo)"
    by (simp only: base32_eq_iff)
  then show ?thesis
    using drop_base32 [of 15 11]
    by (simp add: encode_26_base32 derive_tap_name_ascii is_ascii_base32)
qed

section \<open>Properties\<close>

text \<open>C30: the link of every Run is a /30 of 169.254.0.0/16 other than the first. Host and
  guest are its two usable addresses (1 and 2), no octet wraps around, and the links of two
  Runs are equal exactly when their subnet indices are, otherwise they do not overlap.\<close>

theorem run_network_is_a_slash_30:
  "let n = derive_run_network r; base = 0xA9FE0000 + 4 * unat (subnet_index r)
   in ip_nat (net_host n) = base + 1 \<and> ip_nat (net_guest n) = base + 2
    \<and> net_prefix_len n = 30 \<and> 0xA9FE0000 + 4 \<le> base \<and> base + 4 \<le> 0xA9FF0000
    \<and> (ip_nat (net_host (derive_run_network r')) div 4 = ip_nat (net_guest n) div 4
        \<longleftrightarrow> derive_run_network r' = n)"
proof -
  have "subnet_index r' = subnet_index r \<longleftrightarrow> unat (subnet_index r') = unat (subnet_index r)"
    by (simp add: word_unat_eq_iff)
  moreover have "derive_run_network r' = derive_run_network r \<longleftrightarrow> subnet_index r' = subnet_index r"
    using run_network_numbers(1) [of r] run_network_numbers(1) [of r'] calculation
    by (auto simp: derive_run_network_def)
  ultimately show ?thesis
    using subnet_index_range [of r]
    by (simp add: Let_def run_network_numbers) (simp add: derive_run_network_def Let_def)
qed

text \<open>The TAP name of a ULID is never a panic, fits the kernel's 15 characters, and
  is the same for two ULIDs exactly when the last 55 random bits are, whatever the creation
  times: Runs launched in the same millisecond do not collide on the timestamp.\<close>

theorem tap_name_ignores_the_timestamp:
  "\<exists>name. derive_tap_name (encode_26 hi lo) = Some name \<and> length name = 15
    \<and> (derive_tap_name (encode_26 hi' lo') = Some name
        \<longleftrightarrow> unat lo' mod 2 ^ 55 = unat lo mod 2 ^ 55)"
  by (simp add: tap_name_encode_26 base32_eq_iff)

end
