(* ===== verification/Json.thy ===== *)
theory Json
  imports Prelude
begin

text \<open>
  The part of \<open>serde_json::Value\<close> the sources build and inspect, and the event envelope of
  \<open>bunsen-core/src/events.rs\<close>. An object is serde's \<open>Map\<close>, a \<open>BTreeMap\<close> here
  (the \<open>preserve_order\<close> feature is off): an association list in increasing key order.
  Parsing text into a value and printing one belong to serde\_json and are parameters where a
  component uses them. A floating-point number is its 64-bit pattern; the arithmetic on it is
  a parameter, collected in \<open>float_ops\<close>.
\<close>

type_synonym f64 = u64

datatype number = PosInt u64 | NegInt u64 | Float f64

datatype json =
    JNull
  | JBool bool
  | JNum number
  | JStr string
  | JArr "json list"
  | JObj "(string \<times> json) list"

type_synonym jmap = "(string \<times> json) list"

record float_ops =
  f64_parse :: "string \<Rightarrow> f64 option"
  f64_add :: "f64 \<Rightarrow> f64 \<Rightarrow> f64"
  f64_of_int :: "number \<Rightarrow> f64"
  f64_scale_round :: "f64 \<Rightarrow> nat \<Rightarrow> u64"

section \<open>Maps and accessors\<close>

fun obj_insert :: "string \<Rightarrow> json \<Rightarrow> jmap \<Rightarrow> jmap" where
  "obj_insert k v [] = [(k, v)]"
| "obj_insert k v ((k', v') # m) =
     (if k < k' then (k, v) # (k', v') # m
      else if k = k' then (k, v) # m
      else (k', v') # obj_insert k v m)"

text \<open>The \<open>json!\<close> macro on an object literal inserts the pairs in order.\<close>

definition jmap_of :: "(string \<times> json) list \<Rightarrow> jmap" where
  "jmap_of kvs = foldl (\<lambda>m (k, v). obj_insert k v m) [] kvs"

definition opt_insert :: "string \<Rightarrow> json option \<Rightarrow> jmap \<Rightarrow> jmap" where
  "opt_insert k v m = (case v of None \<Rightarrow> m | Some j \<Rightarrow> obj_insert k j m)"

fun jget :: "string \<Rightarrow> json \<Rightarrow> json option" where
  "jget k (JObj m) = map_of m k"
| "jget k _ = None"

fun as_str :: "json \<Rightarrow> string option" where
  "as_str (JStr s) = Some s"
| "as_str _ = None"

fun as_bool :: "json \<Rightarrow> bool option" where
  "as_bool (JBool b) = Some b"
| "as_bool _ = None"

fun as_array :: "json \<Rightarrow> json list option" where
  "as_array (JArr xs) = Some xs"
| "as_array _ = None"

fun as_object :: "json \<Rightarrow> jmap option" where
  "as_object (JObj m) = Some m"
| "as_object _ = None"

fun as_u64 :: "json \<Rightarrow> u64 option" where
  "as_u64 (JNum (PosInt n)) = Some n"
| "as_u64 _ = None"

fun as_f64 :: "float_ops \<Rightarrow> json \<Rightarrow> f64 option" where
  "as_f64 F (JNum (Float x)) = Some x"
| "as_f64 F (JNum n) = Some (f64_of_int F n)"
| "as_f64 F _ = None"

definition get_str :: "string \<Rightarrow> json \<Rightarrow> string option" where
  "get_str k j = Option.bind (jget k j) as_str"

definition get_u64 :: "string \<Rightarrow> json \<Rightarrow> u64 option" where
  "get_u64 k j = Option.bind (jget k j) as_u64"

definition unwrap_or :: "'a \<Rightarrow> 'a option \<Rightarrow> 'a" where
  "unwrap_or d x = (case x of None \<Rightarrow> d | Some y \<Rightarrow> y)"

lemma unwrap_or_simps [simp]: "unwrap_or d None = d" "unwrap_or d (Some y) = y"
  by (simp_all add: unwrap_or_def)

abbreviation ju64 :: "u64 \<Rightarrow> json" where "ju64 n \<equiv> JNum (PosInt n)"
abbreviation ju32 :: "u32 \<Rightarrow> json" where "ju32 n \<equiv> JNum (PosInt (ucast n))"
abbreviation jf64 :: "f64 \<Rightarrow> json" where "jf64 x \<equiv> JNum (Float x)"

section \<open>Lemmas on maps\<close>

abbreviation keys :: "jmap \<Rightarrow> string set" where
  "keys m \<equiv> fst ` set m"

definition wf_map :: "jmap \<Rightarrow> bool" where
  "wf_map m = sorted_wrt (<) (map fst m)"

lemma keys_obj_insert [simp]: "keys (obj_insert k v m) = insert k (keys m)"
  by (induction k v m rule: obj_insert.induct) auto

lemma wf_map_Nil [simp]: "wf_map []"
  by (simp add: wf_map_def)

lemma wf_obj_insert [simp]: "wf_map m \<Longrightarrow> wf_map (obj_insert k v m)"
proof (induction k v m rule: obj_insert.induct)
  case (2 k v k' v' m)
  then show ?case
    using keys_obj_insert [of k v m] by (auto simp: wf_map_def)
qed (simp add: wf_map_def)

lemma map_of_obj_insert [simp]: "wf_map m \<Longrightarrow> map_of (obj_insert k v m) = (map_of m)(k \<mapsto> v)"
proof (induction k v m rule: obj_insert.induct)
  case (2 k v k' v' m)
  then show ?case by (auto simp: wf_map_def fun_eq_iff)
qed simp

lemma keys_opt_insert [simp]:
  "keys (opt_insert k v m) = (if v = None then keys m else insert k (keys m))"
  by (simp add: opt_insert_def split: option.splits)

lemma wf_opt_insert [simp]: "wf_map m \<Longrightarrow> wf_map (opt_insert k v m)"
  by (simp add: opt_insert_def split: option.splits)

lemma map_of_opt_insert [simp]:
  "wf_map m \<Longrightarrow> map_of (opt_insert k v m) = (if v = None then map_of m else (map_of m)(k := v))"
  by (auto simp: opt_insert_def split: option.splits)

lemma foldl_insert_wf:
  "wf_map m \<Longrightarrow> wf_map (foldl (\<lambda>m (k, v). obj_insert k v m) m kvs)"
  by (induction kvs arbitrary: m) auto

lemma foldl_insert_keys:
  "keys (foldl (\<lambda>m (k, v). obj_insert k v m) m kvs) = keys m \<union> keys kvs"
proof (induction kvs arbitrary: m)
  case (Cons kv kvs)
  then show ?case by (cases kv) (simp only: foldl_Cons prod.case keys_obj_insert, simp)
qed simp

lemma wf_jmap_of [simp]: "wf_map (jmap_of kvs)"
  by (simp add: jmap_of_def foldl_insert_wf)

lemma keys_jmap_of [simp]: "keys (jmap_of kvs) = keys kvs"
  by (simp add: jmap_of_def foldl_insert_keys)

lemma map_of_foldl_insert:
  "wf_map m \<Longrightarrow>
   map_of (foldl (\<lambda>m (k, v). obj_insert k v m) m kvs) k = (case map_of (rev kvs) k of
      None \<Rightarrow> map_of m k | Some v \<Rightarrow> Some v)"
  by (induction kvs arbitrary: m) (auto simp: map_of_append map_add_def split: option.splits)

lemma map_of_jmap_of [simp]: "map_of (jmap_of kvs) = map_of (rev kvs)"
  by (auto simp: jmap_of_def map_of_foldl_insert fun_eq_iff split: option.splits)

section \<open>The event envelope\<close>

type_synonym event = "string \<times> json"

definition SCHEMA_VERSION :: u32 where "SCHEMA_VERSION = 1"

record envelope =
  env_schema_version :: u32
  env_run_id :: string
  env_seq :: u64
  env_ts :: string
  env_type :: string
  env_payload :: json

definition envelope_new :: "string \<Rightarrow> string \<Rightarrow> u64 \<Rightarrow> string \<Rightarrow> json \<Rightarrow> envelope" where
  "envelope_new ts run_id seq event_type payload =
     \<lparr> env_schema_version = SCHEMA_VERSION, env_run_id = run_id, env_seq = seq, env_ts = ts,
       env_type = event_type, env_payload = payload \<rparr>"

text \<open>The derived \<open>Serialize\<close>: the fields in their order, \<open>event_type\<close> renamed to
  \<open>type\<close>, then the entries of the flattened payload, which must be an object (or null);
  serialization fails otherwise, and the caller unwraps. Duplicate keys are not detected.\<close>

definition envelope_fields :: "envelope \<Rightarrow> (string \<times> json) list option" where
  "envelope_fields e =
     (let own = [(''schema_version'', ju32 (env_schema_version e)), (''run_id'', JStr (env_run_id e)),
                 (''seq'', ju64 (env_seq e)), (''ts'', JStr (env_ts e)), (''type'', JStr (env_type e))]
      in case env_payload e of
           JObj m \<Rightarrow> Some (own @ m)
         | JNull \<Rightarrow> Some own
         | _ \<Rightarrow> None)"

definition envelope_keys :: "string list" where
  "envelope_keys = [''schema_version'', ''run_id'', ''seq'', ''ts'', ''type'']"

text \<open>What every producer of events promises about a payload: an object whose keys do not
  clash with the envelope's.\<close>

definition payload_ok :: "json \<Rightarrow> bool" where
  "payload_ok j = (case j of JObj m \<Rightarrow> wf_map m \<and> (\<forall>k \<in> set envelope_keys. k \<notin> keys m) | _ \<Rightarrow> False)"

lemma payload_ok_JObj:
  "payload_ok (JObj m) \<longleftrightarrow> wf_map m \<and> (\<forall>k \<in> set envelope_keys. k \<notin> keys m)"
  by (simp add: payload_ok_def)

lemma wf_map_distinct: "wf_map m \<Longrightarrow> distinct (map fst m)"
  unfolding wf_map_def using strict_sorted_iff by blast

lemma envelope_fields_ok:
  assumes "payload_ok (env_payload e)"
  shows "\<exists>fs. envelope_fields e = Some fs \<and> distinct (map fst fs) \<and> set envelope_keys \<subseteq> keys fs
    \<and> map_of fs ''type'' = Some (JStr (env_type e))"
proof -
  obtain m where m: "env_payload e = JObj m" "wf_map m" "\<forall>k \<in> set envelope_keys. k \<notin> keys m"
    using assms by (cases "env_payload e") (auto simp: payload_ok_def)
  then show ?thesis
    using wf_map_distinct [OF m(2)] by (auto simp: envelope_fields_def envelope_keys_def Let_def)
qed

end
