(* ===== verification/Egress.thy ===== *)
theory Egress
  imports Json
begin

text \<open>
  \<open>bunsen-core/src/egress.rs\<close>: the Egress Policy of a Run and the record of a denial. The
  policy is the interface between the enforcement paths (DNS resolver, L7 proxy) and the
  composition of the policy; the locale \<open>host_filter\<close> states the laws those clients use, and
  is interpreted on \<open>allows\<close>.
\<close>

definition EVENT_TYPE :: string where "EVENT_TYPE = ''egress_denied''"

datatype protocol = Http | Https | RawTcp | DnsProto

fun protocol_as_str :: "protocol \<Rightarrow> string" where
  "protocol_as_str Http = ''http''"
| "protocol_as_str Https = ''https''"
| "protocol_as_str RawTcp = ''raw_tcp''"
| "protocol_as_str DnsProto = ''dns''"

record denial_event =
  den_destination :: string
  den_protocol :: protocol
  den_reason :: string

definition denied_payload :: "string \<Rightarrow> protocol \<Rightarrow> string \<Rightarrow> json" where
  "denied_payload destination protocol reason =
     JObj (jmap_of [(''destination'', JStr destination),
                    (''protocol'', JStr (protocol_as_str protocol)),
                    (''reason'', JStr reason)])"

record egress_policy =
  allowed :: "string list"

definition norm_host :: "string \<Rightarrow> string" where
  "norm_host s = ascii_lower (trim s)"

text \<open>One iteration of either loop of \<open>compose\<close>: the set \<open>seen\<close> and the vector.\<close>

definition compose_step :: "string set \<times> string list \<Rightarrow> string \<Rightarrow> string set \<times> string list" where
  "compose_step st s =
     (case st of (seen, acc) \<Rightarrow>
        let norm = norm_host s
        in if norm \<noteq> [] \<and> norm \<notin> seen then (insert norm seen, acc @ [norm]) else (seen, acc))"

definition compose :: "string list \<Rightarrow> string list \<Rightarrow> egress_policy" where
  "compose adapter_declared user_added =
     (let st1 = foldl compose_step ({}, []) adapter_declared;
          st2 = foldl compose_step st1 user_added
      in \<lparr> allowed = snd st2 \<rparr>)"

definition allows :: "egress_policy \<Rightarrow> string \<Rightarrow> bool" where
  "allows p destination = (let norm = norm_host destination in list_ex (\<lambda>a. a = norm) (allowed p))"

section \<open>The policy as a filter\<close>

text \<open>What the enforcement paths rely on: the decision depends on the normal form of the
  name only, the normal form ignores case, and the empty name is never allowed.\<close>

locale host_filter =
  fixes permit :: "'p \<Rightarrow> string \<Rightarrow> bool" and norm :: "string \<Rightarrow> string"
  assumes permit_norm: "norm a = norm b \<Longrightarrow> permit p a = permit p b"
    and norm_lower: "norm (ascii_lower a) = norm a"
begin

lemma permit_lower [simp]: "permit p (ascii_lower h) = permit p h"
  by (rule permit_norm) (rule norm_lower)

lemma permit_eq_ignore_case: "eq_ignore_case a b \<Longrightarrow> permit p a = permit p b"
  by (metis eq_ignore_case_def permit_lower)

lemma find_denied: "list_all (permit p) hs \<longleftrightarrow> find (\<lambda>h. \<not> permit p h) hs = None"
  by (auto simp: find_None_iff list_all_iff)

end

lemma norm_host_idem [simp]: "norm_host (norm_host s) = norm_host s"
  by (simp add: norm_host_def trim_ascii_lower)

lemma norm_host_lower [simp]: "norm_host (ascii_lower s) = norm_host s"
  by (simp add: norm_host_def trim_ascii_lower)

interpretation pol: host_filter allows norm_host
  by unfold_locales (simp_all add: allows_def)

section \<open>Composition against the set it stands for\<close>

text \<open>The reference: normal forms of all entries, without the empty one, first occurrences
  kept in order.\<close>

definition nub :: "'a list \<Rightarrow> 'a list" where
  "nub xs = rev (remdups (rev xs))"

lemma nub_snoc: "nub (xs @ [x]) = (if x \<in> set xs then nub xs else nub xs @ [x])"
  by (simp add: nub_def)

lemma set_nub [simp]: "set (nub xs) = set xs"
  by (simp add: nub_def)

lemma distinct_nub [simp]: "distinct (nub xs)"
  by (simp add: nub_def)

lemma compose_steps:
  "foldl compose_step ({}, []) xs =
     (let ns = filter (\<lambda>n. n \<noteq> []) (map norm_host xs) in (set ns, nub ns))"
proof (induction xs rule: rev_induct)
  case Nil
  then show ?case by (simp add: nub_def)
next
  case (snoc x xs)
  then show ?case
    by (simp add: compose_step_def Let_def nub_snoc insert_absorb)
qed

lemma allowed_compose:
  "allowed (compose ad us) = nub (filter (\<lambda>n. n \<noteq> []) (map norm_host (ad @ us)))"
  unfolding compose_def Let_def foldl_append [symmetric] by (simp only: compose_steps Let_def snd_conv
      egress_policy.simps)

lemma allows_compose:
  "allows (compose ad us) d \<longleftrightarrow> norm_host d \<noteq> [] \<and> (\<exists>s \<in> set ad \<union> set us. norm_host s = norm_host d)"
proof -
  have "allows (compose ad us) d \<longleftrightarrow> norm_host d \<in> set (allowed (compose ad us))"
    by (simp add: allows_def Let_def list_ex_iff)
  moreover have "set (allowed (compose ad us)) = norm_host ` (set ad \<union> set us) - {[]}"
    by (auto simp: allowed_compose)
  ultimately have "allows (compose ad us) d \<longleftrightarrow>
      norm_host d \<in> norm_host ` (set ad \<union> set us) \<and> norm_host d \<noteq> []" by simp
  moreover have "n \<in> norm_host ` A \<longleftrightarrow> (\<exists>s \<in> A. norm_host s = n)" for n A by force
  ultimately show ?thesis by blast
qed

lemma allows_recompose: "allows (compose (allowed (compose ad us)) []) x = allows (compose ad us) x"
proof -
  have "set (allowed (compose ad us)) = norm_host ` (set ad \<union> set us) - {[]}"
    by (auto simp: allowed_compose)
  moreover have "(\<exists>s \<in> norm_host ` A - {[]}. norm_host s = n) \<longleftrightarrow> (\<exists>s \<in> A. norm_host s = n)"
    if "n \<noteq> []" for A n
  proof
    assume "\<exists>s \<in> A. norm_host s = n"
    then obtain s where "s \<in> A" "norm_host s = n" by blast
    then show "\<exists>s \<in> norm_host ` A - {[]}. norm_host s = n"
      using that by (intro bexI [of _ "norm_host s"]) auto
  qed auto
  ultimately show ?thesis
    unfolding allows_compose by (metis (no_types, lifting) list.set(1) Un_empty_right)
qed

lemma allows_empty_policy [simp]: "\<not> allows \<lparr>allowed = []\<rparr> d"
  by (simp add: allows_def)

section \<open>Properties\<close>

text \<open>C25: the composed policy is the union of both lists up to case and surrounding blanks:
  a destination is allowed exactly when its normal form is non-empty and is the normal form
  of a declared or an added entry (no wildcard or suffix matching); the list keeps first
  occurrences in order, adapter entries first, without duplicates.\<close>

theorem compose_allows_exactly_the_union:
  "(allows (compose ad us) d \<longleftrightarrow> norm_host d \<noteq> [] \<and>
      (\<exists>s \<in> set ad \<union> set us. norm_host s = norm_host d))
   \<and> distinct (allowed (compose ad us))
   \<and> allowed (compose ad us) = nub (filter (\<lambda>n. n \<noteq> []) (map norm_host ad @ map norm_host us))
   \<and> (\<forall>x. allows (compose (allowed (compose ad us)) []) x = allows (compose ad us) x)"
  using allows_recompose [of ad us] by (simp add: allows_compose) (simp add: allowed_compose)

end
