(* ===== verification/Dns.thy ===== *)
theory Dns
  imports Egress
begin

text \<open>
  \<open>bunsen-core/src/dns.rs\<close>: the DNS denial path. The parser walks the datagram by offset as
  the source does; its lemmas relate it to the wire format of RFC 1035 (\<open>wire_name\<close>). The
  handler returns the outcome together with what it sent to the upstream resolver and to the
  denial channel. The upstream resolver and the parser of IPv6 literals are parameters.
\<close>

unbundle bit_operations_syntax

datatype dns_parse_error =
    TruncatedHeader | NoQuestion | TruncatedQuestion | InvalidLabel | LabelTooLong | NameTooLong

record dns_header =
  dh_id :: u16
  dh_flags :: u16
  dh_qdcount :: u16
  dh_ancount :: u16
  dh_nscount :: u16
  dh_arcount :: u16

record dns_question =
  dq_name :: string
  dq_qtype :: u16
  dq_qclass :: u16

record dns_query =
  dns_hdr :: dns_header
  dns_questions :: "dns_question list"
  question_section_end :: nat

definition RCODE_REFUSED :: u8 where "RCODE_REFUSED = 5"
definition FLAG_QR :: u16 where "FLAG_QR = 0x8000"
definition FLAGS_PRESERVE_FROM_QUERY :: u16 where "FLAGS_PRESERVE_FROM_QUERY = 0x7900"

definition from_be :: "u8 \<Rightarrow> u8 \<Rightarrow> u16" where
  "from_be a b = push_bit 8 (ucast a) OR ucast b"

definition to_be :: "u16 \<Rightarrow> bytes" where
  "to_be w = [ucast (drop_bit 8 w), ucast w]"

definition lower_byte_char :: "u8 \<Rightarrow> char" where
  "lower_byte_char b = lower_char (char_of (unat b))"

text \<open>The loop of \<open>parse_qname\<close>, with its locals \<open>name\<close>, \<open>total_len\<close> and \<open>offset\<close>.\<close>

function parse_qname_loop ::
  "bytes \<Rightarrow> string \<Rightarrow> nat \<Rightarrow> nat \<Rightarrow> dns_parse_error + (string \<times> nat)" where
  "parse_qname_loop bytes name total_len offset =
     (if length bytes \<le> offset then Inl TruncatedQuestion
      else let len_byte = bytes ! offset in
        if len_byte AND 0xC0 \<noteq> 0 then Inl InvalidLabel
        else let label_len = unat len_byte; offset = offset + 1 in
          if label_len = 0 then Inr (name, offset)
          else if 63 < label_len then Inl LabelTooLong
          else if length bytes < offset + label_len then Inl TruncatedQuestion
          else let total_len = total_len + (label_len + 1) in
            if 255 < total_len then Inl NameTooLong
            else let dotted = (if name \<noteq> [] then name @ ''.'' else name);
                     label = take label_len (drop offset bytes)
                 in parse_qname_loop bytes (dotted @ map lower_byte_char label) total_len
                      (offset + label_len))"
  by pat_completeness auto
termination by (relation "measure (\<lambda>(bytes, _, _, offset). length bytes - offset)") auto

declare parse_qname_loop.simps [simp del]

definition parse_qname :: "bytes \<Rightarrow> nat \<Rightarrow> dns_parse_error + (string \<times> nat)" where
  "parse_qname bytes offset = parse_qname_loop bytes [] 0 offset"

fun parse_questions ::
  "bytes \<Rightarrow> nat \<Rightarrow> nat \<Rightarrow> dns_question list \<Rightarrow> dns_parse_error + (dns_question list \<times> nat)" where
  "parse_questions bytes 0 offset questions = Inr (questions, offset)"
| "parse_questions bytes (Suc n) offset questions =
     rbind (parse_qname bytes offset) (\<lambda>(name, new_offset).
       if length bytes < new_offset + 4 then Inl TruncatedQuestion
       else let qtype = from_be (bytes ! new_offset) (bytes ! (new_offset + 1));
                qclass = from_be (bytes ! (new_offset + 2)) (bytes ! (new_offset + 3))
            in parse_questions bytes n (new_offset + 4)
                 (questions @ [\<lparr> dq_name = name, dq_qtype = qtype, dq_qclass = qclass \<rparr>]))"

definition parse_header :: "bytes \<Rightarrow> dns_header" where
  "parse_header bytes =
     \<lparr> dh_id = from_be (bytes ! 0) (bytes ! 1), dh_flags = from_be (bytes ! 2) (bytes ! 3),
       dh_qdcount = from_be (bytes ! 4) (bytes ! 5), dh_ancount = from_be (bytes ! 6) (bytes ! 7),
       dh_nscount = from_be (bytes ! 8) (bytes ! 9), dh_arcount = from_be (bytes ! 10) (bytes ! 11) \<rparr>"

definition parse_dns_query :: "bytes \<Rightarrow> dns_parse_error + dns_query" where
  "parse_dns_query bytes =
     (if length bytes < 12 then Inl TruncatedHeader
      else let header = parse_header bytes in
        if dh_qdcount header = 0 then Inl NoQuestion
        else rbind (parse_questions bytes (unat (dh_qdcount header)) 12 []) (\<lambda>(questions, offset).
          Inr \<lparr> dns_hdr = header, dns_questions = questions, question_section_end = offset \<rparr>))"

datatype dns_decision = DnsAllow | DnsDeny string

fun evaluate_questions :: "dns_question list \<Rightarrow> egress_policy \<Rightarrow> dns_decision" where
  "evaluate_questions [] policy = DnsAllow"
| "evaluate_questions (q # qs) policy =
     (if \<not> allows policy (dq_name q) then DnsDeny ''not in allowlist''
      else evaluate_questions qs policy)"

definition evaluate_dns_query :: "dns_query \<Rightarrow> egress_policy \<Rightarrow> dns_decision" where
  "evaluate_dns_query query policy = evaluate_questions (dns_questions query) policy"

definition build_refused_response :: "bytes \<Rightarrow> dns_parse_error + bytes" where
  "build_refused_response query_bytes =
     rbind (parse_dns_query query_bytes) (\<lambda>query.
       let h = dns_hdr query;
           q_end = question_section_end query;
           reply_flags = ((dh_flags h AND FLAGS_PRESERVE_FROM_QUERY) OR FLAG_QR) OR ucast RCODE_REFUSED
       in Inr (to_be (dh_id h) @ to_be reply_flags @ to_be (dh_qdcount h) @ to_be 0 @ to_be 0
               @ to_be 0 @ take (q_end - 12) (drop 12 query_bytes)))"

definition dns_event_reason :: "u16 \<Rightarrow> string" where
  "dns_event_reason qtype = ''DNS query denied (qtype='' @ show_nat (unat qtype) @ '')''"

text \<open>\<open>parse_resolv_conf\<close>: the first usable nameserver line. An IPv6 literal is read by the
  parameter \<open>parse_v6\<close>; the port is always 53.\<close>

datatype ip_addr = IpV4 ipv4 | IpV6 u128

definition parse_ip :: "(string \<Rightarrow> u128 option) \<Rightarrow> string \<Rightarrow> ip_addr option" where
  "parse_ip parse_v6 s =
     (case parse_ipv4 s of Some a \<Rightarrow> Some (IpV4 a) | None \<Rightarrow> map_option IpV6 (parse_v6 s))"

definition resolv_line :: "(string \<Rightarrow> u128 option) \<Rightarrow> string \<Rightarrow> (ip_addr \<times> u16) option" where
  "resolv_line parse_v6 line0 =
     (let line1 = (case split_once (CHR ''#'') line0 of Some (before, _) \<Rightarrow> before | None \<Rightarrow> line0);
          line = trim line1
      in if line = [] \<or> hd line = CHR '';'' then None
         else case split_ascii_whitespace line of
             [] \<Rightarrow> None
           | directive # rest \<Rightarrow>
               if \<not> eq_ignore_case directive ''nameserver'' then None
               else (case rest of
                   [] \<Rightarrow> None
                 | ip_str # _ \<Rightarrow> map_option (\<lambda>ip. (ip, 53)) (parse_ip parse_v6 ip_str)))"

fun resolv_loop :: "(string \<Rightarrow> u128 option) \<Rightarrow> string list \<Rightarrow> (ip_addr \<times> u16) option" where
  "resolv_loop parse_v6 [] = None"
| "resolv_loop parse_v6 (l # ls) =
     (case resolv_line parse_v6 l of Some a \<Rightarrow> Some a | None \<Rightarrow> resolv_loop parse_v6 ls)"

definition parse_resolv_conf :: "(string \<Rightarrow> u128 option) \<Rightarrow> string \<Rightarrow> (ip_addr \<times> u16) option" where
  "parse_resolv_conf parse_v6 contents = resolv_loop parse_v6 (str_lines contents)"

text \<open>\<open>contents\<close> is \<^const>\<open>None\<close> when the file cannot be read.\<close>

definition default_dns_upstream :: "(string \<Rightarrow> u128 option) \<Rightarrow> string option \<Rightarrow> ip_addr \<times> u16" where
  "default_dns_upstream parse_v6 contents =
     (case Option.bind contents (parse_resolv_conf parse_v6) of
        Some addr \<Rightarrow> addr | None \<Rightarrow> (IpV4 (8, 8, 8, 8), 53))"

datatype dns_outcome = Reply bytes | NoReply

text \<open>\<open>handle_dns_query\<close>: the outcome, the datagrams sent upstream, the events sent on the
  channel (a send to a closed channel is ignored by the source). The resolver answers
  \<^const>\<open>None\<close> for an error.\<close>

definition handle_dns_query ::
  "(bytes \<Rightarrow> bytes option) \<Rightarrow> bytes \<Rightarrow> egress_policy \<Rightarrow> dns_outcome \<times> bytes list \<times> denial_event list" where
  "handle_dns_query resolve query_bytes policy =
     (case parse_dns_query query_bytes of
        Inl _ \<Rightarrow> (NoReply, [], [])
      | Inr query \<Rightarrow>
          (case evaluate_dns_query query policy of
             DnsAllow \<Rightarrow>
               ((case resolve query_bytes of Some bytes \<Rightarrow> Reply bytes | None \<Rightarrow> NoReply),
                [query_bytes], [])
           | DnsDeny _ \<Rightarrow>
               (let (dest, qtype) = (case find (\<lambda>q. \<not> allows policy (dq_name q)) (dns_questions query) of
                       Some q \<Rightarrow> (dq_name q, dq_qtype q) | None \<Rightarrow> ([], 0))
                in ((case build_refused_response query_bytes of
                       Inr reply \<Rightarrow> Reply reply | Inl _ \<Rightarrow> NoReply),
                    [],
                    [\<lparr> den_destination = dest, den_protocol = DnsProto,
                       den_reason = dns_event_reason qtype \<rparr>]))))"

section \<open>The wire format of a name\<close>

definition wire_name :: "bytes list \<Rightarrow> bytes" where
  "wire_name ls = concat (map (\<lambda>l. word_of_nat (length l) # l) ls) @ [0]"

definition labels_ok :: "nat \<Rightarrow> bytes list \<Rightarrow> bool" where
  "labels_ok tot ls \<longleftrightarrow> list_all (\<lambda>l. 1 \<le> length l \<and> length l \<le> 63) ls
     \<and> (ls = [] \<or> tot + sum_list (map (\<lambda>l. length l + 1) ls) \<le> 255)"

definition push_label :: "string \<Rightarrow> bytes \<Rightarrow> string" where
  "push_label name l = (if name \<noteq> [] then name @ ''.'' else name) @ map lower_byte_char l"

definition dotted_name :: "bytes list \<Rightarrow> string" where
  "dotted_name ls = foldl push_label [] ls"

lemma high_bits_zero_iff: "(b :: u8) AND 0xC0 = 0 \<longleftrightarrow> unat b < 64"
proof -
  have "list_all (\<lambda>n. ((word_of_nat n :: u8) AND 0xC0 = 0) = (n < 64)) [0..<256]"
    by code_simp
  then have "((word_of_nat n :: u8) AND 0xC0 = 0) = (n < 64)" if "n < 256" for n
    using that by (simp add: list_all_iff)
  from this [of "unat b"] show ?thesis using unsigned_less [of b, where ?'a = nat] by simp
qed

lemma wire_name_Nil [simp]: "wire_name [] = [0]"
  by (simp add: wire_name_def)

lemma wire_name_Cons [simp]: "wire_name (l # ls) = word_of_nat (length l) # l @ wire_name ls"
  by (simp add: wire_name_def)

lemma labels_ok_Nil [simp]: "labels_ok t []"
  by (simp add: labels_ok_def)

lemma labels_ok_Cons:
  "labels_ok t (l # ls) \<longleftrightarrow>
     1 \<le> length l \<and> length l \<le> 63 \<and> t + (length l + 1) \<le> 255 \<and> labels_ok (t + (length l + 1)) ls"
  by (auto simp: labels_ok_def)

lemma take_Cons_drop: "k < length xs \<Longrightarrow> take (Suc n) (drop k xs) = xs ! k # take n (drop (Suc k) xs)"
  by (simp flip: Cons_nth_drop_Suc)

lemma qname_loop_step:
  assumes "off < length bytes" "unat (bytes ! off) = n" "1 \<le> n" "n \<le> 63"
    "off + 1 + n \<le> length bytes" "t + (n + 1) \<le> 255"
  shows "parse_qname_loop bytes name t off =
    parse_qname_loop bytes (push_label name (take n (drop (off + 1) bytes))) (t + (n + 1)) (off + 1 + n)"
  using assms high_bits_zero_iff [of "bytes ! off"]
  by (subst parse_qname_loop.simps) (simp add: Let_def push_label_def)

text \<open>Both directions: the loop succeeds exactly on the encoding of a list of labels.\<close>

lemma qname_loop_complete:
  "labels_ok t ls \<Longrightarrow> take (length (wire_name ls)) (drop off bytes) = wire_name ls \<Longrightarrow>
   parse_qname_loop bytes name t off = Inr (foldl push_label name ls, off + length (wire_name ls))"
proof (induction ls arbitrary: t off name)
  case Nil
  then have "off < length bytes" by (cases "off < length bytes") auto
  with Nil have "bytes ! off = 0" by (simp add: take_Cons_drop)
  then show ?case using \<open>off < length bytes\<close> by (subst parse_qname_loop.simps) simp
next
  case (Cons l ls)
  let ?n = "length l"
  from Cons.prems(2) have off: "off < length bytes" by (cases "off < length bytes") auto
  have tk: "take (?n + length (wire_name ls)) (drop (Suc off) bytes) = l @ wire_name ls"
    and b: "bytes ! off = word_of_nat ?n"
    using Cons.prems(2) off by (simp_all add: take_Cons_drop)
  have len: "length bytes \<ge> Suc off + ?n"
    using arg_cong [OF tk, of length] by (simp add: wire_name_def)
  have l: "take ?n (drop (Suc off) bytes) = l"
    and rest: "take (length (wire_name ls)) (drop (Suc off + ?n) bytes) = wire_name ls"
  proof -
    have "take ?n (drop (Suc off) bytes) @ take (length (wire_name ls)) (drop (Suc off + ?n) bytes)
        = l @ wire_name ls"
      using tk by (simp add: take_add add.commute)
    moreover have "length (take ?n (drop (Suc off) bytes)) = ?n" using len by simp
    ultimately have "take ?n (drop (Suc off) bytes) = l \<and>
        take (length (wire_name ls)) (drop (Suc off + ?n) bytes) = wire_name ls"
      by (metis append_eq_append_conv)
    then show "take ?n (drop (Suc off) bytes) = l"
      "take (length (wire_name ls)) (drop (Suc off + ?n) bytes) = wire_name ls"
      by simp_all
  qed
  have ok: "1 \<le> ?n" "?n \<le> 63" "t + (?n + 1) \<le> 255" "labels_ok (t + (?n + 1)) ls"
    using Cons.prems(1) by (auto simp: labels_ok_Cons)
  have un: "unat (word_of_nat ?n :: u8) = ?n" using ok(2) by (simp add: unat_of_nat)
  then have "unat (bytes ! off) = ?n" by (simp add: b)
  from qname_loop_step [OF off this ok(1,2) _ ok(3), of name] len l Cons.IH [OF ok(4), of "off + 1 + ?n"] rest
  show ?case by simp
qed

lemma qname_loop_sound:
  "parse_qname_loop bytes name t off = Inr (name', off') \<Longrightarrow>
   \<exists>ls. labels_ok t ls \<and> name' = foldl push_label name ls \<and> off' = off + length (wire_name ls)
     \<and> take (length (wire_name ls)) (drop off bytes) = wire_name ls \<and> off' \<le> length bytes"
proof (induction "length bytes - off" arbitrary: name t off rule: less_induct)
  case less
  let ?b = "bytes ! off"
  from less.prems have off: "off < length bytes" and m: "?b AND 0xC0 = 0"
    by (auto simp: parse_qname_loop.simps [of bytes name t off] Let_def split: if_splits)
  show ?case
  proof (cases "unat ?b = 0")
    case True
    then have "?b = 0" by (simp add: unat_eq_zero)
    with less.prems off have "name' = name" "off' = off + 1"
      by (simp_all add: parse_qname_loop.simps [of bytes name t off])
    with \<open>?b = 0\<close> off show ?thesis
      by (intro exI [of _ "[]"]) (simp add: take_Cons_drop)
  next
    case False
    let ?n = "unat ?b" let ?l = "take ?n (drop (off + 1) bytes)"
    from less.prems off m False have le: "?n \<le> 63" "off + 1 + ?n \<le> length bytes" "t + (?n + 1) \<le> 255"
      and rec: "parse_qname_loop bytes (push_label name ?l) (t + (?n + 1)) (off + 1 + ?n)
        = Inr (name', off')"
      by (auto simp: parse_qname_loop.simps [of bytes name t off] Let_def push_label_def
          split: if_splits)
    have len: "length ?l = ?n" using le by simp
    have "length bytes - (off + 1 + ?n) < length bytes - off" using off by simp
    from less.hyps [OF this rec]
    obtain ls where ls: "labels_ok (t + (?n + 1)) ls" "name' = foldl push_label (push_label name ?l) ls"
      "off' = off + 1 + ?n + length (wire_name ls)" "off' \<le> length bytes"
      "take (length (wire_name ls)) (drop (off + 1 + ?n) bytes) = wire_name ls"
      by blast
    have "take (length (wire_name (?l # ls))) (drop off bytes) = wire_name (?l # ls)"
    proof -
      have "length (wire_name (?l # ls)) = Suc (?n + length (wire_name ls))" using len by simp
      then show ?thesis
        using ls(5) off len by (simp only: take_Cons_drop take_add drop_drop) (simp add: add.commute)
    qed
    with ls le len False show ?thesis
      by (intro exI [of _ "?l # ls"]) (simp add: labels_ok_Cons)
  qed
qed

section \<open>The wire format of a question section\<close>

lemma from_be_to_be [simp]: "from_be (ucast (drop_bit 8 w)) (ucast w) = w"
  by (rule bit_word_eqI) (auto simp: from_be_def bit_simps)

lemma to_be_from_be [simp]: "to_be (from_be a b) = [a, b]"
proof -
  have no: "\<not> bit b (8 + n)" for n using bit_imp_le_length [of b "8 + n"] by auto
  show ?thesis
    by (auto simp: from_be_def to_be_def bit_simps no intro!: bit_word_eqI)
qed

lemma length_to_be [simp]: "length (to_be w) = 2"
  by (simp add: to_be_def)

type_synonym wire_question = "bytes list \<times> u16 \<times> u16"

definition wire_questions :: "wire_question list \<Rightarrow> bytes" where
  "wire_questions ws = concat (map (\<lambda>(ls, t, c). wire_name ls @ to_be t @ to_be c) ws)"

definition question_of :: "wire_question \<Rightarrow> dns_question" where
  "question_of w = (case w of (ls, t, c) \<Rightarrow>
     \<lparr> dq_name = dotted_name ls, dq_qtype = t, dq_qclass = c \<rparr>)"

lemma wire_questions_Nil [simp]: "wire_questions [] = []"
  by (simp add: wire_questions_def)

lemma wire_questions_Cons [simp]:
  "wire_questions ((ls, t, c) # ws) = wire_name ls @ to_be t @ to_be c @ wire_questions ws"
  by (simp add: wire_questions_def)

lemma take_drop_append:
  "take (length (xs @ ys)) (drop k bs) = xs @ ys \<longleftrightarrow>
     take (length xs) (drop k bs) = xs \<and> take (length ys) (drop (k + length xs) bs) = ys"
proof
  assume *: "take (length (xs @ ys)) (drop k bs) = xs @ ys"
  then have "length (xs @ ys) \<le> length (drop k bs)" by (metis length_take min.cobounded1 min_def)
  then have "length (take (length xs) (drop k bs)) = length xs" by simp
  moreover from * have "take (length xs) (drop k bs) @ take (length ys) (drop (k + length xs) bs) = xs @ ys"
    by (simp add: take_add add.commute)
  ultimately show "take (length xs) (drop k bs) = xs \<and> take (length ys) (drop (k + length xs) bs) = ys"
    by (metis append_eq_append_conv)
next
  assume "take (length xs) (drop k bs) = xs \<and> take (length ys) (drop (k + length xs) bs) = ys"
  then show "take (length (xs @ ys)) (drop k bs) = xs @ ys"
    by (simp add: take_add add.commute)
qed

lemma take_four: "k + 4 \<le> length bs \<Longrightarrow>
  take 4 (drop k bs) = [bs ! k, bs ! (k + 1), bs ! (k + 2), bs ! (k + 3)]"
  by (simp add: numeral_eq_Suc take_Cons_drop)

lemma parse_questions_sound:
  "parse_questions bytes n off acc = Inr (qs, off') \<Longrightarrow>
   \<exists>ws. length ws = n \<and> list_all (\<lambda>w. labels_ok 0 (fst w)) ws \<and> qs = acc @ map question_of ws
     \<and> off' = off + length (wire_questions ws)
     \<and> take (length (wire_questions ws)) (drop off bytes) = wire_questions ws"
proof (induction n arbitrary: off acc)
  case 0
  then show ?case by (auto intro: exI [of _ "[]"])
next
  case (Suc n)
  from Suc.prems obtain name k where nm: "parse_qname bytes off = Inr (name, k)"
    and k: "k + 4 \<le> length bytes"
    and rec: "parse_questions bytes n (k + 4) (acc @ [\<lparr> dq_name = name,
      dq_qtype = from_be (bytes ! k) (bytes ! (k + 1)),
      dq_qclass = from_be (bytes ! (k + 2)) (bytes ! (k + 3)) \<rparr>]) = Inr (qs, off')"
    by (auto simp: rbind_Inr_iff Let_def split: if_splits)
  let ?t = "from_be (bytes ! k) (bytes ! (k + 1))" and ?c = "from_be (bytes ! (k + 2)) (bytes ! (k + 3))"
  from nm obtain ls where ls: "labels_ok 0 ls" "name = dotted_name ls" "k = off + length (wire_name ls)"
    "take (length (wire_name ls)) (drop off bytes) = wire_name ls"
    unfolding parse_qname_def dotted_name_def using qname_loop_sound by blast
  from Suc.IH [OF rec] obtain ws where ws: "length ws = n" "list_all (\<lambda>w. labels_ok 0 (fst w)) ws"
    "qs = (acc @ [\<lparr> dq_name = name, dq_qtype = ?t, dq_qclass = ?c \<rparr>]) @ map question_of ws"
    "off' = k + 4 + length (wire_questions ws)"
    "take (length (wire_questions ws)) (drop (k + 4) bytes) = wire_questions ws"
    by blast
  have l: "length (to_be ?t @ to_be ?c) = 4" by simp
  have four: "take (length (to_be ?t @ to_be ?c)) (drop k bytes) = to_be ?t @ to_be ?c"
    unfolding l using take_four [OF k] by simp
  have "take (length (to_be ?t @ to_be ?c @ wire_questions ws)) (drop k bytes)
      = to_be ?t @ to_be ?c @ wire_questions ws"
    using take_drop_append [THEN iffD2, OF conjI, OF four] ws(5) unfolding l append_assoc by blast
  then have "take (length (wire_questions ((ls, ?t, ?c) # ws))) (drop off bytes)
      = wire_questions ((ls, ?t, ?c) # ws)"
    using ls(3,4) take_drop_append [of "wire_name ls" "to_be ?t @ to_be ?c @ wire_questions ws" off bytes]
    by (simp only: wire_questions_Cons)
  with ls ws show ?case
    by (intro exI [of _ "(ls, ?t, ?c) # ws"]) (simp add: question_of_def)
qed

lemma parse_questions_complete:
  "list_all (\<lambda>w. labels_ok 0 (fst w)) ws \<Longrightarrow>
   take (length (wire_questions ws)) (drop off bytes) = wire_questions ws \<Longrightarrow>
   parse_questions bytes (length ws) off acc =
     Inr (acc @ map question_of ws, off + length (wire_questions ws))"
proof (induction ws arbitrary: off acc)
  case Nil
  then show ?case by simp
next
  case (Cons w ws)
  obtain ls t c where w: "w = (ls, t, c)" by (cases w)
  let ?k = "off + length (wire_name ls)"
  have *: "take (length (wire_name ls)) (drop off bytes) = wire_name ls"
    "take (length (to_be t @ to_be c)) (drop ?k bytes) = to_be t @ to_be c"
    "take (length (wire_questions ws)) (drop (?k + 4) bytes) = wire_questions ws"
    using Cons.prems(2) take_drop_append [of "wire_name ls" "(to_be t @ to_be c) @ wire_questions ws" off bytes]
      take_drop_append [of "to_be t @ to_be c" "wire_questions ws" ?k bytes]
    by (simp_all add: w)
  have k: "?k + 4 \<le> length bytes"
    using arg_cong [OF *(2), of length] by simp
  have "[bytes ! ?k, bytes ! (?k + 1), bytes ! (?k + 2), bytes ! (?k + 3)] = to_be t @ to_be c"
    using *(2) take_four [OF k] by simp
  then have "from_be (bytes ! ?k) (bytes ! (?k + 1)) = t"
    "from_be (bytes ! (?k + 2)) (bytes ! (?k + 3)) = c"
    by (simp_all add: to_be_def)
  moreover have "parse_qname bytes off = Inr (dotted_name ls, ?k)"
    using Cons.prems(1) qname_loop_complete [OF _ *(1)] by (simp add: w parse_qname_def dotted_name_def)
  ultimately show ?case
    using k Cons.IH [OF _ *(3)] Cons.prems(1) by (simp add: w Let_def question_of_def add.assoc)
qed

section \<open>Queries, replies and decisions\<close>

lemma parse_dns_query_wire:
  assumes "parse_dns_query b = Inr q"
  shows "\<exists>ws. list_all (\<lambda>w. labels_ok 0 (fst w)) ws \<and> length ws = unat (dh_qdcount (parse_header b))
    \<and> ws \<noteq> [] \<and> 12 + length (wire_questions ws) \<le> length b
    \<and> take (length (wire_questions ws)) (drop 12 b) = wire_questions ws
    \<and> q = \<lparr> dns_hdr = parse_header b, dns_questions = map question_of ws,
            question_section_end = 12 + length (wire_questions ws) \<rparr>"
proof -
  from assms obtain qs off where *: "12 \<le> length b" "dh_qdcount (parse_header b) \<noteq> 0"
    "parse_questions b (unat (dh_qdcount (parse_header b))) 12 [] = Inr (qs, off)"
    "q = \<lparr> dns_hdr = parse_header b, dns_questions = qs, question_section_end = off \<rparr>"
    by (auto simp: parse_dns_query_def Let_def rbind_Inr_iff split: if_splits)
  from parse_questions_sound [OF *(3)] obtain ws where
    ws: "length ws = unat (dh_qdcount (parse_header b))" "list_all (\<lambda>w. labels_ok 0 (fst w)) ws"
    "qs = map question_of ws" "off = 12 + length (wire_questions ws)"
    "take (length (wire_questions ws)) (drop 12 b) = wire_questions ws"
    by auto
  have "length (wire_questions ws) \<le> length b - 12"
    using arg_cong [OF ws(5), of length] by simp
  moreover have "ws \<noteq> []" using ws(1) *(2) by (auto simp: unat_eq_zero)
  ultimately show ?thesis using * ws by (intro exI [of _ ws]) simp
qed

lemma parse_dns_query_complete:
  assumes "12 \<le> length b" "unat (dh_qdcount (parse_header b)) = length ws" "ws \<noteq> []"
    "list_all (\<lambda>w. labels_ok 0 (fst w)) ws"
    "take (length (wire_questions ws)) (drop 12 b) = wire_questions ws"
  shows "parse_dns_query b = Inr \<lparr> dns_hdr = parse_header b, dns_questions = map question_of ws,
    question_section_end = 12 + length (wire_questions ws) \<rparr>"
proof -
  have "dh_qdcount (parse_header b) \<noteq> 0" using assms(2,3) by auto
  then show ?thesis
    using assms parse_questions_complete [OF assms(4,5), of "[]"]
    by (simp add: parse_dns_query_def Let_def)
qed

definition refused_flags :: "u16 \<Rightarrow> u16" where
  "refused_flags f = ((f AND FLAGS_PRESERVE_FROM_QUERY) OR FLAG_QR) OR ucast RCODE_REFUSED"

lemma parse_header_to_be:
  "parse_header (to_be i @ to_be f @ to_be qd @ to_be an @ to_be ns @ to_be ar @ rest) =
     \<lparr> dh_id = i, dh_flags = f, dh_qdcount = qd, dh_ancount = an, dh_nscount = ns, dh_arcount = ar \<rparr>"
  by (simp add: parse_header_def to_be_def)

lemma refused_response_parses:
  assumes "parse_dns_query b = Inr q"
  shows "\<exists>r. build_refused_response b = Inr r \<and> length r \<le> length b
    \<and> parse_dns_query r = Inr \<lparr> dns_hdr = \<lparr> dh_id = dh_id (dns_hdr q),
          dh_flags = refused_flags (dh_flags (dns_hdr q)), dh_qdcount = dh_qdcount (dns_hdr q),
          dh_ancount = 0, dh_nscount = 0, dh_arcount = 0 \<rparr>,
        dns_questions = dns_questions q, question_section_end = length r \<rparr>"
proof -
  obtain ws where ws: "list_all (\<lambda>w. labels_ok 0 (fst w)) ws"
    "length ws = unat (dh_qdcount (parse_header b))" "ws \<noteq> []"
    "12 + length (wire_questions ws) \<le> length b"
    "take (length (wire_questions ws)) (drop 12 b) = wire_questions ws"
    "q = \<lparr> dns_hdr = parse_header b, dns_questions = map question_of ws,
            question_section_end = 12 + length (wire_questions ws) \<rparr>"
    using parse_dns_query_wire [OF assms] by blast
  let ?h = "dns_hdr q"
  let ?r = "to_be (dh_id ?h) @ to_be (refused_flags (dh_flags ?h)) @ to_be (dh_qdcount ?h) @ to_be 0
    @ to_be 0 @ to_be 0 @ wire_questions ws"
  have r: "build_refused_response b = Inr ?r"
    using assms ws(5) by (simp add: build_refused_response_def refused_flags_def ws(6) Let_def)
  have h: "parse_header ?r = \<lparr> dh_id = dh_id ?h, dh_flags = refused_flags (dh_flags ?h),
      dh_qdcount = dh_qdcount ?h, dh_ancount = 0, dh_nscount = 0, dh_arcount = 0 \<rparr>"
    by (rule parse_header_to_be)
  have d: "drop 12 ?r = wire_questions ws" by (simp add: to_be_def)
  have l: "length ?r = 12 + length (wire_questions ws)" by simp
  have "parse_dns_query ?r = Inr \<lparr> dns_hdr = parse_header ?r, dns_questions = map question_of ws,
      question_section_end = 12 + length (wire_questions ws) \<rparr>"
    by (rule parse_dns_query_complete) (use ws h d l in \<open>simp_all add: ws(6)\<close>)
  then show ?thesis using r h l ws(4) by (intro exI [of _ ?r]) (simp add: ws(6))
qed

lemma evaluate_questions_Allow:
  "evaluate_questions qs policy = DnsAllow \<longleftrightarrow> list_all (\<lambda>q. allows policy (dq_name q)) qs"
  by (induction qs) auto

lemma refused_flags_bits:
  "refused_flags f AND 0x8000 = 0x8000" "refused_flags f AND 0x000F = 5"
  "refused_flags f AND 0x7900 = f AND 0x7900"
  by (simp_all add: refused_flags_def FLAG_QR_def FLAGS_PRESERVE_FROM_QUERY_def RCODE_REFUSED_def
      bit.conj_disj_distrib2 and.assoc)

section \<open>Properties\<close>


text \<open>C1: the resolver gate. A datagram goes upstream only when it parses and every name in
  it is allowed, unchanged and without an event; a parsed datagram with a denied name is
  never forwarded, raises exactly one event, for a name the policy denies, and is answered.\<close>

theorem dns_gate:
  "case handle_dns_query resolve b policy of (out, sent, evs) \<Rightarrow>
     (case parse_dns_query b of
        Inl _ \<Rightarrow> out = NoReply \<and> sent = [] \<and> evs = []
      | Inr q \<Rightarrow>
          if list_all (\<lambda>x. allows policy (dq_name x)) (dns_questions q)
          then sent = [b] \<and> evs = [] \<and> out = (case resolve b of Some r \<Rightarrow> Reply r | None \<Rightarrow> NoReply)
          else sent = [] \<and> (\<exists>x \<in> set (dns_questions q). \<not> allows policy (dq_name x)
            \<and> evs = [\<lparr> den_destination = dq_name x, den_protocol = DnsProto,
                       den_reason = dns_event_reason (dq_qtype x) \<rparr>])
            \<and> (\<exists>r. build_refused_response b = Inr r \<and> out = Reply r))"
proof (cases "parse_dns_query b")
  case (Inl e)
  then show ?thesis by (simp add: handle_dns_query_def)
next
  case (Inr q)
  show ?thesis
  proof (cases "list_all (\<lambda>x. allows policy (dq_name x)) (dns_questions q)")
    case True
    then show ?thesis
      using Inr evaluate_questions_Allow [of "dns_questions q" policy]
      by (simp add: handle_dns_query_def evaluate_dns_query_def)
  next
    case False
    then obtain msg where "evaluate_questions (dns_questions q) policy = DnsDeny msg"
      using evaluate_questions_Allow by (metis dns_decision.exhaust)
    moreover obtain x where x: "find (\<lambda>x. \<not> allows policy (dq_name x)) (dns_questions q) = Some x"
      using False by (auto simp: list_all_iff find_None_iff
          intro: option.exhaust [of "find (\<lambda>x. \<not> allows policy (dq_name x)) (dns_questions q)"])
    moreover from x have "x \<in> set (dns_questions q)" "\<not> allows policy (dq_name x)"
      by (auto simp: find_Some_iff)
    ultimately show ?thesis
      using Inr False refused_response_parses [OF Inr]
      by (auto simp: handle_dns_query_def evaluate_dns_query_def)
  qed
qed

text \<open>A refusal answers the query. For every query that parses, the reply is built, is
  no longer than the query, and parses back to the same id and questions, with the QR bit,
  return code 5, the query's opcode and RD bits, and no records.\<close>

theorem dns_refusal_answers_the_query:
  assumes "parse_dns_query b = Inr q"
  shows "\<exists>r f. build_refused_response b = Inr r \<and> length r \<le> length b
    \<and> parse_dns_query r = Inr \<lparr> dns_hdr = \<lparr> dh_id = dh_id (dns_hdr q), dh_flags = f,
          dh_qdcount = dh_qdcount (dns_hdr q), dh_ancount = 0, dh_nscount = 0, dh_arcount = 0 \<rparr>,
        dns_questions = dns_questions q, question_section_end = length r \<rparr>
    \<and> f AND 0x8000 = 0x8000 \<and> f AND 0x000F = 5 \<and> f AND 0x7900 = dh_flags (dns_hdr q) AND 0x7900"
  using refused_response_parses [OF assms] refused_flags_bits [of "dh_flags (dns_hdr q)"] by blast

definition sample_query :: bytes where
  "sample_query =
     [0x12, 0x34, 1, 0, 0, 1, 0, 0, 0, 0, 0, 0, 1, 0x61, 3, 0x43, 0x6f, 0x6d, 0, 0, 1, 0, 1]"

lemma sample_query_parses:
  "parse_dns_query sample_query = Inr
     \<lparr> dns_hdr = \<lparr> dh_id = 0x1234, dh_flags = 0x0100, dh_qdcount = 1, dh_ancount = 0,
         dh_nscount = 0, dh_arcount = 0 \<rparr>,
       dns_questions = [\<lparr> dq_name = ''a.com'', dq_qtype = 1, dq_qclass = 1 \<rparr>],
       question_section_end = 23 \<rparr>"
  by code_simp

theorem dns_refusal_answers_the_query_witness:
  "\<exists>r f. build_refused_response sample_query = Inr r \<and> length r \<le> length sample_query
    \<and> parse_dns_query r = Inr \<lparr> dns_hdr = \<lparr> dh_id = 0x1234, dh_flags = f,
          dh_qdcount = 1, dh_ancount = 0, dh_nscount = 0, dh_arcount = 0 \<rparr>,
        dns_questions = [\<lparr> dq_name = ''a.com'', dq_qtype = 1, dq_qclass = 1 \<rparr>],
        question_section_end = length r \<rparr>
    \<and> f AND 0x8000 = 0x8000 \<and> f AND 0x000F = 5 \<and> f AND 0x7900 = 0x0100 AND 0x7900"
  using dns_refusal_answers_the_query [OF sample_query_parses] by simp

section \<open>Names that alias\<close>

text \<open>The decision is made on the dotted text after \<open>allows\<close> has trimmed it, while the
  datagram goes upstream as it came: a single label that holds the dot and a trailing blank
  passes as \<open>a.com\<close>, although its wire name is another one.\<close>

definition aliasing_query :: bytes where
  "aliasing_query =
     [0x12, 0x34, 1, 0, 0, 1, 0, 0, 0, 0, 0, 0, 6, 0x61, 0x2e, 0x43, 0x6f, 0x6d, 0x20, 0, 0, 1, 0, 1]"

lemma dns_label_with_dot_and_blank_is_forwarded:
  "fst (snd (handle_dns_query resolve aliasing_query (compose [''a.com''] []))) = [aliasing_query]
   \<and> wire_name [[0x61, 0x2e, 0x43, 0x6f, 0x6d, 0x20]] \<noteq> wire_name [[0x61], [0x63, 0x6f, 0x6d]]"
proof -
  have "(case parse_dns_query aliasing_query of Inl _ \<Rightarrow> False
      | Inr q \<Rightarrow> evaluate_dns_query q (compose [''a.com''] []) = DnsAllow)"
    by code_simp
  then show ?thesis
    by (auto simp: handle_dns_query_def split: sum.splits)
qed

end
