(* ===== verification/EgressProxy.thy ===== *)
theory EgressProxy
  imports Egress
begin

text \<open>
  \<open>bunsen-core/src/egress_proxy.rs\<close>: the L7 proxy. A client connection is the state of a
  tokio \<open>BufReader\<close>: the bytes it holds and the results of the reads still to come (a read of
  no bytes, or the end of the list, is the end of the stream). \<open>serve_connection\<close>
  returns the trace of what it did: writes to the client, the connection it opened, the
  client stream it splices, the events. Whether the connect and the write of the 200 response
  succeed are parameters.
\<close>

datatype io_read = Data bytes | IoErr

record reader =
  rd_buf :: bytes
  rd_reads :: "io_read list"

definition LF_BYTE :: u8 where "LF_BYTE = 10"

text \<open>\<open>AsyncBufReadExt::read_until\<close> for the line feed, and \<open>read_line\<close>, which also checks
  that the bytes are UTF-8.\<close>

fun read_until_lf :: "bytes \<Rightarrow> bytes \<Rightarrow> io_read list \<Rightarrow> bytes option \<times> reader" where
  "read_until_lf acc buf reads =
     (if LF_BYTE \<in> set buf
      then (Some (acc @ takeWhile (\<lambda>b. b \<noteq> LF_BYTE) buf @ [LF_BYTE]),
            \<lparr> rd_buf = tl (dropWhile (\<lambda>b. b \<noteq> LF_BYTE) buf), rd_reads = reads \<rparr>)
      else case reads of
          [] \<Rightarrow> (Some (acc @ buf), \<lparr> rd_buf = [], rd_reads = [] \<rparr>)
        | IoErr # rs \<Rightarrow> (None, \<lparr> rd_buf = [], rd_reads = rs \<rparr>)
        | Data c # rs \<Rightarrow>
            if c = [] then (Some (acc @ buf), \<lparr> rd_buf = [], rd_reads = rs \<rparr>)
            else read_until_lf (acc @ buf) c rs)"

declare read_until_lf.simps [simp del]

definition read_line :: "reader \<Rightarrow> string option \<times> reader" where
  "read_line r =
     (case read_until_lf [] (rd_buf r) (rd_reads r) of
        (None, r') \<Rightarrow> (None, r')
      | (Some bs, r') \<Rightarrow> (from_utf8 bs, r'))"

record connect_request =
  cr_host :: string
  cr_port :: u16

datatype proxy_parse_error = ParseIo | ParseEmpty | NotConnect string | MalformedTarget | BadPort

definition reader_size :: "reader \<Rightarrow> nat" where
  "reader_size r = length (rd_buf r)
     + sum_list (map (\<lambda>x. case x of Data c \<Rightarrow> length c | IoErr \<Rightarrow> 0) (rd_reads r)) + length (rd_reads r)"

lemma takeWhile_dropWhile_first:
  "x \<notin> set u \<Longrightarrow> takeWhile (\<lambda>b. b \<noteq> x) (u @ x # v) = u \<and> dropWhile (\<lambda>b. b \<noteq> x) (u @ x # v) = x # v"
  by (induction u) auto

lemma read_until_lf_found:
  "LF_BYTE \<notin> set u \<Longrightarrow> read_until_lf acc (u @ LF_BYTE # v) reads =
     (Some (acc @ u @ [LF_BYTE]), \<lparr> rd_buf = v, rd_reads = reads \<rparr>)"
  using takeWhile_dropWhile_first [of LF_BYTE u v] by (subst read_until_lf.simps) simp

lemma read_until_lf_size:
  "read_until_lf acc buf reads = (Some bs, r') \<Longrightarrow>
   reader_size r' + length bs \<le> length acc + reader_size \<lparr> rd_buf = buf, rd_reads = reads \<rparr>"
proof (induction acc buf reads rule: read_until_lf.induct)
  case (1 acc buf reads)
  show ?case
  proof (cases "LF_BYTE \<in> set buf")
    case True
    then obtain u v where "buf = u @ LF_BYTE # v" "LF_BYTE \<notin> set u" by (metis split_list_first)
    then show ?thesis
      using "1.prems" by (auto simp: read_until_lf_found reader_size_def)
  next
    case False
    with 1 show ?thesis
      by (auto simp: read_until_lf.simps [of acc buf reads] reader_size_def
          split: list.splits io_read.splits if_splits)
  qed
qed

lemma read_line_size:
  assumes "read_line r = (Some s, r')" "s \<noteq> []"
  shows "reader_size r' < reader_size r"
proof -
  from assms(1) obtain bs where bs: "read_until_lf [] (rd_buf r) (rd_reads r) = (Some bs, r')"
    "from_utf8 bs = Some s"
    by (auto simp: read_line_def split: prod.splits option.splits)
  with assms(2) have "bs \<noteq> []" by auto
  with read_until_lf_size [OF bs(1)] show ?thesis by (cases bs) (simp_all add: reader_size_def)
qed

text \<open>The header loop: \<^const>\<open>True\<close> when it ended without an I/O error.\<close>

function skip_headers :: "reader \<Rightarrow> bool \<times> reader" where
  "skip_headers r =
     (case read_line r of
        (None, r') \<Rightarrow> (False, r')
      | (Some header, r') \<Rightarrow>
          if header = [] then (True, r')
          else if header = [CR, LF] \<or> header = [LF] then (True, r')
          else skip_headers r')"
  by pat_completeness auto
termination
  by (relation "measure reader_size") (auto dest: read_line_size [OF sym])

declare skip_headers.simps [simp del]

definition nth_part :: "nat \<Rightarrow> string list \<Rightarrow> string" where
  "nth_part n ps = (if n < length ps then ps ! n else [])"

definition read_connect_request :: "reader \<Rightarrow> (proxy_parse_error + connect_request) \<times> reader" where
  "read_connect_request r =
     (case read_line r of
        (None, r1) \<Rightarrow> (Inl ParseIo, r1)
      | (Some line, r1) \<Rightarrow>
          if line = [] then (Inl ParseEmpty, r1)
          else let trimmed = trim_end_matches (\<lambda>c. c = CR \<or> c = LF) line;
                   parts = split_on (CHR '' '') trimmed;
                   method = nth_part 0 parts;
                   tgt = nth_part 1 parts
               in if \<not> eq_ignore_case method ''CONNECT'' then (Inl (NotConnect trimmed), r1)
                  else case rsplit_once (CHR '':'') tgt of
                      None \<Rightarrow> (Inl MalformedTarget, r1)
                    | Some (host, port_str) \<Rightarrow>
                        if host = [] then (Inl MalformedTarget, r1)
                        else case parse_uint 65536 port_str of
                            None \<Rightarrow> (Inl BadPort, r1)
                          | Some port \<Rightarrow>
                              (case skip_headers r1 of (ok, r2) \<Rightarrow>
                                if ok then (Inr \<lparr> cr_host = host, cr_port = word_of_nat port \<rparr>, r2)
                                else (Inl ParseIo, r2)))"

definition extract_abs_uri_host :: "string \<Rightarrow> (string \<times> u16) option" where
  "extract_abs_uri_host first_line =
     (let parts = split_on (CHR '' '') first_line in
      if length parts < 2 then None
      else let uri = parts ! 1 in
        case (case strip_prefix ''https://'' uri of
                Some s \<Rightarrow> Some (s, 443 :: u16)
              | None \<Rightarrow> map_option (\<lambda>s. (s, 80)) (strip_prefix ''http://'' uri)) of
          None \<Rightarrow> None
        | Some (rest, default_port) \<Rightarrow>
            let host_part = hd (split_on (CHR ''/'') rest);
                fallback = (if host_part \<noteq> [] then Some (host_part, default_port) else None)
            in case rsplit_once (CHR '':'') host_part of
                 Some (host, port_str) \<Rightarrow>
                   if host \<noteq> []
                   then Some (host, (case parse_uint 65536 port_str of
                          Some p \<Rightarrow> word_of_nat p | None \<Rightarrow> default_port))
                   else fallback
               | None \<Rightarrow> fallback)"

datatype decision = Allow | Deny string

definition evaluate :: "connect_request \<Rightarrow> egress_policy \<Rightarrow> decision" where
  "evaluate req policy =
     (if allows policy (cr_host req) then Allow else Deny ''not in allowlist'')"

abbreviation CRLF :: string where "CRLF \<equiv> [CR, LF]"

definition RESP_OK :: bytes where
  "RESP_OK = str_bytes (''HTTP/1.1 200 Connection Established'' @ CRLF @ CRLF)"
definition RESP_FORBIDDEN :: bytes where
  "RESP_FORBIDDEN = str_bytes (''HTTP/1.1 403 Forbidden'' @ CRLF @ ''Content-Length: 0'' @ CRLF
     @ ''Connection: close'' @ CRLF @ CRLF)"
definition RESP_BAD_REQUEST :: bytes where
  "RESP_BAD_REQUEST = str_bytes (''HTTP/1.1 400 Bad Request'' @ CRLF @ ''Content-Length: 0'' @ CRLF
     @ ''Connection: close'' @ CRLF @ CRLF)"
definition RESP_BAD_GATEWAY :: bytes where
  "RESP_BAD_GATEWAY = str_bytes (''HTTP/1.1 502 Bad Gateway'' @ CRLF @ ''Content-Length: 0'' @ CRLF
     @ ''Connection: close'' @ CRLF @ CRLF)"

datatype proxy_act =
    ClientWrite bytes
  | ClientShutdown
  | UpstreamConnect string u16
  | Splice "io_read list"
  | Denied denial_event

definition port_protocol :: "u16 \<Rightarrow> protocol" where
  "port_protocol port = (if port = 443 then Https else if port = 80 then Http else RawTcp)"

definition bad_request :: "proxy_act list" where
  "bad_request = [ClientWrite RESP_BAD_REQUEST, ClientShutdown]"

definition serve_connection ::
  "(string \<Rightarrow> u16 \<Rightarrow> bool) \<Rightarrow> bool \<Rightarrow> egress_policy \<Rightarrow> reader \<Rightarrow> proxy_act list" where
  "serve_connection connect_ok write_ok policy client =
     (case read_connect_request client of
        (Inl (NotConnect first_line), _) \<Rightarrow>
          (case extract_abs_uri_host first_line of
             Some (host, port) \<Rightarrow>
               (case evaluate \<lparr> cr_host = host, cr_port = port \<rparr> policy of
                  Deny reason \<Rightarrow>
                    [ClientWrite RESP_FORBIDDEN, ClientShutdown,
                     Denied \<lparr> den_destination = host, den_protocol = port_protocol port,
                              den_reason = reason \<rparr>]
                | Allow \<Rightarrow> bad_request)
           | None \<Rightarrow> bad_request)
      | (Inl _, _) \<Rightarrow> bad_request
      | (Inr req, client') \<Rightarrow>
          (case evaluate req policy of
             Allow \<Rightarrow>
               if \<not> connect_ok (cr_host req) (cr_port req)
               then [UpstreamConnect (cr_host req) (cr_port req), ClientWrite RESP_BAD_GATEWAY, ClientShutdown]
               else if \<not> write_ok
               then [UpstreamConnect (cr_host req) (cr_port req), ClientWrite RESP_OK]
               else [UpstreamConnect (cr_host req) (cr_port req), ClientWrite RESP_OK, Splice (rd_reads client')]
           | Deny reason \<Rightarrow>
               [ClientWrite RESP_FORBIDDEN, ClientShutdown,
                Denied \<lparr> den_destination = cr_host req, den_protocol = port_protocol (cr_port req),
                         den_reason = reason \<rparr>]))"

text \<open>\<open>emit_denial\<close>: the event the supervisor emits for a denial.\<close>

definition emit_denial :: "denial_event \<Rightarrow> event" where
  "emit_denial d = (EVENT_TYPE, denied_payload (den_destination d) (den_protocol d) (den_reason d))"

section \<open>The stream behind the reads\<close>

fun data_of :: "io_read \<Rightarrow> bytes" where
  "data_of (Data c) = c"
| "data_of IoErr = []"

definition stream :: "reader \<Rightarrow> bytes" where
  "stream r = rd_buf r @ concat (map data_of (rd_reads r))"

text \<open>No error and no end of the stream among the listed reads.\<close>

definition all_data :: "io_read list \<Rightarrow> bool" where
  "all_data rs \<longleftrightarrow> list_all (\<lambda>x. \<exists>c \<in> set [data_of x]. x = Data c \<and> c \<noteq> []) rs"

lemma all_data_simps [simp]:
  "all_data []" "all_data (Data c # rs) \<longleftrightarrow> c \<noteq> [] \<and> all_data rs" "\<not> all_data (IoErr # rs)"
  by (simp_all add: all_data_def)

lemma read_until_lf_stream:
  "all_data rs \<Longrightarrow> buf @ concat (map data_of rs) = line @ LF_BYTE # rest \<Longrightarrow> LF_BYTE \<notin> set line \<Longrightarrow>
   \<exists>r. read_until_lf acc buf rs = (Some (acc @ line @ [LF_BYTE]), r) \<and> stream r = rest
     \<and> all_data (rd_reads r)"
proof (induction rs arbitrary: acc buf line)
  case Nil
  then show ?case by (simp add: read_until_lf_found stream_def)
next
  case (Cons x rs)
  then obtain c where x: "x = Data c" "c \<noteq> []" by (cases x) auto
  show ?case
  proof (cases "LF_BYTE \<in> set buf")
    case True
    then obtain u v where uv: "buf = u @ LF_BYTE # v" "LF_BYTE \<notin> set u" by (metis split_list_first)
    with Cons.prems(2,3) have "u = line" "v @ concat (map data_of (x # rs)) = rest"
      by (auto simp: append_eq_append_conv2 append_eq_Cons_conv Cons_eq_append_conv)
    with uv Cons.prems(1) show ?thesis by (simp add: read_until_lf_found stream_def)
  next
    case False
    obtain line' where l: "line = buf @ line'" "c @ concat (map data_of rs) = line' @ LF_BYTE # rest"
    proof -
      have "buf @ (c @ concat (map data_of rs)) = line @ LF_BYTE # rest" using Cons.prems(2) x by simp
      then show thesis using False that x(2) by (auto simp: append_eq_append_conv2 append_eq_Cons_conv)
    qed
    have "read_until_lf acc buf (x # rs) = read_until_lf (acc @ buf) c rs"
      using False x by (subst read_until_lf.simps) simp
    then show ?thesis
      using Cons.IH [of c line' "acc @ buf"] Cons.prems l x by auto
  qed
qed

lemma LF_in_char_bytes: "LF_BYTE \<in> set (char_bytes c) \<Longrightarrow> c = LF"
proof -
  assume mem: "LF_BYTE \<in> set (char_bytes c)"
  have lf: "unat LF_BYTE = 10" by (simp add: LF_BYTE_def)
  have k: "code c div 64 < 4" "code c mod 64 < 64" "code c < 256"
    using code_lt_256 [of c] by (linarith, simp_all)
  have "LF_BYTE \<noteq> word_of_nat m" if "128 \<le> m" "m < 256" for m
  proof
    assume "LF_BYTE = word_of_nat m"
    then have "unat LF_BYTE = unat (word_of_nat m :: u8)" by (rule arg_cong)
    with lf that unat_byte [OF that(2)] show False by linarith
  qed
  from this [of "192 + code c div 64"] this [of "128 + code c mod 64"] mem k
  have "LF_BYTE = word_of_nat (code c)"
    by (auto simp: char_bytes_def split: if_splits)
  then have "code c = 10" using k(3) lf unat_byte [of "code c"] by simp
  then have "code c = code LF" by simp
  then show "c = LF" by (simp only: of_char_eq_iff)
qed

lemma LF_not_in_str_bytes: "LF \<notin> set s \<Longrightarrow> LF_BYTE \<notin> set (str_bytes s)"
  by (induction s) (auto simp: str_bytes_Cons dest: LF_in_char_bytes)

lemma str_bytes_LF: "str_bytes [LF] = [LF_BYTE]"
  by (simp add: str_bytes_def char_bytes_def LF_BYTE_def)

lemma read_line_stream:
  assumes "all_data (rd_reads r)" "stream r = str_bytes (l @ [LF]) @ rest" "LF \<notin> set l"
  shows "\<exists>r'. read_line r = (Some (l @ [LF]), r') \<and> stream r' = rest \<and> all_data (rd_reads r')"
proof -
  have "rd_buf r @ concat (map data_of (rd_reads r)) = str_bytes l @ LF_BYTE # rest"
    using assms(2) by (simp add: stream_def str_bytes_LF)
  from read_until_lf_stream [OF assms(1) this LF_not_in_str_bytes [OF assms(3)], of "[]"]
  obtain r' where "read_until_lf [] (rd_buf r) (rd_reads r) = (Some (str_bytes (l @ [LF])), r')"
    "stream r' = rest" "all_data (rd_reads r')"
    by (auto simp: str_bytes_LF)
  then show ?thesis by (simp add: read_line_def del: str_bytes_append)
qed

definition header_bytes :: "string list \<Rightarrow> bytes" where
  "header_bytes hs = concat (map (\<lambda>h. str_bytes (h @ [CR, LF])) hs) @ str_bytes [CR, LF]"

lemma skip_headers_stream:
  "all_data (rd_reads r) \<Longrightarrow> stream r = header_bytes hs @ rest \<Longrightarrow>
   \<forall>h \<in> set hs. h \<noteq> [] \<and> LF \<notin> set h \<Longrightarrow>
   \<exists>r'. skip_headers r = (True, r') \<and> stream r' = rest \<and> all_data (rd_reads r')"
proof (induction hs arbitrary: r)
  case Nil
  then have "stream r = str_bytes ([CR] @ [LF]) @ rest" by (simp add: header_bytes_def)
  from read_line_stream [OF Nil(1) this] show ?case by (subst skip_headers.simps) auto
next
  case (Cons h hs)
  then have "stream r = str_bytes ((h @ [CR]) @ [LF]) @ header_bytes hs @ rest"
    by (simp add: header_bytes_def str_bytes_Cons)
  from read_line_stream [OF Cons.prems(1) this] Cons.prems(3)
  obtain r1 where r1: "read_line r = (Some ((h @ [CR]) @ [LF]), r1)"
    "stream r1 = header_bytes hs @ rest" "all_data (rd_reads r1)" by auto
  have "(h @ [CR]) @ [LF] \<noteq> [CR, LF]" "(h @ [CR]) @ [LF] \<noteq> [LF]" using Cons.prems(3) by auto
  then have "skip_headers r = skip_headers r1"
    using r1(1) by (subst skip_headers.simps) simp
  then show ?case using Cons.IH [OF r1(3,2)] Cons.prems(3) by auto
qed

section \<open>Properties\<close>

lemma trim_crlf:
  "x \<noteq> CR \<Longrightarrow> x \<noteq> LF \<Longrightarrow> trim_end_matches (\<lambda>c. c = CR \<or> c = LF) (xs @ [x] @ [CR] @ [LF]) = xs @ [x]"
  by (simp add: trim_end_matches_def)

lemma connect_line_parts:
  assumes "CHR '' '' \<notin> set host"
  shows "split_on (CHR '' '') (''CONNECT '' @ host @ '':'' @ show_nat p @ '' HTTP/1.1'') =
    [''CONNECT'', host @ '':'' @ show_nat p, ''HTTP/1.1'']"
proof -
  have no: "\<forall>c \<in> set (host @ '':'' @ show_nat p). c \<noteq> CHR '' ''"
    using assms show_nat_no [of "CHR '' ''" p] by (auto simp: is_digit_def)
  have "split_by (\<lambda>x. x = CHR '' '') (''CONNECT'' @ CHR '' '' # (host @ '':'' @ show_nat p) @ CHR '' '' # ''HTTP/1.1'')
    = [''CONNECT'', host @ '':'' @ show_nat p, ''HTTP/1.1'']"
    by (subst split_by_append_sep, simp, simp, subst split_by_append_sep [OF no]) (simp_all)
  then show ?thesis by (simp add: split_on_def)
qed

text \<open>C23: a well-formed CONNECT is read whatever way its bytes arrive. For every chunking of
  the reads, the request line gives back its host and port, the headers are consumed up to
  the blank line, and what the reader still holds and will read is exactly the payload.\<close>

theorem connect_request_any_chunking:
  assumes "all_data (rd_reads r)"
    and "stream r = str_bytes (''CONNECT '' @ host @ '':'' @ show_nat p @ '' HTTP/1.1'' @ CRLF)
      @ header_bytes hs @ payload"
    and "host \<noteq> []" and "CHR '' '' \<notin> set host" and "LF \<notin> set host" and "p < 65536"
    and "\<forall>h \<in> set hs. h \<noteq> [] \<and> LF \<notin> set h"
  shows "\<exists>r'. read_connect_request r = (Inr \<lparr> cr_host = host, cr_port = word_of_nat p \<rparr>, r')
    \<and> stream r' = payload"
proof -
  let ?x = "''CONNECT '' @ host @ '':'' @ show_nat p @ '' HTTP/1.1''"
  have "LF \<notin> set (?x @ [CR])"
    using assms(5) show_nat_no [of LF p] by (auto simp: is_digit_def)
  moreover have "stream r = str_bytes ((?x @ [CR]) @ [LF]) @ header_bytes hs @ payload"
    using assms(2) by simp
  ultimately obtain r1 where r1: "read_line r = (Some ((?x @ [CR]) @ [LF]), r1)"
    "stream r1 = header_bytes hs @ payload" "all_data (rd_reads r1)"
    using read_line_stream [OF assms(1)] by blast
  obtain r2 where r2: "skip_headers r1 = (True, r2)" "stream r2 = payload"
    using skip_headers_stream [OF r1(3,2) assms(7)] by blast
  have "(?x @ [CR]) @ [LF] = (''CONNECT '' @ host @ '':'' @ show_nat p @ '' HTTP/1.'') @ [CHR ''1''] @ [CR] @ [LF]"
    by simp
  then have t: "trim_end_matches (\<lambda>c. c = CR \<or> c = LF) ((?x @ [CR]) @ [LF]) = ?x"
    by (simp only:) (subst trim_crlf, simp_all)
  have rs: "rsplit_once (CHR '':'') (host @ '':'' @ show_nat p) = Some (host, show_nat p)"
    using show_nat_no [of "CHR '':''" p] by (simp add: rsplit_once_Some is_digit_def)
  have "(?x @ [CR]) @ [LF] \<noteq> []" by simp
  with r1(1) r2(1) show ?thesis
    unfolding read_connect_request_def prod.case option.case t connect_line_parts [OF assms(4)]
    using rs r2(2) assms(3,6)
    by (simp add: Let_def t connect_line_parts [OF assms(4)] nth_part_def eq_ignore_case_def
        del: append_assoc append.simps)
qed

definition sample_connect :: reader where
  "sample_connect = \<lparr> rd_buf = [],
     rd_reads = [Data (str_bytes ''CONN''), Data (str_bytes (''ECT a.com:443 HTTP/1.1'' @ [CR])),
       Data (str_bytes ([LF] @ ''Host: a.com'' @ CRLF @ CRLF) @ [22, 3, 1])] \<rparr>"

theorem connect_request_any_chunking_witness:
  "\<exists>r'. read_connect_request sample_connect = (Inr \<lparr> cr_host = ''a.com'', cr_port = word_of_nat 443 \<rparr>, r')
    \<and> stream r' = [22, 3, 1]"
proof (rule connect_request_any_chunking)
  show "all_data (rd_reads sample_connect)"
    by (simp add: sample_connect_def str_bytes_def char_bytes_def)
  show "stream sample_connect = str_bytes (''CONNECT '' @ ''a.com'' @ '':'' @ show_nat 443 @ '' HTTP/1.1'' @ CRLF)
      @ header_bytes [''Host: a.com''] @ [22, 3, 1]"
    by code_simp
qed simp_all

text \<open>C2: the proxy gate. An upstream connection is opened only to the host and port of a
  CONNECT whose host the policy allows; an event is raised only for a host the policy denies,
  at most one per connection, and then nothing is opened; bytes are spliced only after the
  200 response; and every connection gets exactly one response.\<close>

theorem proxy_gate:
  "let t = serve_connection connect_ok write_ok policy r in
     (\<forall>h p. UpstreamConnect h p \<in> set t \<longrightarrow>
        allows policy h \<and> fst (read_connect_request r) = Inr \<lparr> cr_host = h, cr_port = p \<rparr>
        \<and> (\<forall>d. Denied d \<notin> set t))
   \<and> (\<forall>d. Denied d \<in> set t \<longrightarrow> \<not> allows policy (den_destination d)
        \<and> t = [ClientWrite RESP_FORBIDDEN, ClientShutdown, Denied d])
   \<and> (\<forall>s. Splice s \<in> set t \<longrightarrow> (\<exists>h p. t = [UpstreamConnect h p, ClientWrite RESP_OK, Splice s]
        \<and> connect_ok h p))
   \<and> length (filter (\<lambda>a. \<exists>b \<in> {RESP_OK, RESP_FORBIDDEN, RESP_BAD_REQUEST, RESP_BAD_GATEWAY}.
        a = ClientWrite b) t) = 1"
  by (cases "read_connect_request r")
    (auto simp: serve_connection_def evaluate_def bad_request_def Let_def
      split: sum.splits proxy_parse_error.splits option.splits)

text \<open>Bytes the client sent right behind its headers are already in the reader's buffer when
  the proxy unwraps the socket to splice, and unwrapping drops them: here the three bytes
  \<open>22, 3, 1\<close> are the payload of the stream, and nothing of it reaches the upstream.\<close>

lemma pipelined_payload_is_dropped:
  "serve_connection (\<lambda>_ _. True) True (compose [''a.com''] []) sample_connect =
     [UpstreamConnect ''a.com'' 443, ClientWrite RESP_OK, Splice []]"
  by code_simp

theorem proxy_gate_witness:
  "let t = serve_connection (\<lambda>_ _. True) True (compose [''a.com''] []) sample_connect in
     UpstreamConnect ''a.com'' 443 \<in> set t \<and> Splice [] \<in> set t
   \<and> allows (compose [''a.com''] []) ''a.com''
   \<and> fst (read_connect_request sample_connect) = Inr \<lparr> cr_host = ''a.com'', cr_port = 443 \<rparr>"
  using proxy_gate [of "\<lambda>_ _. True" True "compose [''a.com''] []" sample_connect]
  unfolding pipelined_payload_is_dropped Let_def by simp

end
