(* ===== verification/Redactor.thy ===== *)
theory Redactor
  imports Prelude "HOL-Library.Multiset"
begin

text \<open>
  \<open>bunsen-core/src/redactor.rs\<close>. The search is the aho-corasick crate's \<open>find_iter\<close> with
  leftmost-longest semantics, a parameter here: \<open>iter_ok\<close> states its documented contract
  (the locale \<open>matcher\<close>), and \<open>find_ref\<close>, a plain leftmost-longest search, satisfies it.
  The lemmas relate the redactor to \<open>redact_ref\<close>, which rewrites a text in one pass.
\<close>

text \<open>A match: the index of the pattern, its start and its end.\<close>

type_synonym ac_match = "nat \<times> nat \<times> nat"
type_synonym finder = "bytes list \<Rightarrow> bytes \<Rightarrow> ac_match list"

record redactor =
  rx_patterns :: "bytes list"
  rx_replacements :: "bytes list"
  rx_pending :: bytes
  rx_max_len :: nat

definition replacement :: "string \<Rightarrow> bytes" where
  "replacement name = str_bytes (''<redacted:'' @ name @ ''>'')"

text \<open>\<open>Redactor::new\<close> on the entries of the map in its iteration order.\<close>

definition redactor_new :: "(string \<times> string) list \<Rightarrow> string + redactor" where
  "redactor_new secrets =
     (case find (\<lambda>(name, v). v = []) secrets of
        Some (name, _) \<Rightarrow> Inl (''secret '' @ [CHR 0x27] @ name @ [CHR 0x27] @ '' has empty value'')
      | None \<Rightarrow>
          (let entries = sort_key fst secrets;
               patterns = map (\<lambda>(_, v). str_bytes v) entries
           in Inr \<lparr> rx_patterns = patterns,
                    rx_replacements = map (\<lambda>(name, _). replacement name) entries,
                    rx_pending = [],
                    rx_max_len = foldl max 0 (map length patterns) \<rparr>))"

definition slice :: "'a list \<Rightarrow> nat \<Rightarrow> nat \<Rightarrow> 'a list" where
  "slice xs s e = take (e - s) (drop s xs)"

definition copy_match :: "redactor \<Rightarrow> bytes \<Rightarrow> bytes \<times> nat \<Rightarrow> ac_match \<Rightarrow> bytes \<times> nat" where
  "copy_match r combined st mat =
     (case (st, mat) of ((out, pos), (pat, s, e)) \<Rightarrow>
        (out @ slice combined pos s @ rx_replacements r ! pat, e))"

definition redact :: "finder \<Rightarrow> redactor \<Rightarrow> bytes \<Rightarrow> bytes \<times> redactor" where
  "redact find_iter r input =
     (if rx_max_len r = 0 then (input, r)
      else let combined = rx_pending r @ input;
               (out, pos) = foldl (copy_match r combined) ([], 0) (find_iter (rx_patterns r) combined);
               tail = drop pos combined;
               safe_len = length tail - (rx_max_len r - 1)
           in (out @ take safe_len tail, r \<lparr> rx_pending := drop safe_len tail \<rparr>))"

definition redactor_flush :: "redactor \<Rightarrow> bytes \<times> redactor" where
  "redactor_flush r = (rx_pending r, r \<lparr> rx_pending := [] \<rparr>)"

section \<open>The contract of the search\<close>

definition occurs :: "'a list \<Rightarrow> 'a list \<Rightarrow> nat \<Rightarrow> bool" where
  "occurs p hay j \<longleftrightarrow> prefix p (drop j hay)"

fun iter_ok :: "bytes list \<Rightarrow> bytes \<Rightarrow> nat \<Rightarrow> ac_match list \<Rightarrow> bool" where
  "iter_ok pats hay pos [] \<longleftrightarrow> (\<forall>j \<ge> pos. \<forall>p \<in> set pats. \<not> occurs p hay j)"
| "iter_ok pats hay pos ((i, s, e) # ms) \<longleftrightarrow>
     pos \<le> s \<and> i < length pats \<and> e = s + length (pats ! i) \<and> occurs (pats ! i) hay s
     \<and> (\<forall>j. pos \<le> j \<and> j < s \<longrightarrow> (\<forall>p \<in> set pats. \<not> occurs p hay j))
     \<and> (\<forall>p \<in> set pats. occurs p hay s \<longrightarrow> length p \<le> length (pats ! i))
     \<and> iter_ok pats hay e ms"

locale matcher =
  fixes find_iter :: finder
  assumes find_iter_ok: "[] \<notin> set pats \<Longrightarrow> iter_ok pats hay 0 (find_iter pats hay)"

text \<open>A plain search: the index of the longest pattern that is a prefix, the first one among
  equal patterns.\<close>

fun longest_at :: "bytes list \<Rightarrow> bytes \<Rightarrow> nat option" where
  "longest_at [] hay = None"
| "longest_at (p # ps) hay =
     (case longest_at ps hay of
        None \<Rightarrow> if prefix p hay then Some 0 else None
      | Some i \<Rightarrow> if prefix p hay \<and> length (ps ! i) \<le> length p then Some 0 else Some (Suc i))"

function find_from :: "bytes list \<Rightarrow> nat \<Rightarrow> bytes \<Rightarrow> ac_match list" where
  "find_from pats pos hay =
     (if hay = [] then []
      else case longest_at pats hay of
          Some i \<Rightarrow>
            if pats ! i = [] then []
            else (i, pos, pos + length (pats ! i))
              # find_from pats (pos + length (pats ! i)) (drop (length (pats ! i)) hay)
        | None \<Rightarrow> find_from pats (Suc pos) (tl hay))"
  by pat_completeness auto
termination by (relation "measure (\<lambda>(_, _, hay). length hay)") auto

declare find_from.simps [simp del]

definition find_ref :: finder where
  "find_ref pats hay = find_from pats 0 hay"

lemma longest_at_None: "longest_at ps hay = None \<longleftrightarrow> (\<forall>p \<in> set ps. \<not> prefix p hay)"
  by (induction ps) (auto split: option.splits)

lemma longest_at_Some:
  "longest_at ps hay = Some i \<Longrightarrow>
   i < length ps \<and> prefix (ps ! i) hay \<and> (\<forall>p \<in> set ps. prefix p hay \<longrightarrow> length p \<le> length (ps ! i))"
proof (induction ps arbitrary: i)
  case (Cons p ps)
  then show ?case
    by (auto simp: longest_at_None split: option.splits if_splits)
qed simp

lemma find_from_ok:
  "[] \<notin> set pats \<Longrightarrow> drop pos whole = hay \<Longrightarrow> iter_ok pats whole pos (find_from pats pos hay)"
proof (induction pats pos hay rule: find_from.induct)
  case (1 pats pos hay)
  show ?case
  proof (cases "hay = []")
    case True
    with 1 have "\<not> occurs p whole j" if "pos \<le> j" "p \<in> set pats" for p j
      using that by (auto simp: occurs_def prefix_def drop_eq_Nil)
    moreover have "find_from pats pos hay = []" using True by (subst find_from.simps) simp
    ultimately show ?thesis by simp
  next
    case ne: False
    show ?thesis
    proof (cases "longest_at pats hay")
      case None
      have "drop (Suc pos) whole = tl hay" using "1.prems"(2) by (metis drop_Suc tl_drop)
      then have rest: "iter_ok pats whole (Suc pos) (find_from pats (Suc pos) (tl hay))"
        by (rule "1.IH"(1) [OF ne None "1.prems"(1)])
      have pos_cases: "pos \<le> j \<longleftrightarrow> j = pos \<or> Suc pos \<le> j" for j by auto
      have none: "\<forall>p \<in> set pats. \<not> occurs p whole pos"
        using None "1.prems"(2) by (simp add: occurs_def longest_at_None)
      have "iter_ok pats whole pos ms" if "iter_ok pats whole (Suc pos) ms" for ms
        using that none by (cases ms) (auto simp: pos_cases)
      with rest ne None show ?thesis by (simp add: find_from.simps [of pats pos hay])
    next
      case (Some i)
      note i = longest_at_Some [OF Some]
      then have "pats ! i \<noteq> []" using "1.prems"(1) by (metis nth_mem)
      moreover have "drop (pos + length (pats ! i)) whole = drop (length (pats ! i)) hay"
        using "1.prems"(2) by (metis add.commute drop_drop)
      ultimately have "iter_ok pats whole (pos + length (pats ! i))
          (find_from pats (pos + length (pats ! i)) (drop (length (pats ! i)) hay))"
        using "1.IH"(2) [OF ne Some] "1.prems"(1) by simp
      with i \<open>pats ! i \<noteq> []\<close> ne Some "1.prems"(2) show ?thesis
        by (auto simp: find_from.simps [of pats pos hay] occurs_def)
    qed
  qed
qed

interpretation ac: matcher find_ref
  by unfold_locales (simp add: find_ref_def find_from_ok)

section \<open>One pass over a text\<close>

text \<open>The reference: at each position the longest secret that starts there is replaced, other
  bytes are copied.\<close>

function redact_ref :: "bytes list \<Rightarrow> bytes list \<Rightarrow> bytes \<Rightarrow> bytes" where
  "redact_ref pats reps hay =
     (if hay = [] then []
      else case longest_at pats hay of
          Some i \<Rightarrow>
            if pats ! i = [] then hay
            else reps ! i @ redact_ref pats reps (drop (length (pats ! i)) hay)
        | None \<Rightarrow> hd hay # redact_ref pats reps (tl hay))"
  by pat_completeness auto
termination by (relation "measure (\<lambda>(_, _, hay). length hay)") auto

declare redact_ref.simps [simp del]

lemma redact_ref_Nil [simp]: "redact_ref pats reps [] = []"
  by (subst redact_ref.simps) simp

lemma redact_ref_match:
  assumes "distinct pats" "i < length pats" "pats ! i \<noteq> []" "prefix (pats ! i) hay"
    "\<forall>p \<in> set pats. prefix p hay \<longrightarrow> length p \<le> length (pats ! i)"
  shows "redact_ref pats reps hay = reps ! i @ redact_ref pats reps (drop (length (pats ! i)) hay)"
proof -
  obtain k where k: "longest_at pats hay = Some k"
    using assms(2,4) longest_at_None [of pats hay] by (metis not_None_eq nth_mem)
  from longest_at_Some [OF k] have kk: "k < length pats" "prefix (pats ! k) hay"
    "\<forall>p \<in> set pats. prefix p hay \<longrightarrow> length p \<le> length (pats ! k)" by simp_all
  have "length (pats ! k) = length (pats ! i)"
    using kk assms by (meson le_antisym nth_mem)
  then have "pats ! k = pats ! i" using kk(2) assms(4) by (metis append_eq_conv_conj prefix_def)
  then have "k = i" using assms(1,2) kk(1) by (simp add: nth_eq_iff_index_eq)
  then show ?thesis
    using k assms(3,4) by (subst redact_ref.simps) auto
qed

lemma redact_ref_skip:
  "hay \<noteq> [] \<Longrightarrow> \<forall>p \<in> set pats. \<not> prefix p hay \<Longrightarrow>
   redact_ref pats reps hay = hd hay # redact_ref pats reps (tl hay)"
  using longest_at_None [of pats hay] by (subst redact_ref.simps) simp

lemma redact_ref_gap:
  "s \<le> length hay - pos \<Longrightarrow> pos \<le> length hay \<Longrightarrow>
   \<forall>j. pos \<le> j \<and> j < pos + s \<longrightarrow> (\<forall>p \<in> set pats. \<not> occurs p hay j) \<Longrightarrow>
   redact_ref pats reps (drop pos hay) = take s (drop pos hay) @ redact_ref pats reps (drop (pos + s) hay)"
proof (induction s arbitrary: pos)
  case (Suc s)
  then have pos: "pos < length hay" by simp
  then have "drop pos hay = hay ! pos # drop (Suc pos) hay" by (simp add: Cons_nth_drop_Suc)
  moreover have "\<forall>p \<in> set pats. \<not> prefix p (drop pos hay)"
    using Suc.prems(3) by (auto simp: occurs_def)
  ultimately have "redact_ref pats reps (drop pos hay) = hay ! pos # redact_ref pats reps (drop (Suc pos) hay)"
    using redact_ref_skip [of "drop pos hay" pats reps] by simp
  moreover have "redact_ref pats reps (drop (Suc pos) hay) =
      take s (drop (Suc pos) hay) @ redact_ref pats reps (drop (Suc pos + s) hay)"
    using Suc.prems pos by (intro Suc.IH) auto
  ultimately show ?case using \<open>drop pos hay = _\<close> by simp
qed simp

text \<open>Copying the gaps and the replacements of a contract-conforming search is the reference
  on the part before the tail, and leaves a tail without a secret. This holds with later
  text behind the searched one, when no secret starting before a match runs into it.\<close>

definition stable :: "bytes list \<Rightarrow> bytes \<Rightarrow> bytes \<Rightarrow> bool" where
  "stable pats hay later \<longleftrightarrow> (\<forall>j s. \<forall>p \<in> set pats. \<forall>q \<in> set pats.
     j \<le> s \<and> occurs p hay s \<and> prefix q (drop j hay @ later) \<longrightarrow> prefix q (drop j hay))"

lemma stable_Nil: "stable pats hay []"
  by (simp add: stable_def)

lemma stable_antichain:
  assumes "\<forall>p \<in> set pats. \<forall>q \<in> set pats. sublist p q \<longrightarrow> p = q"
  shows "stable pats hay later"
  unfolding stable_def
proof (intro allI ballI impI)
  fix j s p q
  assume p: "p \<in> set pats" and q: "q \<in> set pats"
    and *: "j \<le> s \<and> occurs p hay s \<and> prefix q (drop j hay @ later)"
  show "prefix q (drop j hay)"
  proof (rule ccontr)
    assume no: "\<not> prefix q (drop j hay)"
    from * no obtain z where z: "q = drop j hay @ z" "z \<noteq> []"
      by (metis prefix_append prefix_order.refl append_Nil2)
    from * obtain y where "drop s hay = p @ y" unfolding occurs_def prefix_def by blast
    moreover have "drop j hay = take (s - j) (drop j hay) @ drop s hay"
      using * by (metis append_take_drop_id drop_drop le_add_diff_inverse2)
    ultimately have "q = take (s - j) (drop j hay) @ p @ (y @ z)" using z by simp
    then have "sublist p q" unfolding sublist_def by blast
    with assms p q have "p = q" by blast
    with arg_cong [OF \<open>q = take (s - j) (drop j hay) @ p @ (y @ z)\<close>, of length] z(2)
    show False by simp
  qed
qed

lemma copy_matches_ref:
  assumes "distinct (rx_patterns r)" "[] \<notin> set (rx_patterns r)" "stable (rx_patterns r) hay later"
  shows "iter_ok (rx_patterns r) hay pos ms \<Longrightarrow> pos \<le> length hay \<Longrightarrow>
    (case foldl (copy_match r hay) (out, pos) ms of (out', pos') \<Rightarrow>
       pos' \<le> length hay \<and> (\<forall>j \<ge> pos'. \<forall>p \<in> set (rx_patterns r). \<not> occurs p hay j)
     \<and> (\<exists>o'. out' = out @ o' \<and>
          redact_ref (rx_patterns r) (rx_replacements r) (drop pos (hay @ later))
          = o' @ redact_ref (rx_patterns r) (rx_replacements r) (drop pos' (hay @ later))))"
proof (induction ms arbitrary: pos out)
  case (Cons m ms)
  obtain i s e where m: "m = (i, s, e)" by (cases m)
  let ?P = "rx_patterns r" and ?R = "rx_replacements r"
  from Cons.prems(1) [unfolded m iter_ok.simps]
  have ok: "pos \<le> s" "i < length ?P" "e = s + length (?P ! i)" "occurs (?P ! i) hay s"
    "\<forall>j. pos \<le> j \<and> j < s \<longrightarrow> (\<forall>p \<in> set ?P. \<not> occurs p hay j)"
    "\<forall>p \<in> set ?P. occurs p hay s \<longrightarrow> length p \<le> length (?P ! i)" "iter_ok ?P hay e ms"
    by blast+
  have ne: "?P ! i \<noteq> []" using assms(2) ok(2) by (metis nth_mem)
  have e: "e \<le> length hay"
  proof -
    have "0 < length (?P ! i)" using ne by simp
    moreover have "length (?P ! i) \<le> length hay - s"
      using ok(4) prefix_length_le unfolding occurs_def by fastforce
    ultimately show ?thesis using ok(3) by linarith
  qed
  have "s \<le> length hay" using ok(3) e by simp
  have mem: "?P ! i \<in> set ?P" using ok(2) by simp
  have lift: "prefix q (drop j (hay @ later)) \<longleftrightarrow> occurs q hay j" if "q \<in> set ?P" "j \<le> s" for q j
  proof -
    have d: "drop j (hay @ later) = drop j hay @ later" using that(2) \<open>s \<le> length hay\<close> by simp
    show ?thesis
      unfolding d occurs_def
      using assms(3) [unfolded stable_def, rule_format, OF mem that(1), of j s] that(2) ok(4)
      by (auto intro: prefix_prefix)
  qed
  have "redact_ref ?P ?R (drop pos (hay @ later)) =
      take (s - pos) (drop pos (hay @ later)) @ redact_ref ?P ?R (drop s (hay @ later))"
  proof -
    have "\<forall>j. pos \<le> j \<and> j < pos + (s - pos) \<longrightarrow> (\<forall>p \<in> set ?P. \<not> occurs p (hay @ later) j)"
      using ok(1,5) lift by (simp add: occurs_def)
    from redact_ref_gap [OF _ _ this, of ?R] ok(1,3) e show ?thesis by simp
  qed
  also have "redact_ref ?P ?R (drop s (hay @ later)) = ?R ! i @ redact_ref ?P ?R (drop e (hay @ later))"
  proof -
    have "prefix (?P ! i) (drop s (hay @ later))"
      "\<forall>p \<in> set ?P. prefix p (drop s (hay @ later)) \<longrightarrow> length p \<le> length (?P ! i)"
      using ok(4,6) lift mem by blast+
    from redact_ref_match [OF assms(1) ok(2) ne this, of ?R] show ?thesis
      unfolding drop_drop ok(3) by (simp only: add.commute)
  qed
  also have "take (s - pos) (drop pos (hay @ later)) = slice hay pos s"
    using ok(1,3) e by (simp add: slice_def)
  finally have step: "redact_ref ?P ?R (drop pos (hay @ later)) =
      (slice hay pos s @ ?R ! i) @ redact_ref ?P ?R (drop e (hay @ later))"
    by simp
  with Cons.IH [OF ok(7) e, of "out @ slice hay pos s @ ?R ! i"] show ?case
    by (auto simp: m copy_match_def split: prod.splits)
qed simp

text \<open>The state between two calls: the secrets are distinct and not empty, and the held-back
  bytes are shorter than the longest secret and hold none.\<close>

definition redactor_inv :: "redactor \<Rightarrow> bool" where
  "redactor_inv r \<longleftrightarrow> distinct (rx_patterns r) \<and> [] \<notin> set (rx_patterns r)
     \<and> length (rx_replacements r) = length (rx_patterns r)
     \<and> rx_max_len r = foldl max 0 (map length (rx_patterns r))
     \<and> (\<forall>j. \<forall>p \<in> set (rx_patterns r). \<not> occurs p (rx_pending r) j)
     \<and> (rx_max_len r = 0 \<longrightarrow> rx_pending r = [])"

lemma foldl_max: "foldl max a xs = (if xs = [] then a else max a (Max (set xs)))" for a :: nat
proof (induction xs arbitrary: a)
  case (Cons x xs)
  then show ?case by (cases "xs = []") (simp_all add: max.assoc)
qed simp

lemma foldl_max_ge: "x \<in> set xs \<Longrightarrow> x \<le> foldl max 0 xs" for x :: nat
  by (auto simp: foldl_max)

lemma max_len_0: "redactor_inv r \<Longrightarrow> rx_max_len r = 0 \<longleftrightarrow> rx_patterns r = []"
  using foldl_max_ge [of _ "map length (rx_patterns r)"] unfolding redactor_inv_def
  by (cases "rx_patterns r") fastforce+

lemma redact_ref_no_patterns: "redact_ref [] reps hay = hay"
  by (induction hay) (simp_all add: redact_ref.simps [of "[]" reps "_ # _"])

lemma occurs_drop: "occurs p (drop k xs) j \<longleftrightarrow> occurs p xs (j + k)"
  by (simp add: occurs_def add.commute)

lemma take_drop_within:
  "n \<le> length c - pos \<Longrightarrow> pos \<le> length c \<Longrightarrow>
   take n (drop pos (c @ l)) = take n (drop pos c) \<and> drop (pos + n) (c @ l) = drop n (drop pos c) @ l"
  by (simp add: add.commute)

context matcher
begin

lemma redact_step:
  assumes inv: "redactor_inv r" and st: "stable (rx_patterns r) (rx_pending r @ input) later"
    and red: "redact find_iter r input = (out, r')"
  shows "redactor_inv r' \<and> rx_patterns r' = rx_patterns r \<and> rx_replacements r' = rx_replacements r
    \<and> redact_ref (rx_patterns r) (rx_replacements r) (rx_pending r @ input @ later)
      = out @ redact_ref (rx_patterns r) (rx_replacements r) (rx_pending r' @ later)"
proof (cases "rx_max_len r = 0")
  case True
  with inv red show ?thesis
    using max_len_0 [OF inv] by (auto simp: redact_def redactor_inv_def redact_ref_no_patterns)
next
  case False
  let ?P = "rx_patterns r" and ?R = "rx_replacements r" and ?c = "rx_pending r @ input"
  have P: "distinct ?P" "[] \<notin> set ?P" using inv by (auto simp: redactor_inv_def)
  obtain o' pos where f: "foldl (copy_match r ?c) ([], 0) (find_iter ?P ?c) = (o', pos)"
    by fastforce
  have cm: "pos \<le> length ?c" "\<forall>j \<ge> pos. \<forall>p \<in> set ?P. \<not> occurs p ?c j"
    "redact_ref ?P ?R (?c @ later) = o' @ redact_ref ?P ?R (drop pos (?c @ later))"
    using copy_matches_ref [OF P st find_iter_ok [OF P(2)], of "[]"] f by simp_all
  define n where "n = length ?c - pos - (rx_max_len r - 1)"
  have n: "n \<le> length ?c - pos" by (simp add: n_def)
  have "redact find_iter r input =
      (o' @ take n (drop pos ?c), r \<lparr> rx_pending := drop n (drop pos ?c) \<rparr>)"
    using False by (simp only: redact_def Let_def f prod.case n_def length_drop if_False)
  with red have out: "out = o' @ take n (drop pos ?c)"
    and r': "r' = r \<lparr> rx_pending := drop n (drop pos ?c) \<rparr>"
    by simp_all
  have none: "\<not> occurs q (?c @ later) j" if "pos \<le> j" "j < pos + n" "q \<in> set ?P" for j q
  proof
    assume "occurs q (?c @ later) j"
    moreover have j: "j < length ?c" using that n by linarith
    ultimately have pre: "prefix q (drop j ?c @ later)" by (simp add: occurs_def)
    have "length q \<le> rx_max_len r"
      using inv that(3) foldl_max_ge [of "length q" "map length ?P"] by (simp add: redactor_inv_def)
    then have "length q \<le> length (drop j ?c)"
      using that j unfolding n_def length_drop by linarith
    with pre have "prefix q (drop j ?c)" by (metis prefix_length_prefix prefix_def)
    with cm(2) that(1,3) show False by (simp add: occurs_def)
  qed
  have "redact_ref ?P ?R (drop pos (?c @ later)) =
      take n (drop pos (?c @ later)) @ redact_ref ?P ?R (drop (pos + n) (?c @ later))"
    by (rule redact_ref_gap) (use n cm(1) none in auto)
  moreover have "take n (drop pos (?c @ later)) = take n (drop pos ?c)"
    "drop (pos + n) (?c @ later) = drop n (drop pos ?c) @ later"
    using take_drop_within [OF n cm(1)] by blast+
  ultimately have ref: "redact_ref ?P ?R (?c @ later) = out @ redact_ref ?P ?R (rx_pending r' @ later)"
    using cm(3) out r' by simp
  have pe: "rx_pending r' = drop n (drop pos ?c)" unfolding r' by (cases r) (simp only: redactor.simps)
  have "\<not> occurs p (rx_pending r') j" if "p \<in> set ?P" for p j
    using cm(2) that unfolding pe occurs_drop by simp
  with inv False r' have "redactor_inv r'" by (simp add: redactor_inv_def)
  with ref r' show ?thesis by simp
qed

end

fun redact_chunks :: "finder \<Rightarrow> redactor \<Rightarrow> bytes list \<Rightarrow> bytes \<times> redactor" where
  "redact_chunks find_iter r [] = ([], r)"
| "redact_chunks find_iter r (c # cs) =
     (let (out, r1) = redact find_iter r c; (rest, r2) = redact_chunks find_iter r1 cs
      in (out @ rest, r2))"

lemma redact_ref_none: "\<forall>j. \<forall>p \<in> set pats. \<not> occurs p hay j \<Longrightarrow> redact_ref pats reps hay = hay"
  using redact_ref_gap [of "length hay" hay 0 pats reps] by simp

context matcher
begin

lemma redact_chunks_ref:
  assumes "\<forall>p \<in> set (rx_patterns r). \<forall>q \<in> set (rx_patterns r). sublist p q \<longrightarrow> p = q"
  shows "redactor_inv r \<Longrightarrow> redact_chunks find_iter r cs = (out, r') \<Longrightarrow>
    out @ rx_pending r' = redact_ref (rx_patterns r) (rx_replacements r) (rx_pending r @ concat cs)
    \<and> redactor_inv r'"
  using assms
proof (induction cs arbitrary: r out)
  case Nil
  then show ?case by (auto simp: redactor_inv_def redact_ref_none)
next
  case (Cons c cs)
  from Cons.prems(2) obtain o1 r1 o2 where s: "redact find_iter r c = (o1, r1)"
    "redact_chunks find_iter r1 cs = (o2, r')" "out = o1 @ o2"
    by (auto split: prod.splits)
  from redact_step [OF Cons.prems(1) stable_antichain [OF Cons.prems(3)] s(1), of "concat cs"]
  have st: "redactor_inv r1" "rx_patterns r1 = rx_patterns r" "rx_replacements r1 = rx_replacements r"
    "redact_ref (rx_patterns r) (rx_replacements r) (rx_pending r @ c @ concat cs)
      = o1 @ redact_ref (rx_patterns r) (rx_replacements r) (rx_pending r1 @ concat cs)"
    by simp_all
  from Cons.IH [OF st(1) s(2)] Cons.prems(3) st s(3) show ?case by simp
qed

lemma redact_once_ref:
  assumes "redactor_inv r" "redact find_iter r input = (out, r')"
  shows "out @ rx_pending r' = redact_ref (rx_patterns r) (rx_replacements r) (rx_pending r @ input)
    \<and> redactor_inv r' \<and> rx_patterns r' = rx_patterns r \<and> rx_replacements r' = rx_replacements r"
  using redact_step [OF assms(1) stable_Nil assms(2)]
  by (auto simp: redactor_inv_def redact_ref_none)

end

lemma redactor_new_inv:
  assumes "redactor_new secrets = Inr r" "distinct (map snd secrets)"
  shows "redactor_inv r \<and> rx_pending r = []
    \<and> rx_patterns r = map (\<lambda>(n, v). str_bytes v) (sort_key fst secrets)
    \<and> rx_replacements r = map (\<lambda>(n, v). replacement n) (sort_key fst secrets)"
proof -
  have d: "distinct (map (\<lambda>(n, v). str_bytes v) (sort_key fst secrets))"
  proof -
    have "mset (map (\<lambda>(n, v). str_bytes v) (sort_key fst secrets)) = mset (map str_bytes (map snd secrets))"
      by (simp add: case_prod_unfold comp_def)
    moreover have "distinct (map str_bytes (map snd secrets))"
      using assms(2) by (subst distinct_map) (auto simp: inj_on_def)
    ultimately show ?thesis by (metis mset_eq_imp_distinct_iff)
  qed
  from assms(1) have f: "find (\<lambda>(n, v). v = []) secrets = None"
    and r: "r = \<lparr> rx_patterns = map (\<lambda>(n, v). str_bytes v) (sort_key fst secrets),
        rx_replacements = map (\<lambda>(n, v). replacement n) (sort_key fst secrets), rx_pending = [],
        rx_max_len = foldl max 0 (map length (map (\<lambda>(n, v). str_bytes v) (sort_key fst secrets))) \<rparr>"
    by (auto simp: redactor_new_def Let_def split: option.splits)
  from f have nn: "[] \<notin> set (map (\<lambda>(n, v). str_bytes v) (sort_key fst secrets))"
  proof -
    have "v \<noteq> []" if "(n, v) \<in> set secrets" for n v
      using f that by (auto simp: find_None_iff)
    then have "str_bytes v \<noteq> []" if "(n, v) \<in> set secrets" for n v
      using that str_bytes_inject [of v "[]"] by fastforce
    then show ?thesis by auto metis
  qed
  then have "\<forall>p \<in> set (map (\<lambda>(n, v). str_bytes v) (sort_key fst secrets)). p \<noteq> []" by metis
  with nn d show ?thesis
    by (simp add: r redactor_inv_def occurs_def del: map_map set_map set_sort)
qed

section \<open>What the reference keeps\<close>

text \<open>A text cut into gaps and secrets, and put together again with replacements.\<close>

definition unredacted :: "bytes list \<Rightarrow> (bytes \<times> nat) list \<Rightarrow> bytes \<Rightarrow> bytes" where
  "unredacted repl segs gl = concat (map (\<lambda>(g, i). g @ repl ! i) segs) @ gl"

definition clean :: "bytes list \<Rightarrow> bytes \<Rightarrow> bool" where
  "clean pats g \<longleftrightarrow> (\<forall>p \<in> set pats. \<not> sublist p g)"

lemma unredacted_Cons [simp]:
  "unredacted repl ((g, i) # segs) gl = g @ repl ! i @ unredacted repl segs gl"
  "unredacted repl [] gl = gl"
  by (simp_all add: unredacted_def)

lemma clean_Cons:
  assumes "clean pats g" "\<forall>p \<in> set pats. \<not> prefix p hay" "prefix (x # g) hay"
  shows "clean pats (x # g)"
  using assms unfolding clean_def
  by (meson prefix_order.trans sublist_Cons_right)

lemma redact_ref_pieces:
  "[] \<notin> set pats \<Longrightarrow>
   \<exists>segs gl. hay = unredacted pats segs gl \<and> redact_ref pats reps hay = unredacted reps segs gl
     \<and> clean pats gl \<and> (\<forall>(g, i) \<in> set segs. clean pats g \<and> i < length pats)"
proof (induction pats reps hay rule: redact_ref.induct)
  case (1 pats reps hay)
  show ?case
  proof (cases "hay = []")
    case True
    with 1 have "clean pats []" by (auto simp: clean_def)
    with True show ?thesis by (intro exI [of _ "[]"]) simp
  next
    case ne: False
    show ?thesis
    proof (cases "longest_at pats hay")
      case None
      obtain segs gl where IH: "tl hay = unredacted pats segs gl"
        "redact_ref pats reps (tl hay) = unredacted reps segs gl" "clean pats gl"
        "\<forall>(g, i) \<in> set segs. clean pats g \<and> i < length pats"
        using "1.IH"(1) [OF ne None "1.prems"] by blast
      have np: "\<forall>p \<in> set pats. \<not> prefix p hay" using None by (simp add: longest_at_None)
      have hay: "hay = hd hay # unredacted pats segs gl" using ne IH(1) by (metis list.collapse)
      have ref: "redact_ref pats reps hay = hd hay # unredacted reps segs gl"
        using redact_ref_skip [OF ne np] IH(2) by simp
      show ?thesis
      proof (cases segs)
        case Nil
        have "clean pats (hd hay # gl)" using hay Nil by (intro clean_Cons [OF IH(3) np]) simp
        with hay ref Nil show ?thesis by (intro exI [of _ "[]"] exI [of _ "hd hay # gl"]) simp
      next
        case (Cons x segs')
        obtain g i where x: "x = (g, i)" by (cases x)
        have "clean pats (hd hay # g)"
          using hay Cons x IH(4) by (intro clean_Cons [OF _ np]) (auto simp: prefix_def)
        with hay ref Cons x IH(3,4) show ?thesis
          by (intro exI [of _ "(hd hay # g, i) # segs'"] exI [of _ gl]) simp
      qed
    next
      case (Some i)
      note i = longest_at_Some [OF Some]
      then have pi: "pats ! i \<noteq> []" using "1.prems" by (metis nth_mem)
      obtain segs gl where IH: "drop (length (pats ! i)) hay = unredacted pats segs gl"
        "redact_ref pats reps (drop (length (pats ! i)) hay) = unredacted reps segs gl" "clean pats gl"
        "\<forall>(g, k) \<in> set segs. clean pats g \<and> k < length pats"
        using "1.IH"(2) [OF ne Some pi "1.prems"] by blast
      have "hay = pats ! i @ unredacted pats segs gl"
        using i IH(1) by (metis append_eq_conv_conj prefix_def)
      moreover have "redact_ref pats reps hay = reps ! i @ unredacted reps segs gl"
        using ne Some pi IH(2) by (subst redact_ref.simps) simp
      moreover have "clean pats []" using "1.prems" by (auto simp: clean_def)
      ultimately show ?thesis
        using IH(3,4) i by (intro exI [of _ "([], i) # segs"] exI [of _ gl]) simp
    qed
  qed
qed

section \<open>Properties\<close>

text \<open>C6: one call and a flush hide every secret. With any search that keeps the crate's
  contract, the output is the input cut at secrets, each replaced by its own placeholder, and
  the bytes copied between them contain none.\<close>

theorem redactor_hides_secrets:
  assumes "matcher find_iter" and "redactor_new secrets = Inr r" and "distinct (map snd secrets)"
  shows "case redact find_iter r input of (out, r') \<Rightarrow>
    (\<exists>segs gl. input = unredacted (rx_patterns r) segs gl
      \<and> out @ fst (redactor_flush r') = unredacted (rx_replacements r) segs gl
      \<and> clean (rx_patterns r) gl
      \<and> (\<forall>(g, i) \<in> set segs. clean (rx_patterns r) g \<and> i < length (rx_patterns r)))
    \<and> set (zip (rx_patterns r) (rx_replacements r)) = (\<lambda>(n, v). (str_bytes v, replacement n)) ` set secrets"
proof -
  obtain out r' where red: "redact find_iter r input = (out, r')" by fastforce
  note inv = redactor_new_inv [OF assms(2,3)]
  have "out @ rx_pending r' = redact_ref (rx_patterns r) (rx_replacements r) input"
    using matcher.redact_once_ref [OF assms(1) _ red] inv by simp
  moreover have "[] \<notin> set (rx_patterns r)" using inv unfolding redactor_inv_def by blast
  moreover have "set (zip (rx_patterns r) (rx_replacements r)) =
      (\<lambda>(n, v). (str_bytes v, replacement n)) ` set secrets"
    using inv by (auto simp: zip_map_map zip_same_conv_map case_prod_unfold)
  ultimately show ?thesis
    using redact_ref_pieces [of "rx_patterns r" input "rx_replacements r"]
    by (simp add: red redactor_flush_def)
qed

theorem redactor_hides_secrets_witness:
  "\<exists>r. redactor_new [(''TOKEN'', ''s3''), (''KEY'', ''s3cr'')] = Inr r \<and>
    (case redact find_ref r (str_bytes ''a s3cr s3'') of (out, r') \<Rightarrow>
      \<exists>segs gl. str_bytes ''a s3cr s3'' = unredacted (rx_patterns r) segs gl
      \<and> out @ fst (redactor_flush r') = unredacted (rx_replacements r) segs gl
      \<and> clean (rx_patterns r) gl)"
proof -
  let ?s = "[(''TOKEN'', ''s3''), (''KEY'', ''s3cr'')]"
  obtain r where r: "redactor_new ?s = Inr r"
    by (cases "redactor_new ?s") (simp_all add: redactor_new_def)
  show ?thesis
    using redactor_hides_secrets [OF ac.matcher_axioms r, of "str_bytes ''a s3cr s3''"] r
    by (auto split: prod.splits)
qed

text \<open>C24: redaction does not depend on how the text is cut into calls, as long as no secret is
  part of another one: a secret that straddles calls is found, and the concatenated output
  with the final flush is the one-pass redaction of the whole text.\<close>

theorem redactor_streaming:
  assumes "matcher find_iter" and "redactor_new secrets = Inr r" and "distinct (map snd secrets)"
    and "\<forall>p \<in> set (rx_patterns r). \<forall>q \<in> set (rx_patterns r). sublist p q \<longrightarrow> p = q"
  shows "case redact_chunks find_iter r cs of (out, r') \<Rightarrow>
    out @ fst (redactor_flush r') = redact_ref (rx_patterns r) (rx_replacements r) (concat cs)"
proof -
  note inv = redactor_new_inv [OF assms(2,3)]
  obtain out r' where "redact_chunks find_iter r cs = (out, r')" by fastforce
  then show ?thesis
    using matcher.redact_chunks_ref [OF assms(1,4)] inv by (simp add: redactor_flush_def)
qed

theorem redactor_streaming_witness:
  "\<exists>r. redactor_new [(''TOKEN'', ''hunter2'')] = Inr r \<and>
    (case redact_chunks find_ref r [str_bytes ''a hun'', str_bytes ''ter2 b''] of (out, r') \<Rightarrow>
      out @ fst (redactor_flush r') = redact_ref (rx_patterns r) (rx_replacements r) (str_bytes ''a hunter2 b''))"
proof -
  let ?s = "[(''TOKEN'', ''hunter2'')]"
  obtain r where r: "redactor_new ?s = Inr r"
    by (cases "redactor_new ?s") (simp_all add: redactor_new_def)
  then have "set (rx_patterns r) = {str_bytes ''hunter2''}"
    using redactor_new_inv [OF r] by simp
  then show ?thesis
    using redactor_streaming [OF ac.matcher_axioms r, of "[str_bytes ''a hun'', str_bytes ''ter2 b'']"] r
    by (simp del: str_bytes_append) (simp add: str_bytes_def)
qed

text \<open>The condition on the secrets is needed: when a shorter secret lies inside a longer one
  that straddles two calls, the shorter one is replaced and the rest of the longer one comes
  out in clear.\<close>

lemma straddling_secret_leaks:
  "case redactor_new [(''LONG'', ''abcdef''), (''SHORT'', ''cd'')] of
     Inl _ \<Rightarrow> False
   | Inr r \<Rightarrow> (case redact_chunks find_ref r [str_bytes ''abcd'', str_bytes ''ef''] of (out, r') \<Rightarrow>
       out @ fst (redactor_flush r') = str_bytes ''ab<redacted:SHORT>ef''
       \<and> redact_ref (rx_patterns r) (rx_replacements r) (str_bytes ''abcdef'') = str_bytes ''<redacted:LONG>'')"
  by code_simp

end
