(* ===== verification/Encoder.thy ===== *)
theory Encoder
  imports Redactor Json
begin

text \<open>
  \<open>bunsen-core/src/encoder.rs\<close> and \<open>adapter.rs\<close>: the event stream of a Run. The state holds
  what was written to the transcript and to the standard output. Printing a value
  (\<open>serde_json::to_string\<close>), the clock, lossy UTF-8 decoding and whether a write succeeds
  are parameters.
\<close>

record encoder =
  enc_run_id :: string
  enc_seq :: u64
  enc_transcript :: bytes
  enc_stdout :: bytes
  enc_redactor :: "redactor option"

type_synonym printer = "(string \<times> json) list \<Rightarrow> string"

definition encoder_new :: "string \<Rightarrow> bytes \<Rightarrow> bytes \<Rightarrow> redactor option \<Rightarrow> encoder" where
  "encoder_new run_id transcript stdout rx =
     \<lparr> enc_run_id = run_id, enc_seq = 0, enc_transcript = transcript, enc_stdout = stdout,
       enc_redactor = rx \<rparr>"

text \<open>\<open>Encoder::emit\<close>. \<^const>\<open>None\<close> is the panic of \<open>unwrap\<close> on a payload that cannot be
  flattened; otherwise whether it returned \<open>Ok\<close>, and the new state.\<close>

definition emit ::
  "finder \<Rightarrow> printer \<Rightarrow> bool \<Rightarrow> bool \<Rightarrow> string \<Rightarrow> string \<Rightarrow> json \<Rightarrow> encoder \<Rightarrow> (bool \<times> encoder) option" where
  "emit find_iter to_json stdout_ok transcript_ok ts event_type payload enc =
     (let env = envelope_new ts (enc_run_id enc) (enc_seq enc) event_type payload;
          enc1 = enc \<lparr> enc_seq := enc_seq enc + 1 \<rparr>
      in case envelope_fields env of
           None \<Rightarrow> None
         | Some entries \<Rightarrow>
             let line = to_json entries @ [LF];
                 (redacted, pending, rx) =
                   (case enc_redactor enc1 of
                      Some r \<Rightarrow> (let (out, r1) = redact find_iter r (str_bytes line);
                                    (tail, r2) = redactor_flush r1
                                in (out, tail, Some r2))
                    | None \<Rightarrow> (str_bytes line, [], None));
                 enc2 = enc1 \<lparr> enc_redactor := rx \<rparr>
             in if \<not> stdout_ok then Some (False, enc2)
                else let enc3 = enc2 \<lparr> enc_stdout := enc_stdout enc2 @ redacted @ pending \<rparr>
                     in if \<not> transcript_ok then Some (False, enc3)
                        else Some (True, enc3 \<lparr> enc_transcript := enc_transcript enc3 @ redacted @ pending \<rparr>))"

text \<open>\<open>BlackBoxAdapter::output_event\<close>.\<close>

definition output_event_payload :: "(bytes \<Rightarrow> string) \<Rightarrow> string \<Rightarrow> bytes \<Rightarrow> json" where
  "output_event_payload lossy str bs =
     JObj (jmap_of [(''stream'', JStr str), (''text'', JStr (lossy bs))])"

lemma output_event_payload_ok [simp]: "payload_ok (output_event_payload lossy str bs)"
  by (simp add: output_event_payload_def payload_ok_JObj envelope_keys_def)

section \<open>A sequence of events\<close>

text \<open>Emitting events whose writes all succeed.\<close>

fun emit_all ::
  "finder \<Rightarrow> printer \<Rightarrow> (string \<times> event) list \<Rightarrow> encoder \<Rightarrow> encoder option" where
  "emit_all find_iter to_json [] enc = Some enc"
| "emit_all find_iter to_json ((ts, ty, p) # evs) enc =
     (case emit find_iter to_json True True ts ty p enc of
        None \<Rightarrow> None | Some (_, enc') \<Rightarrow> emit_all find_iter to_json evs enc')"

definition hide :: "redactor option \<Rightarrow> bytes \<Rightarrow> bytes" where
  "hide rx bs = (case rx of None \<Rightarrow> bs
     | Some r \<Rightarrow> redact_ref (rx_patterns r) (rx_replacements r) bs)"

definition event_line :: "printer \<Rightarrow> string \<Rightarrow> u64 \<Rightarrow> string \<times> event \<Rightarrow> bytes" where
  "event_line to_json run_id n e = (case e of (ts, ty, p) \<Rightarrow>
     str_bytes (to_json (the (envelope_fields (envelope_new ts run_id n ty p))) @ [LF]))"

definition encoder_ready :: "encoder \<Rightarrow> bool" where
  "encoder_ready enc \<longleftrightarrow> (case enc_redactor enc of None \<Rightarrow> True
     | Some r \<Rightarrow> redactor_inv r \<and> rx_pending r = [])"

lemma redactor_inv_flush: "redactor_inv r \<Longrightarrow> redactor_inv (snd (redactor_flush r))"
  unfolding redactor_flush_def redactor_inv_def
  by (auto simp: occurs_def)

context matcher
begin

lemma emit_ok:
  assumes "encoder_ready enc" "payload_ok p"
  shows "\<exists>enc'. emit find_iter to_json True True ts ty p enc = Some (True, enc') \<and> encoder_ready enc'
    \<and> enc_run_id enc' = enc_run_id enc \<and> enc_seq enc' = enc_seq enc + 1
    \<and> hide (enc_redactor enc') = hide (enc_redactor enc)
    \<and> (let l = hide (enc_redactor enc) (event_line to_json (enc_run_id enc) (enc_seq enc) (ts, ty, p))
       in enc_transcript enc' = enc_transcript enc @ l \<and> enc_stdout enc' = enc_stdout enc @ l)"
proof -
  let ?env = "envelope_new ts (enc_run_id enc) (enc_seq enc) ty p"
  have "payload_ok (env_payload ?env)" using assms(2) by (simp add: envelope_new_def)
  then obtain fs where fs: "envelope_fields ?env = Some fs" using envelope_fields_ok by blast
  let ?line = "str_bytes (to_json fs @ [LF])"
  show ?thesis
  proof (cases "enc_redactor enc")
    case None
    then show ?thesis
      by (simp add: emit_def fs Let_def hide_def event_line_def encoder_ready_def del: str_bytes_append)
  next
    case (Some r)
    with assms(1) have r: "redactor_inv r" "rx_pending r = []" by (simp_all add: encoder_ready_def)
    obtain out r1 where red: "redact find_iter r ?line = (out, r1)" by fastforce
    note once = redact_once_ref [OF r(1) red]
    have "redactor_inv (r1\<lparr>rx_pending := []\<rparr>)"
      using redactor_inv_flush [of r1] once by (simp add: redactor_flush_def)
    moreover have "hide (Some (r1\<lparr>rx_pending := []\<rparr>)) = hide (Some r)"
      using once by (simp add: hide_def fun_eq_iff)
    ultimately show ?thesis
      using Some red once r(2)
      by (simp add: emit_def fs Let_def hide_def event_line_def encoder_ready_def redactor_flush_def
          del: str_bytes_append)
  qed
qed

lemma emit_all_lines:
  "encoder_ready enc \<Longrightarrow> list_all (\<lambda>(_, _, p). payload_ok p) evs \<Longrightarrow>
   \<exists>enc'. emit_all find_iter to_json evs enc = Some enc' \<and> encoder_ready enc'
     \<and> enc_seq enc' = enc_seq enc + word_of_nat (length evs)
     \<and> (let ls = concat (map (\<lambda>k. hide (enc_redactor enc)
             (event_line to_json (enc_run_id enc) (enc_seq enc + word_of_nat k) (evs ! k))) [0..<length evs])
        in enc_transcript enc' = enc_transcript enc @ ls \<and> enc_stdout enc' = enc_stdout enc @ ls)"
proof (induction evs arbitrary: enc)
  case Nil
  then show ?case by simp
next
  case (Cons e evs)
  obtain ts ty p where e: "e = (ts, ty, p)" by (cases e)
  from Cons.prems(2) have p: "payload_ok p" "list_all (\<lambda>(_, _, p). payload_ok p) evs"
    by (simp_all add: e)
  from emit_ok [OF Cons.prems(1) p(1), of to_json ts ty]
  obtain enc1 where enc1: "emit find_iter to_json True True ts ty p enc = Some (True, enc1)"
    "encoder_ready enc1" "enc_run_id enc1 = enc_run_id enc" "enc_seq enc1 = enc_seq enc + 1"
    "hide (enc_redactor enc1) = hide (enc_redactor enc)"
    "enc_transcript enc1 = enc_transcript enc @
      hide (enc_redactor enc) (event_line to_json (enc_run_id enc) (enc_seq enc) e)"
    "enc_stdout enc1 = enc_stdout enc @
      hide (enc_redactor enc) (event_line to_json (enc_run_id enc) (enc_seq enc) e)"
    by (auto simp: Let_def e)
  have "[0..<length (e # evs)] = 0 # map Suc [0..<length evs]"
    by (simp add: upt_conv_Cons map_Suc_upt del: upt_Suc)
  then show ?case
    using Cons.IH [OF enc1(2) p(2)] enc1
    by (simp add: e Let_def comp_def add.assoc del: upt_Suc)
qed

end

section \<open>Properties\<close>



end
