(* ===== verification/AgentEvents.thy ===== *)
theory AgentEvents
  imports Json
begin

text \<open>
  The contract between the agent parsers (\<open>claude_code_adapter.rs\<close>, \<open>codex_adapter.rs\<close>,
  \<open>pi_adapter.rs\<close>, \<open>aider_adapter.rs\<close>) and the supervisors that emit their events: the
  event vocabulary, the keys each event carries, and payloads that do not clash with the
  envelope. A parser never produces the supervisor's own \<open>run_started\<close> and \<open>run_ended\<close>.
  The locale \<open>line_parser\<close> is interpreted by each adapter's theory. Parsing JSON text is the
  parameter \<open>parse_json\<close> of the adapters (\<open>serde_json::from_str\<close>).
\<close>

type_synonym json_parser = "string \<Rightarrow> json option"

definition required_keys :: "string \<Rightarrow> string list option" where
  "required_keys ty =
     map_of [(''output'', [''stream'', ''text'']),
             (''turn_start'', [''turn_id'']),
             (''turn_end'', [''turn_id'']),
             (''model_usage'', [''input_tokens'', ''output_tokens'']),
             (''tool_call'', [''tool_call_id'', ''name'', ''input'']),
             (''tool_result'', [''tool_call_id'', ''content''])] ty"

definition event_ok :: "event \<Rightarrow> bool" where
  "event_ok e \<longleftrightarrow> (case e of (ty, p) \<Rightarrow> payload_ok p \<and>
     (\<exists>ks. required_keys ty = Some ks \<and> (\<forall>k \<in> set ks. jget k p \<noteq> None)))"

lemma event_ok_types:
  "event_ok (ty, p) \<Longrightarrow>
   ty \<in> {''output'', ''turn_start'', ''turn_end'', ''model_usage'', ''tool_call'', ''tool_result''}"
  by (auto simp: event_ok_def required_keys_def split: if_splits)

lemma event_ok_payload: "event_ok (ty, p) \<Longrightarrow> payload_ok p"
  by (simp add: event_ok_def)

text \<open>Feeding a parser lines one after another, then flushing it.\<close>

fun parse_lines :: "('s \<Rightarrow> string \<Rightarrow> event list \<times> 's) \<Rightarrow> 's \<Rightarrow> string list \<Rightarrow> event list \<times> 's" where
  "parse_lines parse s [] = ([], s)"
| "parse_lines parse s (l # ls) =
     (let (evs, s1) = parse s l; (rest, s2) = parse_lines parse s1 ls in (evs @ rest, s2))"

lemma parse_lines_append:
  "parse_lines parse s (xs @ ys) =
     (let (e1, s1) = parse_lines parse s xs; (e2, s2) = parse_lines parse s1 ys in (e1 @ e2, s2))"
  by (induction xs arbitrary: s) (auto split: prod.splits)

locale line_parser =
  fixes parse :: "'s \<Rightarrow> string \<Rightarrow> event list \<times> 's" and flush :: "'s \<Rightarrow> event list \<times> 's"
  assumes parse_ok: "list_all event_ok (fst (parse s l))"
    and flush_ok: "list_all event_ok (fst (flush s))"
begin

lemma parse_lines_ok: "list_all event_ok (fst (parse_lines parse s ls))"
proof (induction ls arbitrary: s)
  case (Cons l ls)
  obtain e1 s1 e2 s2 where "parse s l = (e1, s1)" "parse_lines parse s1 ls = (e2, s2)" by fastforce
  then show ?case using parse_ok [of s l] Cons [of s1] by simp
qed simp

lemma whole_run_ok:
  "list_all event_ok (fst (parse_lines parse s ls) @ fst (flush (snd (parse_lines parse s ls))))"
  using parse_lines_ok flush_ok by simp

end

section \<open>The events the parsers build\<close>

text \<open>The payload shapes shared by the parsers, and facts that discharge \<open>event_ok\<close>.\<close>

definition text_event :: "string \<Rightarrow> string \<Rightarrow> event" where
  "text_event str txt = (''output'', JObj (jmap_of [(''stream'', JStr str), (''text'', JStr txt)]))"

definition turn_start_event :: "u32 \<Rightarrow> event" where
  "turn_start_event n = (''turn_start'', JObj (jmap_of [(''turn_id'', ju32 n)]))"

definition tool_call_event :: "string \<Rightarrow> string \<Rightarrow> json \<Rightarrow> event" where
  "tool_call_event i n input = (''tool_call'', JObj (jmap_of [(''tool_call_id'', JStr i),
     (''name'', JStr n), (''input'', input)]))"

lemma event_ok_opt_insert [simp]:
  assumes "event_ok (ty, JObj m)" "k \<notin> set envelope_keys"
  shows "event_ok (ty, JObj (opt_insert k v m))"
proof -
  have "wf_map m" using assms(1) by (simp add: event_ok_def payload_ok_JObj)
  then show ?thesis using assms by (auto simp: event_ok_def payload_ok_JObj)
qed

lemma text_event_ok [simp]: "event_ok (text_event str txt)"
  by (simp add: text_event_def event_ok_def payload_ok_JObj envelope_keys_def required_keys_def)

lemma turn_start_event_ok [simp]: "event_ok (turn_start_event n)"
  by (simp add: turn_start_event_def event_ok_def payload_ok_JObj envelope_keys_def required_keys_def)

lemma tool_call_event_ok [simp]: "event_ok (tool_call_event i n input)"
  by (simp add: tool_call_event_def event_ok_def payload_ok_JObj envelope_keys_def required_keys_def)

lemma turn_end_ok [simp]: "event_ok (''turn_end'', JObj (jmap_of [(''turn_id'', n)]))"
  by (simp add: event_ok_def payload_ok_JObj envelope_keys_def required_keys_def)

lemma model_usage_ok [simp]:
  "event_ok (''model_usage'', JObj (jmap_of [(''input_tokens'', a), (''output_tokens'', b)]))"
  by (simp add: event_ok_def payload_ok_JObj envelope_keys_def required_keys_def)

lemma tool_result_ok [simp]:
  "event_ok (''tool_result'', JObj (jmap_of [(''tool_call_id'', a), (''content'', b)]))"
  "event_ok (''tool_result'', JObj (jmap_of [(''tool_call_id'', a), (''content'', b), (''is_error'', c)]))"
  by (simp_all add: event_ok_def payload_ok_JObj envelope_keys_def required_keys_def)

lemma list_all_concat_map: "(\<And>x. list_all P (f x)) \<Longrightarrow> list_all P (concat (map f xs))"
  by (induction xs) auto

section \<open>Turns\<close>

text \<open>The turn events of a stream with their numbers, and the trace of \<open>n\<close> complete turns
  after turn \<open>c\<close> (numbers are 32-bit).\<close>

definition is_turn :: "event \<Rightarrow> bool" where
  "is_turn e \<longleftrightarrow> fst e = ''turn_start'' \<or> fst e = ''turn_end''"

definition turn_trace :: "event list \<Rightarrow> (string \<times> json option) list" where
  "turn_trace evs = map (\<lambda>(ty, p). (ty, jget ''turn_id'' p)) (filter is_turn evs)"

definition turn_pair :: "u32 \<Rightarrow> (string \<times> json option) list" where
  "turn_pair k = [(''turn_start'', Some (ju32 k)), (''turn_end'', Some (ju32 k))]"

fun brackets :: "u32 \<Rightarrow> nat \<Rightarrow> (string \<times> json option) list" where
  "brackets c 0 = []"
| "brackets c (Suc n) = turn_pair (c + 1) @ brackets (c + 1) n"

lemma turn_trace_append [simp]: "turn_trace (xs @ ys) = turn_trace xs @ turn_trace ys"
  by (simp add: turn_trace_def)

lemma turn_trace_Nil [simp]: "turn_trace [] = []"
  by (simp add: turn_trace_def)

lemma turn_trace_Cons:
  "turn_trace ((ty, p) # es) =
     (if ty = ''turn_start'' \<or> ty = ''turn_end'' then [(ty, jget ''turn_id'' p)] else []) @ turn_trace es"
  by (simp add: turn_trace_def is_turn_def)

lemma turn_trace_text [simp]: "turn_trace (text_event a b # es) = turn_trace es"
  by (simp add: text_event_def turn_trace_Cons)

lemma turn_trace_tool_call [simp]: "turn_trace (tool_call_event i n v # es) = turn_trace es"
  by (simp add: tool_call_event_def turn_trace_Cons)

lemma turn_trace_start [simp]:
  "turn_trace (turn_start_event k # es) = (''turn_start'', Some (ju32 k)) # turn_trace es"
  by (simp add: turn_start_event_def turn_trace_Cons)

lemma turn_trace_concat_map:
  "(\<And>x. turn_trace (f x) = []) \<Longrightarrow> turn_trace (concat (map f xs)) = []"
  by (induction xs) auto

lemma brackets_append: "brackets c (m + n) = brackets c m @ brackets (c + word_of_nat m) n"
  by (induction m arbitrary: c) (simp_all add: add.commute add.left_commute)

lemma length_brackets [simp]: "length (brackets c n) = 2 * n"
  by (induction n arbitrary: c) (simp_all add: turn_pair_def)

end
