(* ===== verification/ClaudeAdapter.thy ===== *)
theory ClaudeAdapter
  imports AgentEvents
begin

text \<open>
  \<open>bunsen-core/src/claude_code_adapter.rs\<close>: one line of claude-code's stream-json output to
  events. The theorems: every event is well formed whatever the input, and each assistant
  message is one bracket of \<open>turn_start\<close> and \<open>turn_end\<close> with the next turn number.
\<close>

record claude_parser =
  cl_turn_counter :: u32
  cl_last_model :: "string option"

definition claude_EGRESS_ENDPOINTS :: "string list" where
  "claude_EGRESS_ENDPOINTS = [''api.anthropic.com'']"

definition claude_new :: claude_parser where
  "claude_new = \<lparr> cl_turn_counter = 0, cl_last_model = None \<rparr>"

text \<open>One block of an assistant message.\<close>

definition assistant_block :: "json \<Rightarrow> event list" where
  "assistant_block block =
     (case get_str ''type'' block of
        Some ty \<Rightarrow>
          if ty = ''text'' then
            (case get_str ''text'' block of
               Some txt \<Rightarrow> if txt \<noteq> [] then [text_event ''agent'' txt] else []
             | None \<Rightarrow> [])
          else if ty = ''tool_use'' then
            (case (get_str ''id'' block, get_str ''name'' block) of
               (Some i, Some n) \<Rightarrow>
                 let input = unwrap_or JNull (jget ''input'' block)
                 in [tool_call_event i n input]
             | _ \<Rightarrow> [])
          else []
      | None \<Rightarrow> [])"

definition parse_assistant :: "claude_parser \<Rightarrow> json \<Rightarrow> event list \<times> claude_parser" where
  "parse_assistant s v =
     (let turn_id = cl_turn_counter s + 1;
          s1 = s \<lparr> cl_turn_counter := turn_id \<rparr>;
          start = turn_start_event turn_id
      in case jget ''message'' v of
           None \<Rightarrow> ([start, (''turn_end'', JObj (jmap_of [(''turn_id'', ju32 turn_id)]))], s1)
         | Some message \<Rightarrow>
             let model = get_str ''model'' message;
                 s2 = (case model of Some m \<Rightarrow> s1 \<lparr> cl_last_model := Some m \<rparr> | None \<Rightarrow> s1);
                 blocks = (case Option.bind (jget ''content'' message) as_array of
                     Some content \<Rightarrow> concat (map assistant_block content) | None \<Rightarrow> []);
                 payload = opt_insert ''stop_reason'' (map_option JStr (get_str ''stop_reason'' message))
                   (opt_insert ''model'' (map_option JStr model) (jmap_of [(''turn_id'', ju32 turn_id)]))
             in (start # blocks @ [(''turn_end'', JObj payload)], s2))"

definition extract_tool_result_content :: "json \<Rightarrow> string" where
  "extract_tool_result_content block =
     (case jget ''content'' block of
        Some (JStr t) \<Rightarrow> t
      | Some (JArr arr) \<Rightarrow> concat (List.map_filter (get_str ''text'') arr)
      | _ \<Rightarrow> [])"

definition user_block :: "json \<Rightarrow> event list" where
  "user_block block =
     (if get_str ''type'' block \<noteq> Some ''tool_result'' then []
      else case get_str ''tool_use_id'' block of
          None \<Rightarrow> []
        | Some i \<Rightarrow>
            let is_error = unwrap_or False (Option.bind (jget ''is_error'' block) as_bool)
            in [(''tool_result'', JObj (jmap_of [(''tool_call_id'', JStr i),
                  (''content'', JStr (extract_tool_result_content block)),
                  (''is_error'', JBool is_error)]))])"

definition parse_user :: "json \<Rightarrow> event list" where
  "parse_user v =
     (case Option.bind (Option.bind (jget ''message'' v) (jget ''content'')) as_array of
        Some content \<Rightarrow> concat (map user_block content)
      | None \<Rightarrow> [])"

definition parse_result :: "float_ops \<Rightarrow> claude_parser \<Rightarrow> json \<Rightarrow> event list" where
  "parse_result F s v =
     (let err = (if unwrap_or False (Option.bind (jget ''is_error'' v) as_bool)
                 then [text_event ''stderr'' (unwrap_or ''unknown error'' (get_str ''result'' v))]
                 else []);
          usage = (case jget ''usage'' v of
              None \<Rightarrow> []
            | Some usage \<Rightarrow>
                let payload0 = jmap_of [(''input_tokens'', ju64 (unwrap_or 0 (get_u64 ''input_tokens'' usage))),
                      (''output_tokens'', ju64 (unwrap_or 0 (get_u64 ''output_tokens'' usage)))];
                    payload1 = opt_insert ''model'' (map_option JStr (cl_last_model s)) payload0;
                    payload2 = opt_insert ''cache_read_tokens''
                      (map_option ju64 (get_u64 ''cache_read_input_tokens'' usage)) payload1;
                    payload3 = opt_insert ''cache_write_tokens''
                      (map_option ju64 (get_u64 ''cache_creation_input_tokens'' usage)) payload2;
                    payload4 = opt_insert ''cost_usd''
                      (map_option jf64 (Option.bind (jget ''total_cost_usd'' v) (as_f64 F))) payload3
                in [(''model_usage'', JObj payload4)])
      in err @ usage)"

definition claude_parse_line ::
  "json_parser \<Rightarrow> float_ops \<Rightarrow> claude_parser \<Rightarrow> string \<Rightarrow> event list \<times> claude_parser" where
  "claude_parse_line parse_json F s line =
     (let trimmed = trim line in
      if trimmed = [] then ([], s)
      else case parse_json trimmed of
          None \<Rightarrow> ([text_event ''stdout'' line], s)
        | Some v \<Rightarrow>
            let ty = unwrap_or [] (get_str ''type'' v) in
            if ty = ''assistant'' then parse_assistant s v
            else if ty = ''user'' then (parse_user v, s)
            else if ty = ''result'' then (parse_result F s v, s)
            else ([], s))"

section \<open>The contract\<close>

lemma assistant_block_ok: "list_all event_ok (assistant_block b)"
  by (simp add: assistant_block_def Let_def split: option.split)

lemma user_block_ok: "list_all event_ok (user_block b)"
  by (simp add: user_block_def Let_def split: option.split)

lemma parse_assistant_ok: "list_all event_ok (fst (parse_assistant s v))"
  by (simp add: parse_assistant_def Let_def list_all_concat_map assistant_block_ok envelope_keys_def
      split: option.split)

lemma parse_result_ok: "list_all event_ok (parse_result F s v)"
  by (simp add: parse_result_def Let_def envelope_keys_def split: option.split)

lemma claude_parse_line_ok: "list_all event_ok (fst (claude_parse_line pj F s l))"
  by (simp add: claude_parse_line_def parse_user_def Let_def list_all_concat_map user_block_ok
      parse_assistant_ok parse_result_ok split: option.split)

interpretation claude: line_parser "claude_parse_line pj F" "\<lambda>s. ([], s)"
  by unfold_locales (simp_all add: claude_parse_line_ok)

section \<open>Turns\<close>

lemma assistant_block_turns: "turn_trace (assistant_block b) = []"
  by (simp add: assistant_block_def Let_def split: option.split)

lemma user_block_turns: "turn_trace (user_block b) = []"
  by (simp add: user_block_def Let_def turn_trace_Cons split: option.split)

lemma parse_assistant_turns:
  "turn_trace (fst (parse_assistant s v)) = turn_pair (cl_turn_counter s + 1)
   \<and> cl_turn_counter (snd (parse_assistant s v)) = cl_turn_counter s + 1"
  by (simp add: parse_assistant_def Let_def turn_trace_concat_map assistant_block_turns turn_pair_def
      turn_trace_Cons split: option.split)

lemma parse_result_turns: "turn_trace (parse_result F s v) = []"
  by (simp add: parse_result_def Let_def turn_trace_Cons split: option.split)

lemma claude_line_turns:
  "\<exists>n \<le> 1. turn_trace (fst (claude_parse_line pj F s l)) = brackets (cl_turn_counter s) n
     \<and> cl_turn_counter (snd (claude_parse_line pj F s l)) = cl_turn_counter s + word_of_nat n"
proof (cases "trim l \<noteq> [] \<and> (\<exists>v. pj (trim l) = Some v \<and> get_str ''type'' v = Some ''assistant'')")
  case True
  then obtain v where "claude_parse_line pj F s l = parse_assistant s v"
    by (auto simp: claude_parse_line_def)
  then show ?thesis using parse_assistant_turns [of s v] by (intro exI [of _ 1]) simp
next
  case False
  then show ?thesis
    by (intro exI [of _ 0]) (auto simp: claude_parse_line_def Let_def parse_user_def parse_result_turns
        turn_trace_concat_map user_block_turns unwrap_or_def split: option.splits)
qed

lemma claude_lines_turns:
  "\<exists>n \<le> length ls. turn_trace (fst (parse_lines (claude_parse_line pj F) s ls)) = brackets (cl_turn_counter s) n
     \<and> cl_turn_counter (snd (parse_lines (claude_parse_line pj F) s ls)) = cl_turn_counter s + word_of_nat n"
proof (induction ls arbitrary: s)
  case (Cons l ls)
  obtain e1 s1 where 1: "claude_parse_line pj F s l = (e1, s1)" by fastforce
  obtain e2 s2 where 2: "parse_lines (claude_parse_line pj F) s1 ls = (e2, s2)" by fastforce
  obtain m where m: "m \<le> 1" "turn_trace e1 = brackets (cl_turn_counter s) m"
    "cl_turn_counter s1 = cl_turn_counter s + word_of_nat m"
    using claude_line_turns [of pj F s l] 1 by auto
  obtain n where n: "n \<le> length ls" "turn_trace e2 = brackets (cl_turn_counter s1) n"
    "cl_turn_counter s2 = cl_turn_counter s1 + word_of_nat n"
    using Cons.IH [of s1] 2 by auto
  show ?case
    using m n 1 2 by (intro exI [of _ "m + n"]) (simp add: brackets_append add.assoc)
qed simp

section \<open>Properties\<close>


end
