(* ===== verification/CodexAdapter.thy ===== *)
theory CodexAdapter
  imports AgentEvents
begin

text \<open>
  \<open>bunsen-core/src/codex_adapter.rs\<close>: codex's JSONL to events. The parser remembers the items
  for which a tool call was emitted; the theorem shows that each result is preceded by
  exactly one call of the same id.
\<close>

record codex_parser =
  cx_turn_counter :: u32
  cx_last_model :: "string option"
  cx_tool_call_emitted :: "string set"

definition codex_EGRESS_ENDPOINTS :: "string list" where
  "codex_EGRESS_ENDPOINTS = [''api.openai.com'']"

definition codex_new :: codex_parser where
  "codex_new = \<lparr> cx_turn_counter = 0, cx_last_model = None, cx_tool_call_emitted = {} \<rparr>"

definition build_tool_input :: "json \<Rightarrow> json" where
  "build_tool_input item =
     (case as_object item of
        Some m \<Rightarrow> JObj (jmap_of (filter (\<lambda>(k, _). k \<noteq> ''id'' \<and> k \<noteq> ''type'') m))
      | None \<Rightarrow> JNull)"

definition extract_item_output :: "json \<Rightarrow> string" where
  "extract_item_output item =
     (case get_str ''output'' item of
        Some t \<Rightarrow> t
      | None \<Rightarrow> (case get_str ''text'' item of Some t \<Rightarrow> t | None \<Rightarrow> []))"

definition handle_item_started :: "codex_parser \<Rightarrow> json \<Rightarrow> event list \<times> codex_parser" where
  "handle_item_started s v =
     (case jget ''item'' v of
        None \<Rightarrow> ([], s)
      | Some item \<Rightarrow>
          (case get_str ''id'' item of
             None \<Rightarrow> ([], s)
           | Some item_id \<Rightarrow>
               let item_type = unwrap_or [] (get_str ''type'' item) in
               if item_type = ''reasoning'' \<or> item_type = ''agent_message'' then ([], s)
               else if item_id \<in> cx_tool_call_emitted s then ([], s)
               else ([tool_call_event item_id item_type (build_tool_input item)],
                     s \<lparr> cx_tool_call_emitted := insert item_id (cx_tool_call_emitted s) \<rparr>)))"

definition handle_item_completed :: "codex_parser \<Rightarrow> json \<Rightarrow> event list \<times> codex_parser" where
  "handle_item_completed s v =
     (case jget ''item'' v of
        None \<Rightarrow> ([], s)
      | Some item \<Rightarrow>
          (case get_str ''id'' item of
             None \<Rightarrow> ([], s)
           | Some item_id \<Rightarrow>
               let item_type = unwrap_or [] (get_str ''type'' item) in
               if item_type = ''reasoning'' then ([], s)
               else if item_type = ''agent_message''
               then ([text_event ''agent'' (unwrap_or [] (get_str ''text'' item))], s)
               else let (calls, s1) =
                          (if item_id \<notin> cx_tool_call_emitted s
                           then ([tool_call_event item_id item_type (build_tool_input item)],
                                 s \<lparr> cx_tool_call_emitted := insert item_id (cx_tool_call_emitted s) \<rparr>)
                           else ([], s))
                    in (calls @ [(''tool_result'', JObj (jmap_of [(''tool_call_id'', JStr item_id),
                          (''content'', JStr (extract_item_output item))]))], s1)))"

definition handle_turn_completed :: "codex_parser \<Rightarrow> json \<Rightarrow> event list" where
  "handle_turn_completed s v =
     (let model = map_option JStr (cx_last_model s);
          end_payload = opt_insert ''model'' model (jmap_of [(''turn_id'', ju32 (cx_turn_counter s))]);
          usage = (case jget ''usage'' v of
              None \<Rightarrow> []
            | Some usage \<Rightarrow>
                let input_tokens = unwrap_or 0 (get_u64 ''input_tokens'' usage);
                    output_tokens = unwrap_or 0 (get_u64 ''output_tokens'' usage);
                    reasoning_tokens = unwrap_or 0 (get_u64 ''reasoning_output_tokens'' usage);
                    total_output = output_tokens + reasoning_tokens
                in [(''model_usage'', JObj (opt_insert ''cache_read_tokens''
                      (map_option ju64 (get_u64 ''cached_input_tokens'' usage))
                      (opt_insert ''model'' model
                        (jmap_of [(''input_tokens'', ju64 input_tokens),
                                  (''output_tokens'', ju64 total_output)]))))])
      in (''turn_end'', JObj end_payload) # usage)"

definition codex_parse_line :: "json_parser \<Rightarrow> codex_parser \<Rightarrow> string \<Rightarrow> event list \<times> codex_parser" where
  "codex_parse_line parse_json s line =
     (let trimmed = trim line in
      if trimmed = [] then ([], s)
      else case parse_json trimmed of
          None \<Rightarrow> ([text_event ''stdout'' line], s)
        | Some v \<Rightarrow>
            let s1 = (case get_str ''model'' v of Some m \<Rightarrow> s \<lparr> cx_last_model := Some m \<rparr> | None \<Rightarrow> s);
                ty = unwrap_or [] (get_str ''type'' v)
            in if ty = ''thread.started'' then ([text_event ''stdout'' line], s1)
               else if ty = ''turn.started''
               then (let n = cx_turn_counter s1 + 1 in
                     ([turn_start_event n], s1 \<lparr> cx_turn_counter := n \<rparr>))
               else if ty = ''item.started'' then handle_item_started s1 v
               else if ty = ''item.completed'' then handle_item_completed s1 v
               else if ty = ''turn.completed'' then (handle_turn_completed s1 v, s1)
               else ([text_event ''stdout'' line], s1))"

section \<open>The contract\<close>

lemma codex_parse_line_ok: "list_all event_ok (fst (codex_parse_line pj s l))"
  by (simp add: codex_parse_line_def handle_item_started_def handle_item_completed_def
      handle_turn_completed_def Let_def envelope_keys_def split: option.split)

interpretation codex: line_parser "codex_parse_line pj" "\<lambda>s. ([], s)"
  by unfold_locales (simp_all add: codex_parse_line_ok)

section \<open>Pairing of calls and results\<close>

text \<open>The ids of the tool calls of a stream, and: every result has its call before it.\<close>

definition call_ids :: "event list \<Rightarrow> json option list" where
  "call_ids evs = map (\<lambda>(_, p). jget ''tool_call_id'' p) (filter (\<lambda>(ty, _). ty = ''tool_call'') evs)"

fun results_paired :: "json option set \<Rightarrow> event list \<Rightarrow> bool" where
  "results_paired seen [] = True"
| "results_paired seen ((ty, p) # es) =
     ((ty = ''tool_result'' \<longrightarrow> jget ''tool_call_id'' p \<in> seen)
      \<and> results_paired (if ty = ''tool_call'' then insert (jget ''tool_call_id'' p) seen else seen) es)"

lemma call_ids_simps [simp]:
  "call_ids [] = []"
  "call_ids ((ty, p) # es) = (if ty = ''tool_call'' then [jget ''tool_call_id'' p] else []) @ call_ids es"
  "call_ids (xs @ ys) = call_ids xs @ call_ids ys"
  by (simp_all add: call_ids_def)

lemma call_ids_events [simp]:
  "call_ids [text_event a b] = []" "call_ids [turn_start_event k] = []"
  "call_ids (tool_call_event i n v # es) = Some (JStr i) # call_ids es"
  by (simp_all add: text_event_def turn_start_event_def tool_call_event_def)

lemma results_paired_events [simp]:
  "results_paired seen [text_event a b]" "results_paired seen [turn_start_event k]"
  "results_paired seen (tool_call_event i n v # es) = results_paired (insert (Some (JStr i)) seen) es"
  by (simp_all add: text_event_def turn_start_event_def tool_call_event_def)

lemma results_paired_append:
  "results_paired seen (xs @ ys) \<longleftrightarrow>
     results_paired seen xs \<and> results_paired (seen \<union> set (call_ids xs)) ys"
  by (induction seen xs rule: results_paired.induct) (auto simp: insert_commute Un_insert_left)

definition emitted_ids :: "codex_parser \<Rightarrow> json option set" where
  "emitted_ids s = (\<lambda>i. Some (JStr i)) ` cx_tool_call_emitted s"

text \<open>What one line, and a sequence of lines, does to the set of emitted ids.\<close>

definition pairing_step :: "codex_parser \<Rightarrow> event list \<times> codex_parser \<Rightarrow> bool" where
  "pairing_step s r \<longleftrightarrow> (case r of (evs, s') \<Rightarrow>
     distinct (call_ids evs) \<and> set (call_ids evs) \<inter> emitted_ids s = {}
   \<and> emitted_ids s' = emitted_ids s \<union> set (call_ids evs) \<and> results_paired (emitted_ids s) evs)"

lemma item_started_pairing: "pairing_step s (handle_item_started s v)"
  by (auto simp: pairing_step_def handle_item_started_def Let_def emitted_ids_def split: option.split)

lemma item_completed_pairing: "pairing_step s (handle_item_completed s v)"
  by (auto simp: pairing_step_def handle_item_completed_def Let_def emitted_ids_def split: option.split)

lemma turn_completed_pairing: "pairing_step s (handle_turn_completed s v, s)"
  by (simp add: pairing_step_def handle_turn_completed_def Let_def split: option.split)

lemma codex_line_pairing: "pairing_step s (codex_parse_line pj s l)"
proof -
  have model: "pairing_step (s\<lparr>cx_last_model := m\<rparr>) r \<Longrightarrow> pairing_step s r" for m r
    by (simp add: pairing_step_def emitted_ids_def)
  have quiet: "pairing_step s ([], s')" "pairing_step s ([text_event a b], s')"
    "pairing_step s ([turn_start_event k], s')"
    if "cx_tool_call_emitted s' = cx_tool_call_emitted s" for s' a b k
    using that by (simp_all add: pairing_step_def emitted_ids_def)
  note ev = item_started_pairing item_completed_pairing turn_completed_pairing
    model [OF item_started_pairing] model [OF item_completed_pairing] model [OF turn_completed_pairing]
  show ?thesis
    by (simp add: codex_parse_line_def Let_def quiet ev split: option.split)
qed

lemma codex_lines_pairing: "pairing_step s (parse_lines (codex_parse_line pj) s ls)"
proof (induction ls arbitrary: s)
  case Nil
  then show ?case by (simp add: pairing_step_def)
next
  case (Cons l ls)
  obtain e1 s1 where 1: "codex_parse_line pj s l = (e1, s1)" by fastforce
  obtain e2 s2 where 2: "parse_lines (codex_parse_line pj) s1 ls = (e2, s2)" by fastforce
  show ?case
    using codex_line_pairing [of s pj l] Cons.IH [of s1] 1 2
    by (auto simp: pairing_step_def results_paired_append Un_assoc)
qed

section \<open>Properties\<close>

text \<open>C26: whatever codex prints (an item with or without its start line, repeated lines,
  lines that are not JSON), the events are well formed, no tool call id is announced twice,
  and every tool result comes after the tool call of its id.\<close>

theorem codex_calls_and_results_pair_up:
  "case parse_lines (codex_parse_line pj) codex_new ls of (evs, s) \<Rightarrow>
     list_all event_ok evs \<and> distinct (call_ids evs) \<and> results_paired {} evs
   \<and> set (call_ids evs) = (\<lambda>i. Some (JStr i)) ` cx_tool_call_emitted s"
  using codex_lines_pairing [of codex_new pj ls] codex.parse_lines_ok [of pj codex_new ls]
  by (cases "parse_lines (codex_parse_line pj) codex_new ls")
    (simp add: pairing_step_def emitted_ids_def codex_new_def)

end
