(* ===== verification/PiAdapter.thy ===== *)
theory PiAdapter
  imports AgentEvents
begin

text \<open>
  \<open>bunsen-core/src/pi_adapter.rs\<close>: pi's JSONL to events, with the usage accumulated over the
  session, and the egress endpoints inferred from the command line. Printing a JSON value
  (\<open>serde_json::to_string\<close>) is the parameter \<open>to_text\<close>. The token counters are 64-bit and
  wrap around.
\<close>

record session_accumulator =
  sa_input_tokens :: u64
  sa_output_tokens :: u64
  sa_cache_read_tokens :: u64
  sa_cache_write_tokens :: u64
  sa_cost_usd :: f64
  sa_model :: "string option"

record pi_parser =
  pi_turn_counter :: u32
  pi_accumulator :: session_accumulator

definition pi_new :: pi_parser where
  "pi_new = \<lparr> pi_turn_counter = 0, pi_accumulator =
     \<lparr> sa_input_tokens = 0, sa_output_tokens = 0, sa_cache_read_tokens = 0, sa_cache_write_tokens = 0,
       sa_cost_usd = 0, sa_model = None \<rparr> \<rparr>"

definition parse_tool_execution_start :: "json \<Rightarrow> event list" where
  "parse_tool_execution_start v =
     (case (get_str ''toolCallId'' v, get_str ''toolName'' v) of
        (Some i, Some n) \<Rightarrow> [tool_call_event i n (unwrap_or JNull (jget ''args'' v))]
      | _ \<Rightarrow> [])"

definition parse_tool_execution_end :: "(json \<Rightarrow> string) \<Rightarrow> json \<Rightarrow> event list" where
  "parse_tool_execution_end to_text v =
     (case get_str ''toolCallId'' v of
        None \<Rightarrow> []
      | Some i \<Rightarrow>
          let content = (case jget ''result'' v of
                 Some (JStr t) \<Rightarrow> t | Some other \<Rightarrow> to_text other | None \<Rightarrow> []);
              is_error = unwrap_or False (Option.bind (jget ''isError'' v) as_bool)
          in [(''tool_result'', JObj (jmap_of [(''tool_call_id'', JStr i), (''content'', JStr content),
                (''is_error'', JBool is_error)]))])"

definition parse_turn_end :: "float_ops \<Rightarrow> pi_parser \<Rightarrow> json \<Rightarrow> event list \<times> pi_parser" where
  "parse_turn_end F s v =
     (let message = jget ''message'' v;
          model = Option.bind message (get_str ''model'');
          stop_reason = Option.bind message (get_str ''stopReason'');
          end_payload = opt_insert ''stop_reason'' (map_option JStr stop_reason)
            (opt_insert ''model'' (map_option JStr model) (jmap_of [(''turn_id'', ju32 (pi_turn_counter s))]));
          turn_end = (''turn_end'', JObj end_payload)
      in case Option.bind message (jget ''usage'') of
           None \<Rightarrow> ([turn_end], s)
         | Some usage \<Rightarrow>
             let input = unwrap_or 0 (get_u64 ''input'' usage);
                 output = unwrap_or 0 (get_u64 ''output'' usage);
                 cache_read = unwrap_or 0 (get_u64 ''cacheRead'' usage);
                 cache_write = unwrap_or 0 (get_u64 ''cacheWrite'' usage);
                 cost = Option.bind (Option.bind (jget ''cost'' usage) (jget ''total'')) (as_f64 F);
                 a = pi_accumulator s;
                 a' = a \<lparr> sa_input_tokens := sa_input_tokens a + input,
                          sa_output_tokens := sa_output_tokens a + output,
                          sa_cache_read_tokens := sa_cache_read_tokens a + cache_read,
                          sa_cache_write_tokens := sa_cache_write_tokens a + cache_write,
                          sa_cost_usd := (case cost of Some c \<Rightarrow> f64_add F (sa_cost_usd a) c
                                          | None \<Rightarrow> sa_cost_usd a),
                          sa_model := (case model of Some m \<Rightarrow> Some m | None \<Rightarrow> sa_model a) \<rparr>;
                 payload = opt_insert ''cost_usd'' (map_option jf64 cost)
                   (opt_insert ''model'' (map_option JStr model)
                     (jmap_of [(''input_tokens'', ju64 input), (''output_tokens'', ju64 output),
                               (''cache_read_tokens'', ju64 cache_read),
                               (''cache_write_tokens'', ju64 cache_write)]))
             in ([turn_end, (''model_usage'', JObj payload)], s \<lparr> pi_accumulator := a' \<rparr>))"

definition emit_session_usage :: "pi_parser \<Rightarrow> event list" where
  "emit_session_usage s =
     (let a = pi_accumulator s in
      [(''model_usage'', JObj (opt_insert ''model'' (map_option JStr (sa_model a))
         (jmap_of [(''input_tokens'', ju64 (sa_input_tokens a)),
                   (''output_tokens'', ju64 (sa_output_tokens a)),
                   (''cache_read_tokens'', ju64 (sa_cache_read_tokens a)),
                   (''cache_write_tokens'', ju64 (sa_cache_write_tokens a)),
                   (''cost_usd'', jf64 (sa_cost_usd a))])))])"

definition pi_passthrough :: "string list" where
  "pi_passthrough = [''compaction_start'', ''compaction_end'', ''auto_retry_start'', ''auto_retry_end'',
     ''queue_update'']"

definition pi_parse_line ::
  "json_parser \<Rightarrow> (json \<Rightarrow> string) \<Rightarrow> float_ops \<Rightarrow> pi_parser \<Rightarrow> string \<Rightarrow> event list \<times> pi_parser" where
  "pi_parse_line parse_json to_text F s line =
     (let trimmed = trim line in
      if trimmed = [] then ([], s)
      else case parse_json trimmed of
          None \<Rightarrow> ([text_event ''stdout'' line], s)
        | Some v \<Rightarrow>
            let ty = unwrap_or [] (get_str ''type'' v) in
            if ty = ''turn_start''
            then (let n = pi_turn_counter s + 1 in ([turn_start_event n], s \<lparr> pi_turn_counter := n \<rparr>))
            else if ty = ''tool_execution_start'' then (parse_tool_execution_start v, s)
            else if ty = ''tool_execution_end'' then (parse_tool_execution_end to_text v, s)
            else if ty = ''turn_end'' then parse_turn_end F s v
            else if ty = ''agent_end'' then (emit_session_usage s, s)
            else if ty \<in> set pi_passthrough then ([text_event ''stdout'' trimmed], s)
            else ([], s))"

text \<open>The endpoints for a command line.\<close>

fun extract_flag_value :: "string list \<Rightarrow> string \<Rightarrow> string option" where
  "extract_flag_value [] flag = None"
| "extract_flag_value (arg # rest) flag =
     (if arg = flag then (case rest of [] \<Rightarrow> None | v # _ \<Rightarrow> Some v)
      else extract_flag_value rest flag)"

definition egress_endpoints_for_cmd :: "string list \<Rightarrow> string list" where
  "egress_endpoints_for_cmd cmd =
     (let provider = (case extract_flag_value cmd ''--model'' of
            Some m \<Rightarrow> (case split_once (CHR ''/'') m of
                Some (pre, _) \<Rightarrow> Some pre
              | None \<Rightarrow> extract_flag_value cmd ''--provider'')
          | None \<Rightarrow> extract_flag_value cmd ''--provider'')
      in case map_option ascii_lower provider of
           None \<Rightarrow> []
         | Some p \<Rightarrow>
             if p = ''anthropic'' then [''api.anthropic.com'']
             else if p \<in> {''openai'', ''openai-codex'', ''azure-openai-responses''} then [''api.openai.com'']
             else if p \<in> {''google'', ''google-vertex''} then [''generativelanguage.googleapis.com'']
             else [])"

section \<open>The contract\<close>

lemma pi_usage_ok [simp]:
  "event_ok (''model_usage'', JObj (jmap_of [(''input_tokens'', a), (''output_tokens'', b),
     (''cache_read_tokens'', c), (''cache_write_tokens'', d)]))"
  "event_ok (''model_usage'', JObj (jmap_of [(''input_tokens'', a), (''output_tokens'', b),
     (''cache_read_tokens'', c), (''cache_write_tokens'', d), (''cost_usd'', e)]))"
  by (simp_all add: event_ok_def payload_ok_JObj envelope_keys_def required_keys_def)

lemma parse_turn_end_ok: "list_all event_ok (fst (parse_turn_end F s v))"
  by (simp add: parse_turn_end_def Let_def envelope_keys_def split: option.split)

lemma pi_parse_line_ok: "list_all event_ok (fst (pi_parse_line pj tt F s l))"
  by (simp add: pi_parse_line_def parse_tool_execution_start_def parse_tool_execution_end_def
      emit_session_usage_def parse_turn_end_ok Let_def envelope_keys_def split: option.split)

interpretation pi_ad: line_parser "pi_parse_line pj tt F" "\<lambda>s. ([], s)"
  by unfold_locales (simp_all add: pi_parse_line_ok)

section \<open>Totals\<close>

definition usage_total :: "string \<Rightarrow> event list \<Rightarrow> u64" where
  "usage_total k evs = sum_list (map (\<lambda>(ty, p).
     if ty = ''model_usage'' then unwrap_or 0 (get_u64 k p) else 0) evs)"

lemma usage_total_simps [simp]:
  "usage_total k [] = 0" "usage_total k (xs @ ys) = usage_total k xs + usage_total k ys"
  "usage_total k (text_event a b # es) = usage_total k es"
  "usage_total k (turn_start_event c # es) = usage_total k es"
  "usage_total k (tool_call_event i n v # es) = usage_total k es"
  by (simp_all add: usage_total_def text_event_def turn_start_event_def tool_call_event_def)

lemma usage_total_Cons:
  "usage_total k ((ty, p) # es) =
     (if ty = ''model_usage'' then unwrap_or 0 (get_u64 k p) else 0) + usage_total k es"
  by (simp add: usage_total_def)

definition usage_keys :: "string list" where
  "usage_keys = [''input_tokens'', ''output_tokens'', ''cache_read_tokens'', ''cache_write_tokens'']"

definition acc_total :: "string \<Rightarrow> session_accumulator \<Rightarrow> u64" where
  "acc_total k a =
     (if k = ''input_tokens'' then sa_input_tokens a
      else if k = ''output_tokens'' then sa_output_tokens a
      else if k = ''cache_read_tokens'' then sa_cache_read_tokens a
      else sa_cache_write_tokens a)"

lemma turn_end_totals:
  "k \<in> set usage_keys \<Longrightarrow>
   acc_total k (pi_accumulator (snd (parse_turn_end F s v))) =
     acc_total k (pi_accumulator s) + usage_total k (fst (parse_turn_end F s v))"
  by (auto simp: usage_keys_def acc_total_def parse_turn_end_def Let_def usage_total_Cons get_u64_def
      split: option.split)

definition is_agent_end :: "json_parser \<Rightarrow> string \<Rightarrow> bool" where
  "is_agent_end pj l \<longleftrightarrow> trim l \<noteq> [] \<and>
     (case pj (trim l) of None \<Rightarrow> False | Some v \<Rightarrow> get_str ''type'' v = Some ''agent_end'')"

lemma pi_line_totals:
  assumes "\<not> is_agent_end pj l" "k \<in> set usage_keys"
  shows "acc_total k (pi_accumulator (snd (pi_parse_line pj tt F s l))) =
    acc_total k (pi_accumulator s) + usage_total k (fst (pi_parse_line pj tt F s l))"
proof (cases "trim l = [] \<or> pj (trim l) = None")
  case True
  then show ?thesis by (auto simp: pi_parse_line_def Let_def)
next
  case False
  then obtain v where v: "trim l \<noteq> []" "pj (trim l) = Some v" by auto
  with assms(1) have "unwrap_or [] (get_str ''type'' v) \<noteq> ''agent_end''"
    by (auto simp: is_agent_end_def unwrap_or_def split: option.splits)
  then show ?thesis
    using v turn_end_totals [OF assms(2), of F s v]
    by (simp add: pi_parse_line_def Let_def parse_tool_execution_start_def
        parse_tool_execution_end_def usage_total_Cons split: option.split)
qed

lemma pi_lines_totals:
  "\<forall>l \<in> set ls. \<not> is_agent_end pj l \<Longrightarrow> k \<in> set usage_keys \<Longrightarrow>
   acc_total k (pi_accumulator (snd (parse_lines (pi_parse_line pj tt F) s ls))) =
     acc_total k (pi_accumulator s) + usage_total k (fst (parse_lines (pi_parse_line pj tt F) s ls))"
proof (induction ls arbitrary: s)
  case (Cons l ls)
  obtain e1 s1 where 1: "pi_parse_line pj tt F s l = (e1, s1)" by fastforce
  obtain e2 s2 where 2: "parse_lines (pi_parse_line pj tt F) s1 ls = (e2, s2)" by fastforce
  show ?case
    using pi_line_totals [of pj l k tt F s] Cons.IH [of s1] Cons.prems 1 2 by (simp add: add.assoc)
qed simp

lemma session_usage_total: "k \<in> set usage_keys \<Longrightarrow>
  usage_total k (emit_session_usage s) = acc_total k (pi_accumulator s)"
  by (auto simp: usage_keys_def acc_total_def emit_session_usage_def Let_def usage_total_Cons get_u64_def)

lemma acc_total_new: "acc_total k (pi_accumulator pi_new) = 0"
  by (simp add: pi_new_def acc_total_def)

section \<open>Properties\<close>

text \<open>The session total is the sum of the turns. When pi's \<open>agent_end\<close> follows any lines
  that are not \<open>agent_end\<close>, it is reported as one \<open>model_usage\<close> event whose four token counts
  are the sums (modulo 2 to the 64) of those of all \<open>model_usage\<close> events before it; all events
  are well formed.\<close>

theorem pi_session_usage_is_the_sum:
  assumes "\<forall>l \<in> set ls. \<not> is_agent_end pj l" and "is_agent_end pj l_end"
  shows "case parse_lines (pi_parse_line pj tt F) pi_new ls of (evs, s) \<Rightarrow>
    list_all event_ok evs
    \<and> (\<exists>p. pi_parse_line pj tt F s l_end = ([(''model_usage'', p)], s) \<and> event_ok (''model_usage'', p)
        \<and> (\<forall>k \<in> set usage_keys. usage_total k [(''model_usage'', p)] = usage_total k evs))"
proof -
  obtain evs s where r: "parse_lines (pi_parse_line pj tt F) pi_new ls = (evs, s)" by fastforce
  obtain p where p: "emit_session_usage s = [(''model_usage'', p)]"
    by (simp add: emit_session_usage_def Let_def)
  have e: "pi_parse_line pj tt F s l_end = (emit_session_usage s, s)"
    using assms(2) by (auto simp: is_agent_end_def pi_parse_line_def split: option.splits)
  have "usage_total k (emit_session_usage s) = usage_total k evs" if "k \<in> set usage_keys" for k
    using session_usage_total [OF that, of s] pi_lines_totals [OF assms(1) that, of tt F pi_new] r
    by (simp add: acc_total_new)
  moreover have "event_ok (''model_usage'', p)"
    using pi_parse_line_ok [of pj tt F s l_end] e p by simp
  ultimately show ?thesis
    using r p e pi_ad.parse_lines_ok [of pj tt F pi_new ls] by simp
qed

definition sample_pj :: json_parser where
  "sample_pj t =
     (if t = ''end'' then Some (JObj [(''type'', JStr ''agent_end'')])
      else if t = ''turn'' then Some (JObj [(''message'', JObj [(''usage'', JObj [(''input'', ju64 5)])]),
        (''type'', JStr ''turn_end'')])
      else None)"

theorem pi_session_usage_is_the_sum_witness:
  "\<forall>F. case parse_lines (pi_parse_line sample_pj (\<lambda>_. []) F) pi_new [''turn'', ''x'', ''turn''] of (evs, s) \<Rightarrow>
    (\<exists>p. pi_parse_line sample_pj (\<lambda>_. []) F s ''end'' = ([(''model_usage'', p)], s)
      \<and> usage_total ''input_tokens'' [(''model_usage'', p)] = 10)"
proof
  fix F
  have no: "\<forall>l \<in> set [''turn'', ''x'', ''turn'']. \<not> is_agent_end sample_pj l"
    by code_simp
  have en: "is_agent_end sample_pj ''end''" by code_simp
  have t: "trim ''turn'' = ''turn''" "trim ''x'' = ''x''" by code_simp+
  have "usage_total ''input_tokens'' (fst (parse_lines (pi_parse_line sample_pj (\<lambda>_. []) F) pi_new
      [''turn'', ''x'', ''turn''])) = 10"
    by (simp add: pi_parse_line_def t sample_pj_def get_str_def parse_turn_end_def Let_def
        usage_total_Cons get_u64_def split: prod.split)
  then show "case parse_lines (pi_parse_line sample_pj (\<lambda>_. []) F) pi_new [''turn'', ''x'', ''turn''] of (evs, s) \<Rightarrow>
    (\<exists>p. pi_parse_line sample_pj (\<lambda>_. []) F s ''end'' = ([(''model_usage'', p)], s)
      \<and> usage_total ''input_tokens'' [(''model_usage'', p)] = 10)"
    using pi_session_usage_is_the_sum [OF no en, of "\<lambda>_. []" F]
    by (auto simp: usage_keys_def split: prod.splits)
qed

end
