(* ===== verification/AiderAdapter.thy ===== *)
theory AiderAdapter
  imports AgentEvents
begin

text \<open>
  \<open>bunsen-core/src/aider_adapter.rs\<close>: aider's plain-text output to events. Floating-point
  parsing and the scaled rounding of token counts are the \<open>float_ops\<close> parameter. The
  theorems show that turns are bracketed once the parser is flushed, and that every token
  report becomes one usage event unless a malformed cost line follows it.
\<close>

definition aider_endpoints_for_model :: "string \<Rightarrow> string list" where
  "aider_endpoints_for_model model =
     (let m = ascii_lower model in
      if prefix ''claude-'' m \<or> prefix ''anthropic/'' m then [''api.anthropic.com'']
      else if prefix ''gpt-'' m \<or> prefix ''o1'' m \<or> prefix ''o3'' m \<or> prefix ''openai/'' m
      then [''api.openai.com'']
      else if prefix ''gemini-'' m \<or> prefix ''gemini/'' m then [''generativelanguage.googleapis.com'']
      else [])"

fun extract_model_from_cmd :: "string list \<Rightarrow> string option" where
  "extract_model_from_cmd [] = None"
| "extract_model_from_cmd (arg # rest) =
     (case strip_prefix ''--model='' arg of
        Some v \<Rightarrow> if v \<noteq> [] then Some v else extract_model_from_cmd rest
      | None \<Rightarrow>
          if arg = ''--model''
          then (case rest of [] \<Rightarrow> None | v # _ \<Rightarrow> Some v)
          else extract_model_from_cmd rest)"

record pending_usage =
  pu_input_tokens :: u64
  pu_output_tokens :: u64

record aider_parser =
  ai_turn_counter :: u32
  ai_in_turn :: bool
  ai_last_model :: "string option"
  ai_pending_usage :: "pending_usage option"

definition aider_new :: aider_parser where
  "aider_new = \<lparr> ai_turn_counter = 0, ai_in_turn = False, ai_last_model = None, ai_pending_usage = None \<rparr>"

definition turn_end_event :: "u32 \<Rightarrow> string option \<Rightarrow> event" where
  "turn_end_event n model =
     (''turn_end'', JObj (opt_insert ''model'' (map_option JStr model) (jmap_of [(''turn_id'', ju32 n)])))"

definition build_model_usage :: "pending_usage option \<Rightarrow> f64 option \<Rightarrow> string option \<Rightarrow> json" where
  "build_model_usage pending cost_usd model =
     (let (input, output) = (case pending of None \<Rightarrow> (0, 0)
            | Some p \<Rightarrow> (pu_input_tokens p, pu_output_tokens p))
      in JObj (opt_insert ''cost_usd'' (map_option jf64 cost_usd)
           (opt_insert ''model'' (map_option JStr model)
             (jmap_of [(''input_tokens'', ju64 input), (''output_tokens'', ju64 output)]))))"

definition parse_token_count :: "float_ops \<Rightarrow> string \<Rightarrow> u64 option" where
  "parse_token_count F s =
     (let cleaned = filter (\<lambda>c. c \<noteq> CHR '','') s in
      if cleaned = [] then None
      else let (num_str, mult) =
             (if last cleaned = CHR ''k'' \<or> last cleaned = CHR ''K'' then (butlast cleaned, 1000)
              else if last cleaned = CHR ''m'' \<or> last cleaned = CHR ''M'' then (butlast cleaned, 1000000)
              else (cleaned, 1))
           in map_option (\<lambda>x. f64_scale_round F x mult) (f64_parse F num_str))"

definition parse_tokens_line :: "float_ops \<Rightarrow> string \<Rightarrow> pending_usage option" where
  "parse_tokens_line F line =
     Option.bind (strip_prefix ''Tokens:'' line) (\<lambda>rest0.
     Option.bind (split_once (CHR '','') (trim rest0)) (\<lambda>(sent_part, recv_part).
     Option.bind (strip_suffix ''sent'' (trim sent_part)) (\<lambda>sent0.
     Option.bind (strip_suffix ''received'' (trim_end_matches (\<lambda>c. c = CHR ''.'') (trim recv_part))) (\<lambda>recv0.
     Option.bind (parse_token_count F (trim sent0)) (\<lambda>input.
     Option.bind (parse_token_count F (trim recv0)) (\<lambda>output.
     Some \<lparr> pu_input_tokens = input, pu_output_tokens = output \<rparr>))))))"

definition parse_cost_line :: "float_ops \<Rightarrow> string \<Rightarrow> f64 option" where
  "parse_cost_line F line =
     Option.bind (strip_prefix ''Cost:'' line) (\<lambda>rest0.
     Option.bind (strip_prefix [CHR 0x24] (trim rest0)) (\<lambda>dollar.
     Option.bind (split_once (CHR '' '') dollar) (\<lambda>(amount, _). f64_parse F amount)))"

text \<open>Closing the open turn, and \<open>flush_pending_usage\<close>.\<close>

definition close_turn :: "aider_parser \<Rightarrow> event list \<times> aider_parser" where
  "close_turn s =
     (if ai_in_turn s
      then ([turn_end_event (ai_turn_counter s) (ai_last_model s)], s \<lparr> ai_in_turn := False \<rparr>)
      else ([], s))"

definition flush_pending_usage :: "aider_parser \<Rightarrow> event list \<times> aider_parser" where
  "flush_pending_usage s =
     (case ai_pending_usage s of
        None \<Rightarrow> ([], s)
      | Some pending \<Rightarrow>
          let (evs, s1) = close_turn (s \<lparr> ai_pending_usage := None \<rparr>)
          in (evs @ [(''model_usage'', build_model_usage (Some pending) None (ai_last_model s1))], s1))"

definition aider_flush :: "aider_parser \<Rightarrow> event list \<times> aider_parser" where
  "aider_flush s =
     (let (e1, s1) = flush_pending_usage s; (e2, s2) = close_turn s1 in (e1 @ e2, s2))"

text \<open>The part of \<open>parse_line\<close> behind the flush of pending usage.\<close>

definition aider_line_body ::
  "float_ops \<Rightarrow> aider_parser \<Rightarrow> string \<Rightarrow> string \<Rightarrow> event list \<times> aider_parser" where
  "aider_line_body F s trimmed_nl trimmed =
     (case strip_prefix ''Main model:'' trimmed of
        Some rest \<Rightarrow>
          (let s1 = (case split_whitespace rest of
                 [] \<Rightarrow> s | model # _ \<Rightarrow> s \<lparr> ai_last_model := Some model \<rparr>)
           in ([text_event ''stdout'' trimmed_nl], s1))
      | None \<Rightarrow>
          if prefix ''>'' trimmed \<and> \<not> prefix ''>>'' trimmed
          then let (e1, s1) = close_turn s;
                   n = ai_turn_counter s1 + 1
               in (e1 @ [turn_start_event n, text_event ''stdout'' trimmed_nl],
                   s1 \<lparr> ai_turn_counter := n, ai_in_turn := True \<rparr>)
          else (case parse_tokens_line F trimmed of
              Some usage \<Rightarrow> ([], s \<lparr> ai_pending_usage := Some usage \<rparr>)
            | None \<Rightarrow>
                if prefix ''Cost:'' trimmed
                then let cost = parse_cost_line F trimmed;
                         pending = ai_pending_usage s;
                         s1 = s \<lparr> ai_pending_usage := None \<rparr>
                     in case (cost, pending) of
                          (Some c, Some p) \<Rightarrow>
                            (let (e1, s2) = close_turn s1
                             in (e1 @ [(''model_usage'', build_model_usage (Some p) (Some c) (ai_last_model s2))], s2))
                        | _ \<Rightarrow> ([text_event ''stdout'' trimmed_nl], s1)
                else ([text_event ''stdout'' trimmed_nl], s)))"

definition aider_parse_line :: "float_ops \<Rightarrow> aider_parser \<Rightarrow> string \<Rightarrow> event list \<times> aider_parser" where
  "aider_parse_line F s line =
     (let trimmed_nl = trim_end_matches (\<lambda>c. c = LF \<or> c = CR) line;
          trimmed = trim trimmed_nl
      in if trimmed = [] then ([], s)
         else let (e1, s1) = (if prefix ''Cost:'' trimmed then ([], s) else flush_pending_usage s);
                  (e2, s2) = aider_line_body F s1 trimmed_nl trimmed
              in (e1 @ e2, s2))"

section \<open>The contract\<close>

lemma turn_end_event_ok [simp]: "event_ok (turn_end_event n m)"
  by (simp add: turn_end_event_def envelope_keys_def)

lemma build_model_usage_ok [simp]: "event_ok (''model_usage'', build_model_usage p c m)"
  by (simp add: build_model_usage_def envelope_keys_def split: option.split)

definition close_events :: "aider_parser \<Rightarrow> event list" where
  "close_events s =
     (if ai_in_turn s then [turn_end_event (ai_turn_counter s) (ai_last_model s)] else [])"

lemma close_turn_eq: "close_turn s = (close_events s, s \<lparr> ai_in_turn := False \<rparr>)"
  by (simp add: close_turn_def close_events_def)

lemma close_events_ok [simp]: "list_all event_ok (close_events s)"
  by (simp add: close_events_def)

lemma flush_pending_eq:
  "flush_pending_usage s =
     (case ai_pending_usage s of
        None \<Rightarrow> ([], s)
      | Some p \<Rightarrow> (close_events s @ [(''model_usage'', build_model_usage (Some p) None (ai_last_model s))],
                  s \<lparr> ai_in_turn := False, ai_pending_usage := None \<rparr>))"
  by (simp add: flush_pending_usage_def close_turn_eq close_events_def split: option.split)

lemma flush_pending_ok [simp]: "list_all event_ok (fst (flush_pending_usage s))"
  by (simp add: flush_pending_eq split: option.split)

lemma aider_flush_ok: "list_all event_ok (fst (aider_flush s))"
  by (simp add: aider_flush_def flush_pending_eq close_turn_eq split: option.split)

lemma aider_line_body_ok [simp]: "list_all event_ok (fst (aider_line_body F s nl t))"
  by (simp add: aider_line_body_def Let_def close_turn_eq split: option.split)

lemma aider_parse_line_eq:
  "aider_parse_line F s line =
     (let trimmed_nl = trim_end_matches (\<lambda>c. c = LF \<or> c = CR) line;
          trimmed = trim trimmed_nl;
          r1 = (if prefix ''Cost:'' trimmed then ([], s) else flush_pending_usage s);
          r2 = aider_line_body F (snd r1) trimmed_nl trimmed
      in if trimmed = [] then ([], s) else (fst r1 @ fst r2, snd r2))"
  by (simp add: aider_parse_line_def Let_def split: prod.split)

lemma aider_parse_line_ok: "list_all event_ok (fst (aider_parse_line F s l))"
  by (simp add: aider_parse_line_eq Let_def)

interpretation aider: line_parser "aider_parse_line F" aider_flush
  by unfold_locales (simp_all add: aider_parse_line_ok aider_flush_ok)

section \<open>Turns\<close>

definition open_trace :: "aider_parser \<Rightarrow> (string \<times> json option) list" where
  "open_trace s = (if ai_in_turn s then [(''turn_end'', Some (ju32 (ai_turn_counter s)))] else [])"

text \<open>A step from \<open>s\<close>: the turn events, with the end that is still owed, extend the end owed
  before by complete turns.\<close>

definition turns_step :: "aider_parser \<Rightarrow> event list \<times> aider_parser \<Rightarrow> nat \<Rightarrow> bool" where
  "turns_step s r n \<longleftrightarrow> turn_trace (fst r) @ open_trace (snd r) = open_trace s @ brackets (ai_turn_counter s) n
     \<and> ai_turn_counter (snd r) = ai_turn_counter s + word_of_nat n"

lemma turn_trace_close [simp]: "turn_trace (close_events s) = open_trace s"
  by (simp add: close_events_def open_trace_def turn_end_event_def turn_trace_Cons)

lemma turn_trace_usage [simp]: "turn_trace ((''model_usage'', p) # es) = turn_trace es"
  by (simp add: turn_trace_Cons)

lemma open_trace_update [simp]:
  "open_trace (s\<lparr>ai_in_turn := False\<rparr>) = []" "open_trace (s\<lparr>ai_pending_usage := q\<rparr>) = open_trace s"
  "open_trace (s\<lparr>ai_last_model := m\<rparr>) = open_trace s"
  "open_trace (s\<lparr>ai_in_turn := False, ai_pending_usage := q\<rparr>) = []"
  by (simp_all add: open_trace_def)

lemma close_events_update [simp]:
  "turn_trace (close_events (s\<lparr>ai_pending_usage := q\<rparr>)) = open_trace s"
  by simp

lemma turns_step_trans:
  "turns_step s (e1, s1) m \<Longrightarrow> turns_step s1 (e2, s2) n \<Longrightarrow> turns_step s (e1 @ e2, s2) (m + n)"
  unfolding turns_step_def
  by (simp add: brackets_append)

lemma flush_pending_turns: "turns_step s (flush_pending_usage s) 0"
  by (simp add: turns_step_def flush_pending_eq split: option.split)

lemma line_body_turns: "\<exists>n \<le> 1. turns_step s (aider_line_body F s nl t) n"
proof (cases "strip_prefix ''Main model:'' t = None \<and> prefix ''>'' t \<and> \<not> prefix ''>>'' t")
  case True
  then show ?thesis
    by (intro exI [of _ 1])
      (simp add: turns_step_def aider_line_body_def close_turn_eq Let_def turn_pair_def open_trace_def)
next
  case False
  then have "turns_step s (aider_line_body F s nl t) 0"
    by (auto simp: turns_step_def aider_line_body_def close_turn_eq Let_def split: option.split list.split)
  then show ?thesis by blast
qed

lemma aider_line_turns: "\<exists>n \<le> 1. turns_step s (aider_parse_line F s l) n"
proof -
  define nl where "nl = trim_end_matches (\<lambda>c. c = LF \<or> c = CR) l"
  define r where "r = (if prefix ''Cost:'' (trim nl) then ([], s) else flush_pending_usage s)"
  have 1: "turns_step s (fst r, snd r) 0"
    using flush_pending_turns [of s] by (simp add: r_def turns_step_def)
  obtain n where 2: "n \<le> 1" "turns_step (snd r) (aider_line_body F (snd r) nl (trim nl)) n"
    using line_body_turns by blast
  show ?thesis
  proof (cases "trim nl = []")
    case True
    then have "aider_parse_line F s l = ([], s)" by (simp add: aider_parse_line_eq Let_def nl_def)
    then show ?thesis by (intro exI [of _ 0]) (simp add: turns_step_def)
  next
    case False
    then have "aider_parse_line F s l = (fst r @ fst (aider_line_body F (snd r) nl (trim nl)),
        snd (aider_line_body F (snd r) nl (trim nl)))"
      by (simp add: aider_parse_line_eq Let_def nl_def r_def)
    then show ?thesis
      using turns_step_trans [OF 1, of "fst (aider_line_body F (snd r) nl (trim nl))" _ n] 2 by auto
  qed
qed

lemma aider_lines_turns:
  "\<exists>n \<le> length ls. turns_step s (parse_lines (aider_parse_line F) s ls) n"
proof (induction ls arbitrary: s)
  case Nil
  then show ?case by (simp add: turns_step_def)
next
  case (Cons l ls)
  obtain e1 s1 where 1: "aider_parse_line F s l = (e1, s1)" by fastforce
  obtain e2 s2 where 2: "parse_lines (aider_parse_line F) s1 ls = (e2, s2)" by fastforce
  obtain m n where "m \<le> 1" "turns_step s (e1, s1) m" "n \<le> length ls" "turns_step s1 (e2, s2) n"
    using aider_line_turns [of s F l] Cons.IH [of s1] 1 2 by auto
  then show ?case
    using turns_step_trans 1 2 by (intro exI [of _ "m + n"]) auto
qed

section \<open>Usage reports\<close>

definition line_text :: "string \<Rightarrow> string" where
  "line_text l = trim (trim_end_matches (\<lambda>c. c = LF \<or> c = CR) l)"

definition is_tokens_line :: "float_ops \<Rightarrow> string \<Rightarrow> bool" where
  "is_tokens_line F l \<longleftrightarrow> parse_tokens_line F (line_text l) \<noteq> None"

definition is_bad_cost_line :: "float_ops \<Rightarrow> string \<Rightarrow> bool" where
  "is_bad_cost_line F l \<longleftrightarrow> prefix ''Cost:'' (line_text l) \<and> parse_cost_line F (line_text l) = None"

definition usage_count :: "event list \<Rightarrow> nat" where
  "usage_count evs = length (filter (\<lambda>(ty, _). ty = ''model_usage'') evs)"

definition owed :: "aider_parser \<Rightarrow> nat" where
  "owed s = (if ai_pending_usage s = None then 0 else 1)"

lemma usage_count_simps [simp]:
  "usage_count [] = 0" "usage_count (xs @ ys) = usage_count xs + usage_count ys"
  "usage_count ((''model_usage'', p) # es) = Suc (usage_count es)"
  "usage_count (text_event a b # es) = usage_count es"
  "usage_count (turn_start_event n # es) = usage_count es"
  "usage_count (close_events s) = 0"
  by (simp_all add: usage_count_def text_event_def turn_start_event_def close_events_def turn_end_event_def)

lemma tokens_line_shape:
  assumes "parse_tokens_line F t = Some u"
  shows "strip_prefix ''Main model:'' t = None" "\<not> prefix ''>'' t" "\<not> prefix ''Cost:'' t"
proof -
  obtain r where "t = ''Tokens:'' @ r"
    using assms by (auto simp: parse_tokens_line_def strip_prefix_Some bind_eq_Some_conv)
  then show "strip_prefix ''Main model:'' t = None" "\<not> prefix ''>'' t" "\<not> prefix ''Cost:'' t"
    by (simp_all add: strip_prefix_def)
qed

lemma flush_pending_usage_count:
  "usage_count (fst (flush_pending_usage s)) = owed s \<and> owed (snd (flush_pending_usage s)) = 0"
  by (auto simp: flush_pending_eq owed_def split: option.split)

lemma line_body_usage:
  assumes "\<not> (prefix ''Cost:'' t \<and> parse_cost_line F t = None)"
    "\<not> prefix ''Cost:'' t \<Longrightarrow> ai_pending_usage s = None"
  shows "usage_count (fst (aider_line_body F s nl t)) + owed (snd (aider_line_body F s nl t)) =
    owed s + (if parse_tokens_line F t = None then 0 else 1)"
proof (cases "parse_tokens_line F t")
  case (Some u)
  then show ?thesis
    using tokens_line_shape [OF Some] assms(2) by (simp add: aider_line_body_def owed_def)
next
  case None
  have "strip_prefix ''Main model:'' t = None \<and> \<not> prefix ''>'' t" if "prefix ''Cost:'' t"
    using that by (auto simp: strip_prefix_def prefix_def)
  with None assms show ?thesis
    by (auto simp: aider_line_body_def owed_def close_turn_eq Let_def split: option.split list.split)
qed

lemma aider_line_usage:
  assumes "\<not> is_bad_cost_line F l"
  shows "usage_count (fst (aider_parse_line F s l)) + owed (snd (aider_parse_line F s l)) =
    owed s + (if is_tokens_line F l then 1 else 0)"
proof (cases "line_text l = []")
  case True
  then have "\<not> is_tokens_line F l" by (simp add: is_tokens_line_def parse_tokens_line_def strip_prefix_def)
  with True show ?thesis by (simp add: aider_parse_line_eq Let_def line_text_def)
next
  case False
  define r where "r = (if prefix ''Cost:'' (line_text l) then ([], s) else flush_pending_usage s)"
  have r: "usage_count (fst r) + owed (snd r) = owed s"
    "\<not> prefix ''Cost:'' (line_text l) \<Longrightarrow> ai_pending_usage (snd r) = None"
    using flush_pending_usage_count [of s] by (auto simp: r_def owed_def split: if_splits)
  let ?b = "aider_line_body F (snd r) (trim_end_matches (\<lambda>c. c = LF \<or> c = CR) l) (line_text l)"
  have e: "aider_parse_line F s l = (fst r @ fst ?b, snd ?b)"
    using False by (simp add: aider_parse_line_eq Let_def flip: line_text_def r_def)
  have "usage_count (fst ?b) + owed (snd ?b) = owed (snd r) + (if is_tokens_line F l then 1 else 0)"
    using line_body_usage [of "line_text l" F "snd r"] r(2) assms
    by (simp add: is_tokens_line_def is_bad_cost_line_def)
  with r(1) show ?thesis unfolding e by simp
qed

lemma aider_lines_usage:
  "\<forall>l \<in> set ls. \<not> is_bad_cost_line F l \<Longrightarrow>
   usage_count (fst (parse_lines (aider_parse_line F) s ls))
     + owed (snd (parse_lines (aider_parse_line F) s ls)) = owed s + length (filter (is_tokens_line F) ls)"
proof (induction ls arbitrary: s)
  case (Cons l ls)
  obtain e1 s1 where 1: "aider_parse_line F s l = (e1, s1)" by fastforce
  obtain e2 s2 where 2: "parse_lines (aider_parse_line F) s1 ls = (e2, s2)" by fastforce
  show ?case
    using aider_line_usage [of F l s] Cons.IH [of s1] Cons.prems 1 2 by auto
qed simp

lemma aider_flush_usage: "usage_count (fst (aider_flush s)) = owed s"
  using flush_pending_usage_count [of s] by (simp add: aider_flush_def close_turn_eq case_prod_beta Let_def)

lemma owed_new: "owed aider_new = 0"
  by (simp add: owed_def aider_new_def)

section \<open>Properties\<close>

text \<open>C27: after the final flush aider's turns are complete brackets: whatever lines it prints,
  the turn events of the whole run are start 1, end 1, start 2, end 2, and so on, every event
  is well formed, and nothing is left pending.\<close>

theorem aider_turns_are_bracketed:
  "case parse_lines (aider_parse_line F) aider_new ls of (evs, s) \<Rightarrow>
   case aider_flush s of (fin, s') \<Rightarrow>
     list_all event_ok (evs @ fin)
   \<and> (\<exists>n \<le> length ls. turn_trace (evs @ fin) = brackets 0 n \<and> ai_turn_counter s' = word_of_nat n)
   \<and> \<not> ai_in_turn s' \<and> ai_pending_usage s' = None"
proof -
  obtain evs s where 1: "parse_lines (aider_parse_line F) aider_new ls = (evs, s)" by fastforce
  obtain fin s' where 2: "aider_flush s = (fin, s')" by fastforce
  obtain n where n: "n \<le> length ls" "turns_step aider_new (evs, s) n"
    using aider_lines_turns [of ls aider_new F] 1 by auto
  have "turn_trace fin = open_trace s \<and> ai_turn_counter s' = ai_turn_counter s
      \<and> \<not> ai_in_turn s' \<and> ai_pending_usage s' = None"
    using 2 by (auto simp: aider_flush_def flush_pending_eq close_turn_eq split: option.splits)
  with n have "turn_trace (evs @ fin) = brackets 0 n" "ai_turn_counter s' = word_of_nat n"
    by (simp_all add: turns_step_def aider_new_def open_trace_def)
  moreover have "list_all event_ok (evs @ fin)"
    using aider.whole_run_ok [of F aider_new ls] 1 2 by simp
  ultimately show ?thesis
    using 1 2 n \<open>_ \<and> _ \<and> \<not> ai_in_turn s' \<and> _\<close> by auto
qed

text \<open>No token report is lost: when no cost line is malformed, a run with its flush yields
  exactly one \<open>model_usage\<close> event per \<open>Tokens:\<close> line.\<close>

theorem aider_usage_per_token_line:
  assumes "\<forall>l \<in> set ls. \<not> is_bad_cost_line F l"
  shows "case parse_lines (aider_parse_line F) aider_new ls of (evs, s) \<Rightarrow>
    usage_count (evs @ fst (aider_flush s)) = length (filter (is_tokens_line F) ls)"
  using aider_lines_usage [OF assms, of aider_new]
  by (cases "parse_lines (aider_parse_line F) aider_new ls") (simp add: aider_flush_usage owed_new)

text \<open>An instance of the float operations that reads integers, for the examples.\<close>

definition int_floats :: float_ops where
  "int_floats = \<lparr> f64_parse = (\<lambda>t. map_option word_of_nat (parse_uint (2 ^ 64) t)), f64_add = (+),
     f64_of_int = (\<lambda>_. 0), f64_scale_round = (\<lambda>x m. x * word_of_nat m) \<rparr>"

definition sample_aider :: "string list" where
  "sample_aider = [''> hi'', ''Tokens: 2k sent, 3 received.'', ''Cost: '' @ [CHR 0x24] @ ''1 message, x'',
     ''Tokens: 1 sent, 1 received.'']"

theorem aider_usage_per_token_line_witness:
  "case parse_lines (aider_parse_line int_floats) aider_new sample_aider of (evs, s) \<Rightarrow>
    usage_count (evs @ fst (aider_flush s)) = 2"
proof -
  have "\<forall>l \<in> set sample_aider. \<not> is_bad_cost_line int_floats l" by code_simp
  from aider_usage_per_token_line [OF this]
  have "case parse_lines (aider_parse_line int_floats) aider_new sample_aider of (evs, s) \<Rightarrow>
      usage_count (evs @ fst (aider_flush s)) = length (filter (is_tokens_line int_floats) sample_aider)" .
  moreover have "length (filter (is_tokens_line int_floats) sample_aider) = 2" by code_simp
  ultimately show ?thesis by simp
qed

text \<open>The condition is needed: \<open>take\<close> empties the pending usage before the cost is known to
  parse, so a malformed cost line drops the report, although the flush on every other line
  is there to keep it.\<close>

lemma malformed_cost_drops_usage:
  "case parse_lines (aider_parse_line int_floats) aider_new
      [''Tokens: 5 sent, 6 received.'', ''Cost: n/a''] of (evs, s) \<Rightarrow>
    usage_count (evs @ fst (aider_flush s)) = 0"
  by code_simp

end
