(* ===== verification/Supervisor.thy ===== *)
theory Supervisor
  imports Encoder ClaudeAdapter CodexAdapter PiAdapter AiderAdapter
begin

text \<open>
  \<open>bunsen-core/src/supervisor.rs\<close>: the host Run supervisor. The tasks it spawns (stream
  readers, control reader, wall-clock and grace timers) only send messages; the state machine
  is the loop over the messages in the order \<open>select!\<close> takes them, here \<open>sv_loop\<close> over a
  list. An emit that fails makes \<open>run\<close> return the error: \<open>io_ok n\<close> tells whether the n-th emit
  succeeds, and \<^const>\<open>None\<close> is the error return. The parsers' parameters are collected in
  \<open>adapter_env\<close>.
\<close>

record adapter_env =
  ae_parse_json :: json_parser
  ae_to_text :: "json \<Rightarrow> string"
  ae_float :: float_ops
  ae_lossy :: "bytes \<Rightarrow> string"

datatype adapter_parser =
    ClaudeCode claude_parser | Aider aider_parser | Codex codex_parser | Pi pi_parser | BlackBox

definition adapter_for :: "string \<Rightarrow> adapter_parser" where
  "adapter_for adapter =
     (if adapter = ''claude-code'' then ClaudeCode claude_new
      else if adapter = ''aider'' then Aider aider_new
      else if adapter = ''codex'' then Codex codex_new
      else if adapter = ''pi'' then Pi pi_new
      else BlackBox)"

fun parse_stdout :: "adapter_env \<Rightarrow> adapter_parser \<Rightarrow> string \<Rightarrow> event list \<times> adapter_parser" where
  "parse_stdout E (ClaudeCode p) line =
     apsnd ClaudeCode (claude_parse_line (ae_parse_json E) (ae_float E) p line)"
| "parse_stdout E (Aider p) line = apsnd Aider (aider_parse_line (ae_float E) p line)"
| "parse_stdout E (Codex p) line = apsnd Codex (codex_parse_line (ae_parse_json E) p line)"
| "parse_stdout E (Pi p) line =
     apsnd Pi (pi_parse_line (ae_parse_json E) (ae_to_text E) (ae_float E) p line)"
| "parse_stdout E BlackBox line =
     ([(''output'', output_event_payload (ae_lossy E) ''stdout'' (str_bytes line))], BlackBox)"

fun adapter_flush :: "adapter_parser \<Rightarrow> event list \<times> adapter_parser" where
  "adapter_flush (Aider p) = apsnd Aider (aider_flush p)"
| "adapter_flush p = ([], p)"

datatype control_cmd = Stop | Kill | Pause | Resume | Timeout

definition parse_cmd :: "json_parser \<Rightarrow> string \<Rightarrow> control_cmd option" where
  "parse_cmd parse_json line =
     Option.bind (parse_json (trim line)) (\<lambda>v.
     Option.bind (get_str ''op'' v) (\<lambda>op.
       if op = ''stop'' then Some Stop
       else if op = ''kill'' then Some Kill
       else if op = ''pause'' then Some Pause
       else if op = ''resume'' then Some Resume
       else None))"

datatype out_stream = Stdout | Stderr

fun stream_name :: "out_stream \<Rightarrow> string" where
  "stream_name Stdout = ''stdout''"
| "stream_name Stderr = ''stderr''"

text \<open>What the loop receives: an output message (\<open>OutClosed\<close> is \<open>None\<close> from the output
  channel), or a control command (from stdin or a timer).\<close>

datatype sv_msg = OutLine out_stream string | OutDone | OutClosed | Cmd control_cmd

datatype signal = SIGKILL | SIGTERM | SIGSTOP | SIGCONT

record sv_state =
  sv_parser :: adapter_parser
  sv_done_count :: nat
  sv_reason :: "string option"
  sv_signals :: "signal list"
  sv_grace_timers :: nat
  sv_emitted :: "event list"

definition sv_init :: "string \<Rightarrow> sv_state" where
  "sv_init adapter = \<lparr> sv_parser = adapter_for adapter, sv_done_count = 0, sv_reason = None,
     sv_signals = [], sv_grace_timers = 0, sv_emitted = [] \<rparr>"

fun emit_events :: "(nat \<Rightarrow> bool) \<Rightarrow> event list \<Rightarrow> event list \<Rightarrow> event list option" where
  "emit_events io_ok emitted [] = Some emitted"
| "emit_events io_ok emitted (e # es) =
     (if io_ok (length emitted) then emit_events io_ok (emitted @ [e]) es else None)"

definition sv_cmd :: "control_cmd \<Rightarrow> sv_state \<Rightarrow> sv_state" where
  "sv_cmd c st =
     (case c of
        Kill \<Rightarrow> st \<lparr> sv_reason := Some ''killed'', sv_signals := sv_signals st @ [SIGKILL] \<rparr>
      | Stop \<Rightarrow> st \<lparr> sv_reason := Some ''stopped'', sv_signals := sv_signals st @ [SIGTERM],
                    sv_grace_timers := Suc (sv_grace_timers st) \<rparr>
      | Timeout \<Rightarrow> st \<lparr> sv_reason := Some ''timeout'', sv_signals := sv_signals st @ [SIGKILL] \<rparr>
      | Pause \<Rightarrow> st \<lparr> sv_signals := sv_signals st @ [SIGSTOP] \<rparr>
      | Resume \<Rightarrow> st \<lparr> sv_signals := sv_signals st @ [SIGCONT] \<rparr>)"

text \<open>One iteration: the new state and whether the loop breaks.\<close>

definition sv_step ::
  "adapter_env \<Rightarrow> (nat \<Rightarrow> bool) \<Rightarrow> sv_state \<Rightarrow> sv_msg \<Rightarrow> (sv_state \<times> bool) option" where
  "sv_step E io_ok st msg =
     (case msg of
        OutLine Stdout line \<Rightarrow>
          (let (evs, p) = parse_stdout E (sv_parser st) line in
           map_option (\<lambda>out. (st \<lparr> sv_parser := p, sv_emitted := out \<rparr>, False))
             (emit_events io_ok (sv_emitted st) evs))
      | OutLine Stderr line \<Rightarrow>
          map_option (\<lambda>out. (st \<lparr> sv_emitted := out \<rparr>, False))
            (emit_events io_ok (sv_emitted st)
              [(''output'', output_event_payload (ae_lossy E) ''stderr'' (str_bytes line))])
      | OutDone \<Rightarrow>
          (let n = Suc (sv_done_count st) in Some (st \<lparr> sv_done_count := n \<rparr>, 2 \<le> n))
      | OutClosed \<Rightarrow> Some (st, True)
      | Cmd c \<Rightarrow> Some (sv_cmd c st, False))"

text \<open>The loop: \<^const>\<open>True\<close> when it broke, \<^const>\<open>False\<close> when it still waits for a message.\<close>

fun sv_loop ::
  "adapter_env \<Rightarrow> (nat \<Rightarrow> bool) \<Rightarrow> sv_state \<Rightarrow> sv_msg list \<Rightarrow> (sv_state \<times> bool) option" where
  "sv_loop E io_ok st [] = Some (st, False)"
| "sv_loop E io_ok st (m # ms) =
     (case sv_step E io_ok st m of
        None \<Rightarrow> None
      | Some (st', brk) \<Rightarrow> if brk then Some (st', True) else sv_loop E io_ok st' ms)"

definition run_ended_payload :: "string \<Rightarrow> nat option \<Rightarrow> json" where
  "run_ended_payload reason exit_code =
     (case exit_code of
        Some c \<Rightarrow> JObj (jmap_of [(''reason'', JStr reason), (''exit_code'', ju64 (word_of_nat c))])
      | None \<Rightarrow> JObj (jmap_of [(''reason'', JStr reason)]))"

definition end_reason :: "string option \<Rightarrow> nat option \<Rightarrow> string" where
  "end_reason initiated exit_code =
     (case initiated of Some r \<Rightarrow> r
      | None \<Rightarrow> if exit_code \<noteq> None then ''agent_exit'' else ''killed'')"

text \<open>After the loop: the parser's flush, then \<open>run_ended\<close>. \<open>exit_code\<close> is that of the child,
  \<^const>\<open>None\<close> when a signal ended it.\<close>

definition sv_finish ::
  "(nat \<Rightarrow> bool) \<Rightarrow> nat option \<Rightarrow> sv_state \<Rightarrow> sv_state option" where
  "sv_finish io_ok exit_code st =
     (let (evs, p) = adapter_flush (sv_parser st) in
      Option.bind (emit_events io_ok (sv_emitted st) evs) (\<lambda>out1.
      Option.bind (emit_events io_ok out1
          [(''run_ended'', run_ended_payload (end_reason (sv_reason st) exit_code) exit_code)]) (\<lambda>out2.
      Some (st \<lparr> sv_parser := p, sv_emitted := out2 \<rparr>))))"

datatype sv_result = Running sv_state | Ended sv_state | EmitFailed

definition supervisor_run ::
  "adapter_env \<Rightarrow> (nat \<Rightarrow> bool) \<Rightarrow> string \<Rightarrow> nat option \<Rightarrow> sv_msg list \<Rightarrow> sv_result" where
  "supervisor_run E io_ok adapter exit_code ms =
     (case sv_loop E io_ok (sv_init adapter) ms of
        None \<Rightarrow> EmitFailed
      | Some (st, False) \<Rightarrow> Running st
      | Some (st, True) \<Rightarrow> (case sv_finish io_ok exit_code st of None \<Rightarrow> EmitFailed | Some st' \<Rightarrow> Ended st'))"

text \<open>The environment of the child: pi's session directory, unless the user sets it.\<close>

definition child_env :: "string \<Rightarrow> string \<Rightarrow> (string \<rightharpoonup> string) \<Rightarrow> (string \<rightharpoonup> string)" where
  "child_env adapter workspace_path env =
     (if adapter = ''pi'' \<and> env ''PI_CODING_AGENT_DIR'' = None
      then env(''PI_CODING_AGENT_DIR'' \<mapsto> workspace_path @ ''/.pi'') else env)"

section \<open>The dispatcher keeps the parsers' contract\<close>

lemma parse_stdout_ok: "list_all event_ok (fst (parse_stdout E p l))"
  by (cases p) (simp_all add: claude_parse_line_ok codex_parse_line_ok pi_parse_line_ok
      aider_parse_line_ok output_event_payload_def event_ok_def payload_ok_JObj envelope_keys_def
      required_keys_def)

lemma adapter_flush_ok: "list_all event_ok (fst (adapter_flush p))"
  by (cases p) (simp_all add: aider_flush_ok)

interpretation dispatch: line_parser "parse_stdout E" adapter_flush
  by unfold_locales (simp_all add: parse_stdout_ok adapter_flush_ok)

section \<open>The loop against its control commands\<close>

definition cmds_of :: "sv_msg list \<Rightarrow> control_cmd list" where
  "cmds_of ms = List.map_filter (\<lambda>m. case m of Cmd c \<Rightarrow> Some c | _ \<Rightarrow> None) ms"

fun cmd_signal :: "control_cmd \<Rightarrow> signal" where
  "cmd_signal Kill = SIGKILL"
| "cmd_signal Stop = SIGTERM"
| "cmd_signal Timeout = SIGKILL"
| "cmd_signal Pause = SIGSTOP"
| "cmd_signal Resume = SIGCONT"

fun cmd_reason :: "string option \<Rightarrow> control_cmd \<Rightarrow> string option" where
  "cmd_reason r Kill = Some ''killed''"
| "cmd_reason r Stop = Some ''stopped''"
| "cmd_reason r Timeout = Some ''timeout''"
| "cmd_reason r Pause = r"
| "cmd_reason r Resume = r"

lemma cmds_of_simps [simp]:
  "cmds_of [] = []" "cmds_of (Cmd c # ms) = c # cmds_of ms"
  "cmds_of (OutLine o' l # ms) = cmds_of ms" "cmds_of (OutDone # ms) = cmds_of ms"
  by (simp_all add: cmds_of_def List.map_filter_def)

lemma emit_events_Some:
  "emit_events io_ok out evs = Some out' \<Longrightarrow> out' = out @ evs"
  by (induction io_ok out evs rule: emit_events.induct) (auto split: if_splits)

lemma sv_cmd_fields [simp]:
  "sv_reason (sv_cmd c st) = cmd_reason (sv_reason st) c"
  "sv_signals (sv_cmd c st) = sv_signals st @ [cmd_signal c]"
  "sv_grace_timers (sv_cmd c st) = sv_grace_timers st + (if c = Stop then 1 else 0)"
  "sv_emitted (sv_cmd c st) = sv_emitted st" "sv_done_count (sv_cmd c st) = sv_done_count st"
  by (cases c; simp add: sv_cmd_def)+

text \<open>The loop handles a prefix of the messages, up to the one that breaks it; its control state
  is a function of the commands in that prefix, and it emits well-formed agent events only.\<close>

definition handled :: "sv_state \<Rightarrow> sv_msg list \<Rightarrow> sv_state \<Rightarrow> bool" where
  "handled st pre st' \<longleftrightarrow>
     sv_reason st' = foldl cmd_reason (sv_reason st) (cmds_of pre)
   \<and> sv_signals st' = sv_signals st @ map cmd_signal (cmds_of pre)
   \<and> sv_grace_timers st' = sv_grace_timers st + length (filter (\<lambda>c. c = Stop) (cmds_of pre))
   \<and> (\<exists>es. sv_emitted st' = sv_emitted st @ es \<and> list_all event_ok es)"

lemma sv_step_handled:
  assumes "sv_step E io_ok st m = Some (st', brk)"
  shows "if brk then (m = OutDone \<or> m = OutClosed) \<and> handled st [] st' else handled st [m] st'"
proof (cases m)
  case (OutLine o' l)
  then show ?thesis
    using assms parse_stdout_ok [of E "sv_parser st" l]
    by (cases o') (auto simp: sv_step_def handled_def case_prod_beta output_event_payload_def
        event_ok_def payload_ok_JObj envelope_keys_def required_keys_def
        simp del: emit_events.simps dest!: emit_events_Some)
next
  case OutDone
  then show ?thesis using assms by (auto simp: sv_step_def handled_def Let_def)
next
  case OutClosed
  then show ?thesis using assms by (auto simp: sv_step_def handled_def)
next
  case (Cmd c)
  then show ?thesis using assms by (auto simp: sv_step_def handled_def)
qed

lemma handled_Cons: "handled st [m] st1 \<Longrightarrow> m \<noteq> OutClosed \<Longrightarrow> handled st1 pre st2 \<Longrightarrow> handled st (m # pre) st2"
  by (cases m) (auto simp: handled_def)

lemma sv_loop_handled:
  "sv_loop E io_ok st ms = Some (st', brk) \<Longrightarrow>
   \<exists>pre rest. ms = pre @ rest \<and> handled st pre st'
     \<and> (if brk then \<exists>b r. rest = b # r \<and> (b = OutDone \<or> b = OutClosed) else rest = [])"
proof (induction ms arbitrary: st)
  case Nil
  then show ?case by (simp add: handled_def)
next
  case (Cons m ms)
  from Cons.prems obtain st1 b1 where s: "sv_step E io_ok st m = Some (st1, b1)"
    by (auto split: option.splits)
  show ?case
  proof (cases b1)
    case True
    then show ?thesis
      using sv_step_handled [OF s] s Cons.prems by (intro exI [of _ "[]"] exI [of _ "m # ms"]) auto
  next
    case False
    then have "sv_loop E io_ok st1 ms = Some (st', brk)" using s Cons.prems by simp
    then obtain pre rest where "ms = pre @ rest" "handled st1 pre st'"
      "if brk then \<exists>b r. rest = b # r \<and> (b = OutDone \<or> b = OutClosed) else rest = []"
      using Cons.IH by blast
    moreover have "m \<noteq> OutClosed" using s False by (auto simp: sv_step_def)
    ultimately show ?thesis
      using sv_step_handled [OF s] False handled_Cons
      by (intro exI [of _ "m # pre"] exI [of _ rest]) auto
  qed
qed

section \<open>Properties\<close>


lemma emit_events_total: "\<forall>n. io_ok n \<Longrightarrow> \<exists>out'. emit_events io_ok out evs = Some out'"
  by (induction io_ok out evs rule: emit_events.induct) auto

definition done_total :: "sv_msg list \<Rightarrow> nat" where
  "done_total ms = length (filter (\<lambda>m. m = OutDone) ms)"

lemma sv_step_total:
  assumes "\<forall>n. io_ok n"
  shows "\<exists>st' brk. sv_step E io_ok st m = Some (st', brk)
    \<and> (brk \<or> sv_done_count st' = sv_done_count st + (if m = OutDone then 1 else 0))"
proof (cases m)
  case (OutLine o' l)
  obtain out1 out2 where
    "emit_events io_ok (sv_emitted st) (fst (parse_stdout E (sv_parser st) l)) = Some out1"
    "emit_events io_ok (sv_emitted st)
      [(''output'', output_event_payload (ae_lossy E) ''stderr'' (str_bytes l))] = Some out2"
    using emit_events_total [OF assms] by metis
  with OutLine show ?thesis
    by (cases o') (simp_all add: sv_step_def case_prod_beta exI [of Not False] del: emit_events.simps)
qed (auto simp: sv_step_def Let_def)

lemma sv_loop_breaks:
  assumes "\<forall>n. io_ok n"
  shows "2 \<le> sv_done_count st + done_total ms \<Longrightarrow> sv_done_count st < 2 \<Longrightarrow>
    \<exists>st'. sv_loop E io_ok st ms = Some (st', True)"
proof (induction ms arbitrary: st)
  case (Cons m ms)
  obtain st1 brk where s: "sv_step E io_ok st m = Some (st1, brk)"
    "brk \<or> sv_done_count st1 = sv_done_count st + (if m = OutDone then 1 else 0)"
    using sv_step_total [OF assms] by blast
  show ?case
  proof (cases brk)
    case False
    then have n: "sv_done_count st1 = sv_done_count st + (if m = OutDone then 1 else 0)" using s by simp
    have "sv_done_count st1 < 2"
    proof (cases "m = OutDone")
      case True
      then show ?thesis using s(1) False by (auto simp: sv_step_def Let_def)
    qed (use n Cons.prems in simp)
    moreover have "2 \<le> sv_done_count st1 + done_total ms"
      using Cons.prems n by (auto simp: done_total_def split: if_splits)
    ultimately show ?thesis using Cons.IH [of st1] s False by simp
  qed (use s in simp)
qed (simp add: done_total_def)

text \<open>A Run ends. When every emit succeeds, two end-of-stream messages among those received
  are enough for the Run to end, whatever comes in between.\<close>

theorem supervisor_ends:
  assumes "\<forall>n. io_ok n" and "2 \<le> done_total ms"
  shows "\<exists>st. supervisor_run E io_ok adapter exit_code ms = Ended st"
proof -
  obtain st where "sv_loop E io_ok (sv_init adapter) ms = Some (st, True)"
    using sv_loop_breaks [OF assms(1), of "sv_init adapter" ms] assms(2) by (auto simp: sv_init_def)
  moreover obtain st' where "sv_finish io_ok exit_code st = Some st'"
  proof -
    let ?r = "(''run_ended'', run_ended_payload (end_reason (sv_reason st) exit_code) exit_code)"
    obtain out1 where "emit_events io_ok (sv_emitted st) (fst (adapter_flush (sv_parser st))) = Some out1"
      using emit_events_total [OF assms(1)] by blast
    moreover obtain out2 where "emit_events io_ok out1 [?r] = Some out2"
      using emit_events_total [OF assms(1)] by blast
    ultimately show thesis
      using that by (simp add: sv_finish_def case_prod_beta Let_def del: emit_events.simps)
  qed
  ultimately show ?thesis by (simp add: supervisor_run_def)
qed

definition sample_env :: adapter_env where
  "sample_env = \<lparr> ae_parse_json = (\<lambda>_. None), ae_to_text = (\<lambda>_. []), ae_float = int_floats,
     ae_lossy = (\<lambda>bs. map (\<lambda>b. char_of (unat b)) bs) \<rparr>"

end
