(* ===== verification/SandboxSupervisor.thy ===== *)
theory SandboxSupervisor
  imports Supervisor EgressProxy
begin

text \<open>
  \<open>bunsen-core/src/sandbox_supervisor.rs\<close>: the Sandbox Run supervisor. It repeats the host
  supervisor's dispatcher and commands (the definitions of \<open>Supervisor\<close> are reused), writes
  control messages for the guest instead of signals, and multiplexes the denial channel of
  the egress machinery. \<open>ss_step\<close> handles one message of \<open>select!\<close>; a write to the control
  socket that fails is ignored by the source, so the model records the message as sent.
\<close>

datatype ss_msg =
    SOutLine out_stream string | SOutDone | SOutClosed | SCmd control_cmd
  | SDenial denial_event | SDenialClosed

record ss_state =
  ss_parser :: adapter_parser
  ss_done_count :: nat
  ss_denial_rx_open :: bool
  ss_reason :: "string option"
  ss_control :: "string list"
  ss_grace_timers :: nat
  ss_emitted :: "event list"

definition ss_init :: "string \<Rightarrow> ss_state" where
  "ss_init adapter = \<lparr> ss_parser = adapter_for adapter, ss_done_count = 0, ss_denial_rx_open = True,
     ss_reason = None, ss_control = [], ss_grace_timers = 0, ss_emitted = [] \<rparr>"

definition control_line :: "string \<Rightarrow> string" where
  "control_line op = [CHR 0x7B, CHR 0x22] @ ''op'' @ [CHR 0x22, CHR 0x3A, CHR 0x22] @ op
     @ [CHR 0x22, CHR 0x7D, LF]"

definition write_control :: "string \<Rightarrow> ss_state \<Rightarrow> ss_state" where
  "write_control op st = st \<lparr> ss_control := ss_control st @ [control_line op] \<rparr>"

definition ss_cmd :: "control_cmd \<Rightarrow> ss_state \<Rightarrow> ss_state" where
  "ss_cmd c st =
     (case c of
        Kill \<Rightarrow> write_control ''kill'' (st \<lparr> ss_reason := Some ''killed'' \<rparr>)
      | Stop \<Rightarrow> (write_control ''stop'' (st \<lparr> ss_reason := Some ''stopped'' \<rparr>))
          \<lparr> ss_grace_timers := Suc (ss_grace_timers st) \<rparr>
      | Timeout \<Rightarrow> write_control ''kill'' (st \<lparr> ss_reason := Some ''timeout'' \<rparr>)
      | Pause \<Rightarrow> write_control ''pause'' st
      | Resume \<Rightarrow> write_control ''resume'' st)"

definition ss_emit :: "(nat \<Rightarrow> bool) \<Rightarrow> event list \<Rightarrow> ss_state \<Rightarrow> ss_state option" where
  "ss_emit io_ok evs st =
     map_option (\<lambda>out. st \<lparr> ss_emitted := out \<rparr>) (emit_events io_ok (ss_emitted st) evs)"

text \<open>A denial message is taken only while the receiver is open (the \<open>if\<close> guard of the
  \<open>select!\<close> branch); behind that it stays in the channel, so the message is skipped.\<close>

definition ss_step ::
  "adapter_env \<Rightarrow> (nat \<Rightarrow> bool) \<Rightarrow> ss_state \<Rightarrow> ss_msg \<Rightarrow> (ss_state \<times> bool) option" where
  "ss_step E io_ok st msg =
     (case msg of
        SOutLine Stdout line \<Rightarrow>
          (let (evs, p) = parse_stdout E (ss_parser st) line in
           map_option (\<lambda>st'. (st', False)) (ss_emit io_ok evs (st \<lparr> ss_parser := p \<rparr>)))
      | SOutLine Stderr line \<Rightarrow>
          map_option (\<lambda>st'. (st', False)) (ss_emit io_ok
            [(''output'', output_event_payload (ae_lossy E) ''stderr'' (str_bytes line))] st)
      | SOutDone \<Rightarrow>
          (let n = Suc (ss_done_count st) in Some (st \<lparr> ss_done_count := n \<rparr>, 2 \<le> n))
      | SOutClosed \<Rightarrow> Some (st, True)
      | SDenial d \<Rightarrow>
          if ss_denial_rx_open st
          then map_option (\<lambda>st'. (st', False)) (ss_emit io_ok [emit_denial d] st)
          else Some (st, False)
      | SDenialClosed \<Rightarrow> Some (st \<lparr> ss_denial_rx_open := False \<rparr>, False)
      | SCmd c \<Rightarrow> Some (ss_cmd c st, False))"

fun ss_loop ::
  "adapter_env \<Rightarrow> (nat \<Rightarrow> bool) \<Rightarrow> ss_state \<Rightarrow> ss_msg list \<Rightarrow> (ss_state \<times> bool) option" where
  "ss_loop E io_ok st [] = Some (st, False)"
| "ss_loop E io_ok st (m # ms) =
     (case ss_step E io_ok st m of
        None \<Rightarrow> None
      | Some (st', brk) \<Rightarrow> if brk then Some (st', True) else ss_loop E io_ok st' ms)"

text \<open>After the loop and the exit of the VM: the denials still queued are drained, the egress
  tasks are aborted, the parser is flushed, and \<open>run_ended\<close> closes the stream.\<close>

definition ss_finish :: "(nat \<Rightarrow> bool) \<Rightarrow> denial_event list \<Rightarrow> ss_state \<Rightarrow> ss_state option" where
  "ss_finish io_ok queued st =
     (let (evs, p) = adapter_flush (ss_parser st) in
      Option.bind (ss_emit io_ok (map emit_denial queued) st) (\<lambda>st1.
      Option.bind (ss_emit io_ok evs (st1 \<lparr> ss_parser := p \<rparr>)) (\<lambda>st2.
      ss_emit io_ok [(''run_ended'',
          JObj (jmap_of [(''reason'', JStr (unwrap_or ''agent_exit'' (ss_reason st)))]))] st2)))"

datatype ss_result = SRunning ss_state | SEnded ss_state | SFailed

definition sandbox_supervisor_run ::
  "adapter_env \<Rightarrow> (nat \<Rightarrow> bool) \<Rightarrow> string \<Rightarrow> denial_event list \<Rightarrow> ss_msg list \<Rightarrow> ss_result" where
  "sandbox_supervisor_run E io_ok adapter queued ms =
     (case ss_loop E io_ok (ss_init adapter) ms of
        None \<Rightarrow> SFailed
      | Some (st, False) \<Rightarrow> SRunning st
      | Some (st, True) \<Rightarrow> (case ss_finish io_ok queued st of None \<Rightarrow> SFailed | Some st' \<Rightarrow> SEnded st'))"

section \<open>The loop against its messages\<close>

definition ss_cmds :: "ss_msg list \<Rightarrow> control_cmd list" where
  "ss_cmds ms = List.map_filter (\<lambda>m. case m of SCmd c \<Rightarrow> Some c | _ \<Rightarrow> None) ms"

fun cmd_op :: "control_cmd \<Rightarrow> string" where
  "cmd_op Kill = ''kill''"
| "cmd_op Stop = ''stop''"
| "cmd_op Timeout = ''kill''"
| "cmd_op Pause = ''pause''"
| "cmd_op Resume = ''resume''"

text \<open>The events allowed before \<open>run_ended\<close>: the agent's and the denials.\<close>

definition run_event_ok :: "event \<Rightarrow> bool" where
  "run_event_ok e \<longleftrightarrow> event_ok e \<or> (\<exists>d. e = emit_denial d)"

definition denials_in :: "event list \<Rightarrow> event list" where
  "denials_in evs = filter (\<lambda>e. fst e = EVENT_TYPE) evs"

definition ss_denials :: "ss_msg list \<Rightarrow> denial_event list" where
  "ss_denials ms = List.map_filter (\<lambda>m. case m of SDenial d \<Rightarrow> Some d | _ \<Rightarrow> None)
     (takeWhile (\<lambda>m. m \<noteq> SDenialClosed) ms)"

lemma event_ok_not_denial: "event_ok e \<Longrightarrow> fst e \<noteq> EVENT_TYPE"
  by (cases e) (auto simp: EVENT_TYPE_def dest: event_ok_types)

lemma denials_in_ok: "list_all event_ok evs \<Longrightarrow> denials_in evs = []"
  by (auto simp: denials_in_def filter_empty_conv list_all_iff dest: event_ok_not_denial)

lemma denials_in_append [simp]: "denials_in (xs @ ys) = denials_in xs @ denials_in ys"
  by (simp add: denials_in_def)

lemma denials_in_emit [simp]: "denials_in (map emit_denial ds) = map emit_denial ds"
  by (induction ds) (simp_all add: denials_in_def emit_denial_def)

lemma ss_emit_Some:
  "ss_emit io_ok evs st = Some st' \<Longrightarrow> st' = st \<lparr> ss_emitted := ss_emitted st @ evs \<rparr>"
  by (auto simp: ss_emit_def dest: emit_events_Some)

lemma ss_projections [simp]:
  "ss_cmds [] = []" "ss_cmds (SCmd c # ms) = c # ss_cmds ms"
  "ss_cmds (SOutLine o' l # ms) = ss_cmds ms" "ss_cmds (SOutDone # ms) = ss_cmds ms"
  "ss_cmds (SDenial d # ms) = ss_cmds ms" "ss_cmds (SDenialClosed # ms) = ss_cmds ms"
  "ss_denials [] = []" "ss_denials (SDenial d # ms) = d # ss_denials ms"
  "ss_denials (SDenialClosed # ms) = []" "ss_denials (SCmd c # ms) = ss_denials ms"
  "ss_denials (SOutLine o' l # ms) = ss_denials ms" "ss_denials (SOutDone # ms) = ss_denials ms"
  by (simp_all add: ss_cmds_def ss_denials_def List.map_filter_def)

lemma ss_cmd_fields [simp]:
  "ss_reason (ss_cmd c st) = cmd_reason (ss_reason st) c"
  "ss_control (ss_cmd c st) = ss_control st @ [control_line (cmd_op c)]"
  "ss_grace_timers (ss_cmd c st) = ss_grace_timers st + (if c = Stop then 1 else 0)"
  "ss_emitted (ss_cmd c st) = ss_emitted st" "ss_denial_rx_open (ss_cmd c st) = ss_denial_rx_open st"
  by (cases c; simp add: ss_cmd_def write_control_def)+

definition ss_handled :: "ss_state \<Rightarrow> ss_msg list \<Rightarrow> ss_state \<Rightarrow> bool" where
  "ss_handled st pre st' \<longleftrightarrow>
     ss_reason st' = foldl cmd_reason (ss_reason st) (ss_cmds pre)
   \<and> ss_control st' = ss_control st @ map (\<lambda>c. control_line (cmd_op c)) (ss_cmds pre)
   \<and> ss_grace_timers st' = ss_grace_timers st + length (filter (\<lambda>c. c = Stop) (ss_cmds pre))
   \<and> ss_denial_rx_open st' = (ss_denial_rx_open st \<and> SDenialClosed \<notin> set pre)
   \<and> (\<exists>es. ss_emitted st' = ss_emitted st @ es \<and> list_all run_event_ok es
        \<and> denials_in es = (if ss_denial_rx_open st then map emit_denial (ss_denials pre) else []))"

lemma stderr_event_ok: "event_ok (''output'', output_event_payload f str bs)"
  by (simp add: output_event_payload_def event_ok_def payload_ok_JObj envelope_keys_def required_keys_def)

lemma list_run_event_ok: "list_all event_ok es \<Longrightarrow> list_all run_event_ok es"
  by (auto simp: list_all_iff run_event_ok_def)

lemma ss_step_handled:
  assumes "ss_step E io_ok st m = Some (st', brk)"
  shows "if brk then (m = SOutDone \<or> m = SOutClosed) \<and> ss_handled st [] st' else ss_handled st [m] st'"
proof (cases m)
  case (SOutLine o' l)
  have "list_all event_ok (fst (parse_stdout E (ss_parser st) l))" by (rule parse_stdout_ok)
  moreover have "run_event_ok (''output'', output_event_payload (ae_lossy E) ''stderr'' (str_bytes l))"
    "denials_in [(''output'', output_event_payload (ae_lossy E) ''stderr'' (str_bytes l))] = []"
    by (simp_all add: stderr_event_ok run_event_ok_def denials_in_ok)
  ultimately show ?thesis
    using assms SOutLine list_run_event_ok denials_in_ok
    by (cases o') (auto simp: ss_step_def ss_handled_def case_prod_beta
        dest!: ss_emit_Some)
next
  case (SDenial d)
  then show ?thesis
    using assms by (auto simp: ss_step_def ss_handled_def run_event_ok_def denials_in_def emit_denial_def
        split: if_splits dest!: ss_emit_Some)
next
  case (SCmd c)
  then show ?thesis using assms by (auto simp: ss_step_def ss_handled_def denials_in_def)
qed (use assms in \<open>auto simp: ss_step_def ss_handled_def denials_in_def Let_def\<close>)

lemma ss_handled_Cons:
  "ss_handled st [m] st1 \<Longrightarrow> m \<noteq> SOutClosed \<Longrightarrow> ss_handled st1 pre st2 \<Longrightarrow> ss_handled st (m # pre) st2"
  by (cases m) (auto simp: ss_handled_def)

lemma ss_loop_handled:
  "ss_loop E io_ok st ms = Some (st', brk) \<Longrightarrow>
   \<exists>pre rest. ms = pre @ rest \<and> ss_handled st pre st'
     \<and> (if brk then \<exists>b r. rest = b # r \<and> (b = SOutDone \<or> b = SOutClosed) else rest = [])"
proof (induction ms arbitrary: st)
  case Nil
  then show ?case by (simp add: ss_handled_def denials_in_def)
next
  case (Cons m ms)
  from Cons.prems obtain st1 b1 where s: "ss_step E io_ok st m = Some (st1, b1)"
    by (auto split: option.splits)
  show ?case
  proof (cases b1)
    case True
    then show ?thesis
      using ss_step_handled [OF s] s Cons.prems by (intro exI [of _ "[]"] exI [of _ "m # ms"]) auto
  next
    case False
    then have "ss_loop E io_ok st1 ms = Some (st', brk)" using s Cons.prems by simp
    then obtain pre rest where "ms = pre @ rest" "ss_handled st1 pre st'"
      "if brk then \<exists>b r. rest = b # r \<and> (b = SOutDone \<or> b = SOutClosed) else rest = []"
      using Cons.IH by blast
    moreover have "m \<noteq> SOutClosed" using s False by (auto simp: ss_step_def)
    ultimately show ?thesis
      using ss_step_handled [OF s] False ss_handled_Cons
      by (intro exI [of _ "m # pre"] exI [of _ rest]) auto
  qed
qed

section \<open>Properties\<close>

text \<open>C21: the life of a Sandbox Run. A Run that ends has emitted agent events and denials, then
  exactly one \<open>run_ended\<close> with the reason of the last stop, kill or timeout taken (else
  \<open>agent_exit\<close>); every denial taken while its channel was open, and every one still queued
  when the VM exits, appears exactly once, in order, before it; and the guest got exactly the
  control lines of the commands taken.\<close>

theorem sandbox_supervisor_life:
  "case sandbox_supervisor_run E io_ok adapter queued ms of
     SEnded st \<Rightarrow> (\<exists>pre b rest evs. ms = pre @ b # rest \<and> (b = SOutDone \<or> b = SOutClosed)
       \<and> ss_emitted st = evs @ [(''run_ended'', JObj (jmap_of [(''reason'', JStr (unwrap_or ''agent_exit''
           (foldl cmd_reason None (ss_cmds pre))))]))]
       \<and> list_all run_event_ok evs
       \<and> denials_in evs = map emit_denial (ss_denials pre @ queued)
       \<and> ss_control st = map (\<lambda>c. control_line (cmd_op c)) (ss_cmds pre)
       \<and> ss_grace_timers st = length (filter (\<lambda>c. c = Stop) (ss_cmds pre)))
   | SRunning st \<Rightarrow> list_all run_event_ok (ss_emitted st)
       \<and> denials_in (ss_emitted st) = map emit_denial (ss_denials ms)
   | SFailed \<Rightarrow> True"
proof (cases "ss_loop E io_ok (ss_init adapter) ms")
  case None
  then show ?thesis by (simp add: sandbox_supervisor_run_def)
next
  case (Some r)
  obtain st brk where r: "r = (st, brk)" by (cases r)
  obtain pre rest where h: "ms = pre @ rest" "ss_handled (ss_init adapter) pre st"
    "if brk then \<exists>b q. rest = b # q \<and> (b = SOutDone \<or> b = SOutClosed) else rest = []"
    using ss_loop_handled Some r by blast
  show ?thesis
  proof (cases brk)
    case False
    with h Some r show ?thesis by (auto simp: sandbox_supervisor_run_def ss_handled_def ss_init_def)
  next
    case True
    have fl: "list_all event_ok (fst (adapter_flush (ss_parser st)))" by (rule dispatch.flush_ok)
    show ?thesis
    proof (cases "ss_finish io_ok queued st")
      case None
      with True Some r show ?thesis by (simp add: sandbox_supervisor_run_def)
    next
      case fin: (Some st')
      then have st': "ss_emitted st' = (ss_emitted st @ map emit_denial queued
            @ fst (adapter_flush (ss_parser st))) @
          [(''run_ended'', JObj (jmap_of [(''reason'', JStr (unwrap_or ''agent_exit'' (ss_reason st)))]))]"
        "ss_control st' = ss_control st" "ss_grace_timers st' = ss_grace_timers st"
        by (auto simp: ss_finish_def case_prod_beta bind_eq_Some_conv dest!: ss_emit_Some)
      have "list_all run_event_ok (map emit_denial queued)"
        by (auto simp: list_all_iff run_event_ok_def)
      with fl have "list_all run_event_ok (map emit_denial queued @ fst (adapter_flush (ss_parser st)))"
        "denials_in (map emit_denial queued @ fst (adapter_flush (ss_parser st))) = map emit_denial queued"
        using list_run_event_ok denials_in_ok by simp_all
      with h True Some r fin st' show ?thesis
        by (auto simp: sandbox_supervisor_run_def ss_handled_def ss_init_def)
    qed
  qed
qed

end
