(* ===== verification/BranchPool.thy ===== *)
theory BranchPool
  imports Prelude
begin

text \<open>
  \<open>bunsen-core/src/branch_pool.rs\<close>: the bare git repository a Session owns. Git and the file
  system are parameters (\<open>sysops\<close>) over a world of type \<open>'w\<close> that the operations thread;
  the argument vectors are those of the source. The locale \<open>git_store\<close> states what the Pool
  relies on of git's documented behaviour, as a map of refs per repository, and is
  interpreted on \<open>sim_ops\<close>, a small git over such maps.
\<close>

datatype git_result = GitIoErr | GitOut bool string string

record 'w sysops =
  sys_git :: "string option \<Rightarrow> string list \<Rightarrow> 'w \<Rightarrow> git_result \<times> 'w"
  sys_create_dir :: "string \<Rightarrow> 'w \<Rightarrow> bool \<times> 'w"
  sys_exists :: "string \<Rightarrow> 'w \<Rightarrow> bool"
  sys_remove_dir :: "string \<Rightarrow> 'w \<Rightarrow> bool \<times> 'w"

text \<open>Fallible operations that thread the world.\<close>

type_synonym ('w, 'e, 'a) act = "'w \<Rightarrow> ('e + 'a) \<times> 'w"

definition aret :: "'a \<Rightarrow> ('w, 'e, 'a) act" where
  "aret a w = (Inr a, w)"

definition afail :: "'e \<Rightarrow> ('w, 'e, 'a) act" where
  "afail e w = (Inl e, w)"

definition abind :: "('w, 'e, 'a) act \<Rightarrow> ('a \<Rightarrow> ('w, 'e, 'b) act) \<Rightarrow> ('w, 'e, 'b) act" where
  "abind m f w = (case m w of (Inl e, w') \<Rightarrow> (Inl e, w') | (Inr a, w') \<Rightarrow> f a w')"

fun amap :: "('a \<Rightarrow> ('w, 'e, 'b) act) \<Rightarrow> 'a list \<Rightarrow> ('w, 'e, 'b list) act" where
  "amap f [] = aret []"
| "amap f (x # xs) = abind (f x) (\<lambda>y. abind (amap f xs) (\<lambda>ys. aret (y # ys)))"

lemma act_simps [simp]: "aret a w = (Inr a, w)" "afail e w = (Inl e, w)"
  by (simp_all add: aret_def afail_def)

lemma abind_Inr:
  "abind m f w = (Inr b, w') \<longleftrightarrow> (\<exists>a w1. m w = (Inr a, w1) \<and> f a w1 = (Inr b, w'))"
  by (auto simp: abind_def split: prod.splits sum.splits)

lemma abind_Inl:
  "abind m f w = (Inl e, w') \<longleftrightarrow>
     m w = (Inl e, w') \<or> (\<exists>a w1. m w = (Inr a, w1) \<and> f a w1 = (Inl e, w'))"
  by (auto simp: abind_def split: prod.splits sum.splits)

section \<open>The operations\<close>

definition RESERVED_HOST :: string where "RESERVED_HOST = ''host/''"
definition RESERVED_RUNS :: string where "RESERVED_RUNS = ''runs/''"

datatype pool_error =
    PoolIo
  | PoolGit string string
  | ReservedNamespace string string
  | RefAlreadyExists string
  | NotFastForward string string

datatype namespace_filter = FilterAll | FilterHost | FilterRuns | FilterUserNamed

record manifest_entry =
  me_pool_ref :: string
  me_host_ref :: string
  me_force :: bool

record resolved_entry =
  re_pool_ref :: string
  re_host_ref :: string
  re_pool_sha :: string
  re_host_sha :: "string option"
  re_force :: bool

fun validate_resolved_manifest ::
  "resolved_entry list \<Rightarrow> (string \<Rightarrow> string \<Rightarrow> bool) \<Rightarrow> pool_error + unit" where
  "validate_resolved_manifest [] is_ff = Inr ()"
| "validate_resolved_manifest (e # es) is_ff =
     (if re_force e then validate_resolved_manifest es is_ff
      else case re_host_sha e of
          None \<Rightarrow> validate_resolved_manifest es is_ff
        | Some host_sha \<Rightarrow>
            if \<not> is_ff host_sha (re_pool_sha e)
            then Inl (NotFastForward (re_pool_ref e) (re_host_ref e))
            else validate_resolved_manifest es is_ff)"

definition join_words :: "string list \<Rightarrow> string" where
  "join_words ws = (case ws of [] \<Rightarrow> [] | w # r \<Rightarrow> w @ concat (map (\<lambda>x. CHR '' '' # x) r))"

definition run_git :: "'w sysops \<Rightarrow> string list \<Rightarrow> string option \<Rightarrow> ('w, pool_error, string) act" where
  "run_git S args cwd w =
     (case sys_git S cwd args w of
        (GitIoErr, w') \<Rightarrow> (Inl PoolIo, w')
      | (GitOut ok out err, w') \<Rightarrow>
          if ok then (Inr out, w') else (Inl (PoolGit (''git '' @ join_words args) err), w'))"

text \<open>A git command of which only the exit status counts.\<close>

definition git_status :: "'w sysops \<Rightarrow> string list \<Rightarrow> string \<Rightarrow> ('w, pool_error, bool) act" where
  "git_status S args cwd w =
     (case sys_git S (Some cwd) args w of
        (GitIoErr, w') \<Rightarrow> (Inl PoolIo, w')
      | (GitOut ok out err, w') \<Rightarrow> (Inr ok, w'))"

definition branch_exists :: "'w sysops \<Rightarrow> string \<Rightarrow> string \<Rightarrow> ('w, pool_error, bool) act" where
  "branch_exists S repo short_name =
     git_status S [''show-ref'', ''--verify'', ''--quiet'', ''refs/heads/'' @ short_name] repo"

definition rev_parse :: "'w sysops \<Rightarrow> string \<Rightarrow> string \<Rightarrow> ('w, pool_error, string) act" where
  "rev_parse S repo name =
     abind (run_git S [''rev-parse'', ''--verify'', name] (Some repo)) (\<lambda>out. aret (trim out))"

definition ls_remote :: "'w sysops \<Rightarrow> string \<Rightarrow> string \<Rightarrow> ('w, pool_error, string option) act" where
  "ls_remote S repo name =
     abind (run_git S [''ls-remote'', repo, name] None) (\<lambda>out.
       aret (case str_lines out of [] \<Rightarrow> None
             | l # _ \<Rightarrow> (case split_whitespace l of [] \<Rightarrow> None | x # _ \<Rightarrow> Some x)))"

definition is_ancestor :: "'w sysops \<Rightarrow> string \<Rightarrow> string \<Rightarrow> string \<Rightarrow> ('w, pool_error, bool) act" where
  "is_ancestor S repo ancestor descendant =
     git_status S [''merge-base'', ''--is-ancestor'', ancestor, descendant] repo"

definition pool_init :: "'w sysops \<Rightarrow> string \<Rightarrow> ('w, pool_error, string) act" where
  "pool_init S path w =
     (case sys_create_dir S path w of
        (False, w') \<Rightarrow> (Inl PoolIo, w')
      | (True, w') \<Rightarrow>
          abind (run_git S [''init'', ''--bare'', ''--quiet''] (Some path)) (\<lambda>_. aret path) w')"

definition pool_open :: "'w sysops \<Rightarrow> string \<Rightarrow> ('w, pool_error, string) act" where
  "pool_open S path w =
     (if \<not> sys_exists S (path @ ''/HEAD'') w
      then (Inl (PoolGit ''open'' (path @ '' does not look like a bare git repo'')), w)
      else (Inr path, w))"

definition mirror_from_host ::
  "'w sysops \<Rightarrow> string \<Rightarrow> string \<Rightarrow> string list \<Rightarrow> ('w, pool_error, unit) act" where
  "mirror_from_host S pool host_repo refs =
     (if refs = [] then aret ()
      else abind (run_git S ([''fetch'', ''--no-tags'', host_repo]
              @ map (\<lambda>r. ''+refs/heads/'' @ r @ '':refs/heads/host/'' @ r) refs) (Some pool))
            (\<lambda>_. aret ()))"

definition validate_user_ref_name :: "string \<Rightarrow> pool_error + unit" where
  "validate_user_ref_name name =
     (if prefix RESERVED_HOST name then Inl (ReservedNamespace name RESERVED_HOST)
      else if prefix RESERVED_RUNS name then Inl (ReservedNamespace name RESERVED_RUNS)
      else Inr ())"

definition check_output_branch :: "'w sysops \<Rightarrow> string \<Rightarrow> string option \<Rightarrow> ('w, pool_error, unit) act" where
  "check_output_branch S pool output_branch =
     (case output_branch of
         None \<Rightarrow> aret ()
       | Some name \<Rightarrow>
           (case validate_user_ref_name name of
              Inl e \<Rightarrow> afail e
            | Inr _ \<Rightarrow> abind (branch_exists S pool name) (\<lambda>ex.
                if ex then afail (RefAlreadyExists name) else aret ())))"

definition validate_run_output_targets ::
  "'w sysops \<Rightarrow> string \<Rightarrow> string \<Rightarrow> string option \<Rightarrow> ('w, pool_error, unit) act" where
  "validate_run_output_targets S pool run_id output_branch =
     abind (check_output_branch S pool output_branch) (\<lambda>_.
     abind (branch_exists S pool (''runs/'' @ run_id)) (\<lambda>ex.
       if ex then afail (RefAlreadyExists (''runs/'' @ run_id)) else aret ()))"

definition accept_run_output ::
  "'w sysops \<Rightarrow> string \<Rightarrow> string \<Rightarrow> string option \<Rightarrow> string \<Rightarrow> ('w, pool_error, unit) act" where
  "accept_run_output S pool run_id output_branch source_repo =
     abind (validate_run_output_targets S pool run_id output_branch) (\<lambda>_.
     abind (run_git S ([''fetch'', ''--no-tags'', source_repo, ''HEAD:refs/heads/runs/'' @ run_id]
         @ (case output_branch of None \<Rightarrow> [] | Some name \<Rightarrow> [''HEAD:refs/heads/'' @ name])) (Some pool))
       (\<lambda>_. aret ()))"

definition keep_ref :: "namespace_filter \<Rightarrow> string \<Rightarrow> bool" where
  "keep_ref f n =
     (case f of
        FilterAll \<Rightarrow> True
      | FilterHost \<Rightarrow> prefix RESERVED_HOST n
      | FilterRuns \<Rightarrow> prefix RESERVED_RUNS n
      | FilterUserNamed \<Rightarrow> \<not> prefix RESERVED_HOST n \<and> \<not> prefix RESERVED_RUNS n)"

definition list_refs :: "'w sysops \<Rightarrow> string \<Rightarrow> namespace_filter \<Rightarrow> ('w, pool_error, string list) act" where
  "list_refs S pool f =
     abind (run_git S [''for-each-ref'', ''--format=%(refname:short)'', ''refs/heads/''] (Some pool))
       (\<lambda>out. aret (sort (filter (keep_ref f) (str_lines out))))"

text \<open>One entry of the validation pass: the entry resolved, and the temporary ref it pushed on
  the list \<open>temp_refs\<close>, if any. The pass returns the temporary refs also when it fails.\<close>

definition temp_ref :: "nat \<Rightarrow> string" where
  "temp_ref i = ''refs/bunsen-validate/'' @ show_nat i"

definition resolve_entry ::
  "'w sysops \<Rightarrow> string \<Rightarrow> string \<Rightarrow> nat \<Rightarrow> manifest_entry \<Rightarrow> ('w, pool_error, resolved_entry) act" where
  "resolve_entry S pool host_repo i e =
     abind (rev_parse S pool (''refs/heads/'' @ me_pool_ref e)) (\<lambda>pool_sha.
     abind (ls_remote S host_repo (''refs/heads/'' @ me_host_ref e)) (\<lambda>host_sha.
     abind (if host_sha \<noteq> None
            then run_git S [''fetch'', ''--no-tags'', host_repo,
                ''refs/heads/'' @ me_host_ref e @ '':'' @ temp_ref i] (Some pool)
            else aret []) (\<lambda>_.
     aret \<lparr> re_pool_ref = me_pool_ref e, re_host_ref = me_host_ref e, re_pool_sha = pool_sha,
            re_host_sha = host_sha, re_force = me_force e \<rparr>)))"

fun resolve_entries ::
  "'w sysops \<Rightarrow> string \<Rightarrow> string \<Rightarrow> nat \<Rightarrow> manifest_entry list \<Rightarrow> string list
     \<Rightarrow> 'w \<Rightarrow> (pool_error + resolved_entry list) \<times> string list \<times> 'w" where
  "resolve_entries S pool host_repo i [] temps w = (Inr [], temps, w)"
| "resolve_entries S pool host_repo i (e # es) temps w =
     (case resolve_entry S pool host_repo i e w of
        (Inl err, w1) \<Rightarrow> (Inl err, temps, w1)
      | (Inr r, w1) \<Rightarrow>
          let temps1 = (if re_host_sha r \<noteq> None then temps @ [temp_ref i] else temps)
          in case resolve_entries S pool host_repo (Suc i) es temps1 w1 of
               (Inl err, temps2, w2) \<Rightarrow> (Inl err, temps2, w2)
             | (Inr rs, temps2, w2) \<Rightarrow> (Inr (r # rs), temps2, w2))"

fun decide_entries :: "'w sysops \<Rightarrow> string \<Rightarrow> resolved_entry list \<Rightarrow> ('w, pool_error, unit) act" where
  "decide_entries S pool [] = aret ()"
| "decide_entries S pool (e # es) =
     (if re_force e then decide_entries S pool es
      else case re_host_sha e of
          None \<Rightarrow> decide_entries S pool es
        | Some host_sha \<Rightarrow>
            abind (is_ancestor S pool host_sha (re_pool_sha e)) (\<lambda>ff.
              if \<not> ff then afail (NotFastForward (re_pool_ref e) (re_host_ref e))
              else decide_entries S pool es))"

definition validate_manifest ::
  "'w sysops \<Rightarrow> string \<Rightarrow> string \<Rightarrow> manifest_entry list \<Rightarrow> 'w
     \<Rightarrow> (pool_error + unit) \<times> string list \<times> 'w" where
  "validate_manifest S pool host_repo kept w =
     (case resolve_entries S pool host_repo 0 kept [] w of
        (Inl e, temps, w1) \<Rightarrow> (Inl e, temps, w1)
      | (Inr rs, temps, w1) \<Rightarrow>
          (case decide_entries S pool rs w1 of (r, w2) \<Rightarrow> (r, temps, w2)))"

fun delete_temps :: "'w sysops \<Rightarrow> string \<Rightarrow> string list \<Rightarrow> 'w \<Rightarrow> 'w" where
  "delete_temps S pool [] w = w"
| "delete_temps S pool (t # ts) w =
     delete_temps S pool ts (snd (run_git S [''update-ref'', ''-d'', t] (Some pool) w))"

definition push_spec :: "manifest_entry \<Rightarrow> string" where
  "push_spec e = (if me_force e then ''+'' else []) @ ''refs/heads/'' @ me_pool_ref e
     @ '':refs/heads/'' @ me_host_ref e"

definition kept_entries :: "manifest_entry list \<Rightarrow> manifest_entry list" where
  "kept_entries manifest = filter (\<lambda>e. \<not> prefix RESERVED_RUNS (me_pool_ref e)) manifest"

definition push_manifest ::
  "'w sysops \<Rightarrow> string \<Rightarrow> string \<Rightarrow> manifest_entry list \<Rightarrow> ('w, pool_error, unit) act" where
  "push_manifest S pool host_repo manifest w =
     (let kept = kept_entries manifest in
      case validate_manifest S pool host_repo kept w of
        (validation, temps, w1) \<Rightarrow>
          let w2 = delete_temps S pool temps w1
          in case validation of
               Inl e \<Rightarrow> (Inl e, w2)
             | Inr _ \<Rightarrow>
                 if kept = [] then (Inr (), w2)
                 else abind (run_git S ([''push'', ''--atomic'', host_repo] @ map push_spec kept) (Some pool))
                        (\<lambda>_. aret ()) w2)"

definition wipe :: "'w sysops \<Rightarrow> string \<Rightarrow> ('w, pool_error, unit) act" where
  "wipe S pool w =
     (if sys_exists S pool w
      then (case sys_remove_dir S pool w of (True, w') \<Rightarrow> (Inr (), w') | (False, w') \<Rightarrow> (Inl PoolIo, w'))
      else (Inr (), w))"

section \<open>What the Pool relies on of git\<close>

text \<open>A repository is its refs (\<open>HEAD\<close> among them) and the objects it holds. Names are
  those the Pool passes on unquoted: no revision operators, no refspec syntax. A repository is
  plain when no ref nests a second \<open>refs/heads/\<close>, where git's search rules for short names
  and for \<open>ls-remote\<close> patterns could find another ref than the one named.\<close>

record git_repo =
  refs :: "string \<Rightarrow> string option"
  objs :: "string set"

definition plain_name :: "string \<Rightarrow> bool" where
  "plain_name n \<longleftrightarrow> n \<noteq> [] \<and> list_all (\<lambda>c. is_alnum c \<or> c \<in> set ''/-_.'') n \<and> \<not> contains n ''..''"

definition plain_repo :: "git_repo \<Rightarrow> bool" where
  "plain_repo r \<longleftrightarrow> (\<forall>n \<in> dom (refs r). \<not> contains n ''/refs/heads/'')"

definition is_sha :: "string \<Rightarrow> bool" where
  "is_sha s \<longleftrightarrow> s \<noteq> [] \<and> list_all is_hexdigit s"

type_synonym refspec = "bool \<times> string \<times> string"

fun show_spec :: "refspec \<Rightarrow> string" where
  "show_spec (f, s, d) = (if f then ''+'' else []) @ s @ '':'' @ d"

definition plain_specs :: "refspec list \<Rightarrow> bool" where
  "plain_specs specs \<longleftrightarrow> specs \<noteq> [] \<and> (\<forall>(f, s, d) \<in> set specs. plain_name s \<and> plain_name d)"

definition dsts :: "refspec list \<Rightarrow> string set" where
  "dsts specs = (\<lambda>(f, s, d). d) ` set specs"

text \<open>What one refspec of a command that succeeded did to the destination: it has the source's
  commit, and without the plus sign a branch was only moved forward.\<close>

definition spec_done ::
  "(string \<Rightarrow> string \<Rightarrow> bool) \<Rightarrow> (string \<Rightarrow> string option) \<Rightarrow> (string \<Rightarrow> string option)
     \<Rightarrow> (string \<Rightarrow> string option) \<Rightarrow> refspec \<Rightarrow> bool" where
  "spec_done anc src old new sp =
     (case sp of (f, s, d) \<Rightarrow>
        (case src s of
           None \<Rightarrow> False
         | Some x \<Rightarrow> new d = Some x \<and>
             (f \<or> \<not> prefix ''refs/heads/'' d \<or> (case old d of None \<Rightarrow> True | Some y \<Rightarrow> anc y x))))"

locale git_store =
  fixes S :: "'w sysops" and view :: "'w \<Rightarrow> string \<Rightarrow> git_repo" and anc :: "string \<Rightarrow> string \<Rightarrow> bool"
  assumes tip_obj: "refs (view w r) n = Some s \<Longrightarrow> s \<in> objs (view w r) \<and> is_sha s"
    and rev_parse_view: "sys_git S (Some r) [''rev-parse'', ''--verify'', n] w = (g, w') \<Longrightarrow> view w' = view w"
    and rev_parse_out:
      "sys_git S (Some r) [''rev-parse'', ''--verify'', n] w = (GitOut True out err, w') \<Longrightarrow>
        plain_repo (view w r) \<Longrightarrow> plain_name n \<Longrightarrow> prefix ''refs/heads/'' n \<Longrightarrow>
        \<exists>s. refs (view w r) n = Some s \<and> out = s @ [LF]"
    and ls_remote_view: "sys_git S None [''ls-remote'', r, n] w = (g, w') \<Longrightarrow> view w' = view w"
    and ls_remote_out:
      "sys_git S None [''ls-remote'', r, n] w = (GitOut True out err, w') \<Longrightarrow>
        plain_repo (view w r) \<Longrightarrow> plain_name n \<Longrightarrow> prefix ''refs/heads/'' n \<Longrightarrow>
        out = (case refs (view w r) n of None \<Rightarrow> [] | Some s \<Rightarrow> s @ CHR 0x09 # n @ [LF])"
    and show_ref_view: "sys_git S (Some r) [''show-ref'', ''--verify'', ''--quiet'', n] w = (g, w') \<Longrightarrow> view w' = view w"
    and show_ref_status:
      "sys_git S (Some r) [''show-ref'', ''--verify'', ''--quiet'', n] w = (GitOut ok out err, w') \<Longrightarrow>
        ok = (refs (view w r) n \<noteq> None)"
    and merge_base_view: "sys_git S (Some r) [''merge-base'', ''--is-ancestor'', a, d] w = (g, w') \<Longrightarrow> view w' = view w"
    and merge_base_status:
      "sys_git S (Some r) [''merge-base'', ''--is-ancestor'', a, d] w = (GitOut ok out err, w') \<Longrightarrow>
        a \<in> objs (view w r) \<Longrightarrow> d \<in> objs (view w r) \<Longrightarrow> ok = anc a d"
    and update_ref_frame:
      "sys_git S (Some r) [''update-ref'', ''-d'', t] w = (g, w') \<Longrightarrow>
        (\<forall>q. q \<noteq> r \<longrightarrow> view w' q = view w q) \<and> (\<forall>n. n \<noteq> t \<longrightarrow> refs (view w' r) n = refs (view w r) n)"
    and update_ref_done:
      "sys_git S (Some r) [''update-ref'', ''-d'', t] w = (GitOut True out err, w') \<Longrightarrow> refs (view w' r) t = None"
    and fetch_frame:
      "sys_git S (Some r) ([''fetch'', ''--no-tags'', h] @ map show_spec specs) w = (g, w') \<Longrightarrow>
        h \<noteq> r \<Longrightarrow> plain_specs specs \<Longrightarrow>
        (\<forall>q. q \<noteq> r \<longrightarrow> view w' q = view w q) \<and> objs (view w r) \<subseteq> objs (view w' r) \<and>
        (\<forall>n. n \<notin> dsts specs \<longrightarrow> refs (view w' r) n = refs (view w r) n)"
    and fetch_done:
      "sys_git S (Some r) ([''fetch'', ''--no-tags'', h] @ map show_spec specs) w = (GitOut True out err, w') \<Longrightarrow>
        h \<noteq> r \<Longrightarrow> plain_specs specs \<Longrightarrow>
        \<forall>sp \<in> set specs. spec_done anc (refs (view w h)) (refs (view w r)) (refs (view w' r)) sp"
    and push_frame:
      "sys_git S (Some r) ([''push'', ''--atomic'', h] @ map show_spec specs) w = (g, w') \<Longrightarrow>
        h \<noteq> r \<Longrightarrow> plain_specs specs \<Longrightarrow>
        (\<forall>q. q \<noteq> h \<longrightarrow> view w' q = view w q) \<and>
        (\<forall>n. n \<notin> dsts specs \<longrightarrow> refs (view w' h) n = refs (view w h) n) \<and>
        ((\<forall>out err. g \<noteq> GitOut True out err) \<longrightarrow> refs (view w' h) = refs (view w h))"
    and push_done:
      "sys_git S (Some r) ([''push'', ''--atomic'', h] @ map show_spec specs) w = (GitOut True out err, w') \<Longrightarrow>
        h \<noteq> r \<Longrightarrow> plain_specs specs \<Longrightarrow>
        \<forall>sp \<in> set specs. spec_done anc (refs (view w r)) (refs (view w h)) (refs (view w' h)) sp"

section \<open>A git over maps of refs\<close>

type_synonym sim_world = "string \<Rightarrow> git_repo"

definition sim_view :: "sim_world \<Rightarrow> string \<Rightarrow> git_repo" where
  "sim_view w r =
     (let R = (\<lambda>n. case refs (w r) n of None \<Rightarrow> None | Some s \<Rightarrow> if is_sha s then Some s else None)
      in \<lparr> refs = R, objs = objs (w r) \<union> ran R \<rparr>)"

definition parse_spec :: "string \<Rightarrow> refspec" where
  "parse_spec x =
     (let (f, y) = (if prefix ''+'' x then (True, tl x) else (False, x))
      in case split_once (CHR '':'') y of None \<Rightarrow> (f, [], []) | Some (s, d) \<Rightarrow> (f, s, d))"

text \<open>The effect of a fetch or a push: every refspec must be allowed, and then all are done.\<close>

definition moved :: "(string \<Rightarrow> string option) \<Rightarrow> refspec list \<Rightarrow> (string \<times> string) list" where
  "moved P specs = map (\<lambda>(f, s, d). (d, case P s of Some x \<Rightarrow> x | None \<Rightarrow> [])) specs"

definition allowed ::
  "(string \<Rightarrow> string \<Rightarrow> bool) \<Rightarrow> (string \<Rightarrow> string option) \<Rightarrow> (string \<Rightarrow> string option) \<Rightarrow> refspec \<Rightarrow> bool" where
  "allowed anc P H sp =
     (case sp of (f, s, d) \<Rightarrow>
       (case P s of
          None \<Rightarrow> False
        | Some x \<Rightarrow> f \<or> \<not> prefix ''refs/heads/'' d \<or> (case H d of None \<Rightarrow> True | Some y \<Rightarrow> anc y x)))"

definition sim_move ::
  "(string \<Rightarrow> string \<Rightarrow> bool) \<Rightarrow> string \<Rightarrow> string \<Rightarrow> refspec list \<Rightarrow> sim_world \<Rightarrow> git_result \<times> sim_world" where
  "sim_move anc src dst specs w =
     (let P = refs (sim_view w src); H = refs (sim_view w dst)
      in if distinct (map fst (moved P specs)) \<and> list_all (allowed anc P H) specs
         then (GitOut True [] [], w(dst := \<lparr> refs = H ++ map_of (moved P specs),
                  objs = objs (sim_view w dst) \<union> objs (sim_view w src) \<rparr>))
         else (GitOut False [] ''rejected'', w))"

definition sim_git ::
  "(string \<Rightarrow> string \<Rightarrow> bool) \<Rightarrow> string option \<Rightarrow> string list \<Rightarrow> sim_world \<Rightarrow> git_result \<times> sim_world" where
  "sim_git anc cwd args w =
     (let dir = (case cwd of None \<Rightarrow> [] | Some d \<Rightarrow> d);
          R = (\<lambda>r. refs (sim_view w r)); Ob = objs (sim_view w dir);
          cmd = args ! 0; a1 = args ! 1; a2 = args ! 2
      in if cmd = ''rev-parse'' then
           (case R dir a2 of None \<Rightarrow> GitOut False [] ''fatal'' | Some s \<Rightarrow> GitOut True (s @ [LF]) [], w)
         else if cmd = ''ls-remote'' then
           (GitOut True (case R a1 a2 of None \<Rightarrow> [] | Some s \<Rightarrow> s @ CHR 0x09 # a2 @ [LF]) [], w)
         else if cmd = ''show-ref'' then (GitOut (R dir (args ! 3) \<noteq> None) [] [], w)
         else if cmd = ''merge-base'' then
           (GitOut (a2 \<in> Ob \<and> args ! 3 \<in> Ob \<and> anc a2 (args ! 3)) [] [], w)
         else if cmd = ''update-ref'' then
           (GitOut True [] [], w(dir := (w dir)\<lparr> refs := (refs (w dir))(a2 := None) \<rparr>))
         else if cmd = ''fetch'' then sim_move anc a2 dir (map parse_spec (drop 3 args)) w
         else if cmd = ''push'' then sim_move anc dir a2 (map parse_spec (drop 3 args)) w
         else (GitOut False [] ''unknown'', w))"

definition sim_ops :: "(string \<Rightarrow> string \<Rightarrow> bool) \<Rightarrow> sim_world sysops" where
  "sim_ops anc = \<lparr> sys_git = sim_git anc, sys_create_dir = (\<lambda>p w. (True, w)),
     sys_exists = (\<lambda>p w. True), sys_remove_dir = (\<lambda>p w. (True, w)) \<rparr>"

lemma plain_name_chars:
  assumes "plain_name n"
  shows "n \<noteq> []" "CHR '':'' \<notin> set n" "\<not> prefix ''+'' (n @ r)"
proof -
  show n: "n \<noteq> []" using assms by (simp add: plain_name_def)
  have *: "\<forall>c \<in> set n. is_alnum c \<or> c \<in> set ''/-_.''"
    using assms by (simp add: plain_name_def list_all_iff)
  have "\<not> is_alnum (CHR '':'')" "\<not> is_alnum (CHR ''+'')" by code_simp+
  then have no: "c \<in> set n \<Longrightarrow> c \<noteq> CHR '':'' \<and> c \<noteq> CHR ''+''" for c using * by auto
  show "CHR '':'' \<notin> set n" using no by blast
  show "\<not> prefix ''+'' (n @ r)" using n no by (cases n) auto
qed

lemma parse_show_spec:
  "plain_name s \<Longrightarrow> plain_name d \<Longrightarrow> parse_spec (show_spec (f, s, d)) = (f, s, d)"
  using plain_name_chars [of s] plain_name_chars(3) [of s "'':'' @ d"]
  by (simp add: parse_spec_def split_once_append)

lemma map_parse_show: "plain_specs specs \<Longrightarrow> map (parse_spec \<circ> show_spec) specs = specs"
  unfolding plain_specs_def by (rule map_idI) (auto simp: parse_show_spec simp del: show_spec.simps)

lemma sim_view_tip: "refs (sim_view w r) n = Some s \<Longrightarrow> s \<in> objs (sim_view w r) \<and> is_sha s"
  by (auto simp: sim_view_def Let_def ran_def split: option.splits if_splits)

lemma sim_view_raw:
  assumes "\<And>n x. R n = Some x \<Longrightarrow> is_sha x"
  shows "refs (sim_view (w(r := \<lparr> refs = R, objs = Ob \<rparr>)) r) = R"
proof
  fix n
  show "refs (sim_view (w(r := \<lparr> refs = R, objs = Ob \<rparr>)) r) n = R n"
    using assms by (cases "R n") (simp_all add: sim_view_def Let_def)
qed

lemma sim_view_upd_other: "q \<noteq> r \<Longrightarrow> sim_view (w(r := x)) q = sim_view w q"
  by (simp add: sim_view_def)

lemma fst_moved: "fst ` set (moved P specs) = dsts specs"
  by (force simp: moved_def dsts_def)

lemma sim_move_ok:
  assumes "sim_move anc src dst specs w = (GitOut True out err, w')"
  shows "distinct (map fst (moved (refs (sim_view w src)) specs))"
    and "list_all (allowed anc (refs (sim_view w src)) (refs (sim_view w dst))) specs"
    and "w' = w(dst := \<lparr> refs = refs (sim_view w dst) ++ map_of (moved (refs (sim_view w src)) specs),
                  objs = objs (sim_view w dst) \<union> objs (sim_view w src) \<rparr>)"
  using assms by (simp_all add: sim_move_def Let_def split: if_splits)

lemma allowed_src: "allowed anc P H (f, s, d) \<Longrightarrow> \<exists>x. P s = Some x"
  by (cases "P s") (simp_all add: allowed_def)

lemma sim_move_cases:
  assumes "sim_move anc src dst specs w = (g, w')"
  shows "(g = GitOut True [] [] \<or> (g = GitOut False [] ''rejected'' \<and> w' = w))"
  using assms by (auto simp: sim_move_def Let_def split: if_splits)

lemma sim_move_view:
  assumes "sim_move anc src dst specs w = (GitOut True out err, w')"
  shows "refs (sim_view w' dst) = refs (sim_view w dst) ++ map_of (moved (refs (sim_view w src)) specs)"
    and "objs (sim_view w dst) \<subseteq> objs (sim_view w' dst)"
proof -
  note ok = sim_move_ok [OF assms]
  let ?P = "refs (sim_view w src)" and ?H = "refs (sim_view w dst)"
  have sha: "is_sha x" if "(?H ++ map_of (moved ?P specs)) n = Some x" for n x
  proof -
    consider "?H n = Some x" | "map_of (moved ?P specs) n = Some x"
      using \<open>(?H ++ map_of (moved ?P specs)) n = Some x\<close> unfolding map_add_Some_iff by blast
    then show ?thesis
    proof cases
      case 1
      then show ?thesis using sim_view_tip by blast
    next
      case 2
      then have "(n, x) \<in> set (moved ?P specs)" by (rule map_of_SomeD)
      then obtain f s where "(f, s, n) \<in> set specs" "x = (case ?P s of Some x \<Rightarrow> x | None \<Rightarrow> [])"
        by (auto simp: moved_def)
      then have "?P s = Some x" using ok(2) allowed_src by (fastforce simp: list_all_iff)
      then show ?thesis using sim_view_tip by blast
    qed
  qed
  show "refs (sim_view w' dst) = ?H ++ map_of (moved ?P specs)"
    unfolding ok(3) by (rule sim_view_raw) (rule sha)
  show "objs (sim_view w dst) \<subseteq> objs (sim_view w' dst)"
    unfolding ok(3) by (auto simp: sim_view_def [of "w(dst := _)"] Let_def)
qed

lemma sim_move_done:
  assumes "sim_move anc src dst specs w = (GitOut True out err, w')" and "sp \<in> set specs"
  shows "spec_done anc (refs (sim_view w src)) (refs (sim_view w dst)) (refs (sim_view w' dst)) sp"
proof -
  obtain f s d where sp: "sp = (f, s, d)" by (cases sp)
  note ok = sim_move_ok [OF assms(1)]
  have al: "allowed anc (refs (sim_view w src)) (refs (sim_view w dst)) (f, s, d)"
    using ok(2) assms(2) sp by (simp add: list_all_iff)
  then obtain x where x: "refs (sim_view w src) s = Some x" using allowed_src by blast
  have "(d, x) \<in> set (moved (refs (sim_view w src)) specs)"
    using assms(2) x unfolding sp moved_def by force
  then have "map_of (moved (refs (sim_view w src)) specs) d = Some x"
    by (rule map_of_is_SomeI [OF ok(1)])
  then show ?thesis using x al by (simp add: spec_done_def allowed_def sp sim_move_view(1) [OF assms(1)])
qed

lemma sim_move_frame:
  assumes "sim_move anc src dst specs w = (g, w')"
  shows "q \<noteq> dst \<Longrightarrow> sim_view w' q = sim_view w q"
    and "n \<notin> dsts specs \<Longrightarrow> refs (sim_view w' dst) n = refs (sim_view w dst) n"
    and "objs (sim_view w dst) \<subseteq> objs (sim_view w' dst)"
    and "\<forall>out err. g \<noteq> GitOut True out err \<Longrightarrow> w' = w"
proof -
  have c: "w' = w \<or> sim_move anc src dst specs w = (GitOut True [] [], w')"
    using sim_move_cases [OF assms] assms by auto
  show "sim_view w' q = sim_view w q" if "q \<noteq> dst"
    using c sim_move_ok(3) that by (metis sim_view_upd_other)
  show "refs (sim_view w' dst) n = refs (sim_view w dst) n" if "n \<notin> dsts specs"
  proof -
    have "map_of (moved P specs) n = None" for P
      using that by (simp add: map_of_eq_None_iff fst_moved)
    then show ?thesis using c sim_move_view(1) by (auto simp: map_add_def)
  qed
  show "objs (sim_view w dst) \<subseteq> objs (sim_view w' dst)"
    using c sim_move_view(2) by blast
  show "\<forall>out err. g \<noteq> GitOut True out err \<Longrightarrow> w' = w"
    using sim_move_cases [OF assms] by blast
qed

lemma sim_git_cmds:
  "sim_git anc (Some r) [''rev-parse'', ''--verify'', n] w =
     (case refs (sim_view w r) n of None \<Rightarrow> GitOut False [] ''fatal'' | Some s \<Rightarrow> GitOut True (s @ [LF]) [], w)"
  "sim_git anc None [''ls-remote'', r, n] w =
     (GitOut True (case refs (sim_view w r) n of None \<Rightarrow> [] | Some s \<Rightarrow> s @ CHR 0x09 # n @ [LF]) [], w)"
  "sim_git anc (Some r) [''show-ref'', ''--verify'', ''--quiet'', n] w =
     (GitOut (refs (sim_view w r) n \<noteq> None) [] [], w)"
  "sim_git anc (Some r) [''merge-base'', ''--is-ancestor'', a, d] w =
     (GitOut (a \<in> objs (sim_view w r) \<and> d \<in> objs (sim_view w r) \<and> anc a d) [] [], w)"
  "sim_git anc (Some r) [''update-ref'', ''-d'', t] w =
     (GitOut True [] [], w(r := (w r)\<lparr> refs := (refs (w r))(t := None) \<rparr>))"
  "plain_specs specs \<Longrightarrow> sim_git anc (Some r) ([''fetch'', ''--no-tags'', h] @ map show_spec specs) w =
     sim_move anc h r specs w"
  "plain_specs specs \<Longrightarrow> sim_git anc (Some r) ([''push'', ''--atomic'', h] @ map show_spec specs) w =
     sim_move anc r h specs w"
  by (simp_all add: sim_git_def Let_def map_parse_show)

lemma sim_ops_git [simp]: "sys_git (sim_ops anc) = sim_git anc"
  by (simp add: sim_ops_def)

lemma sim_update_ref:
  "refs (sim_view (w(r := (w r)\<lparr> refs := (refs (w r))(t := None) \<rparr>)) r) n =
     (if n = t then None else refs (sim_view w r) n)"
  by (simp add: sim_view_def Let_def)

interpretation simgit: git_store "sim_ops anc" sim_view anc
  apply (unfold_locales, unfold sim_ops_git)
  subgoal by (rule sim_view_tip)
  subgoal by (simp add: sim_git_cmds)
  subgoal by (simp add: sim_git_cmds split: option.splits)
  subgoal by (simp add: sim_git_cmds)
  subgoal by (auto simp: sim_git_cmds)
  subgoal by (simp add: sim_git_cmds)
  subgoal by (auto simp: sim_git_cmds)
  subgoal by (simp add: sim_git_cmds)
  subgoal by (auto simp: sim_git_cmds)
  subgoal by (auto simp add: sim_git_cmds sim_view_upd_other sim_update_ref)
  subgoal by (auto simp add: sim_git_cmds sim_update_ref)
  subgoal unfolding sim_git_cmds by (simp add: sim_move_frame)
  subgoal unfolding sim_git_cmds by (blast intro: sim_move_done)
  subgoal unfolding sim_git_cmds using sim_move_frame(4) by (fastforce simp: sim_move_frame(1-3))
  subgoal unfolding sim_git_cmds by (blast intro: sim_move_done)
  done

section \<open>The Pool over any such git\<close>

text \<open>A manifest resolved on the maps of refs, without git.\<close>

definition resolved :: "(string \<Rightarrow> string option) \<Rightarrow> (string \<Rightarrow> string option) \<Rightarrow> manifest_entry \<Rightarrow> resolved_entry" where
  "resolved P H e =
     \<lparr> re_pool_ref = me_pool_ref e, re_host_ref = me_host_ref e,
       re_pool_sha = (case P (''refs/heads/'' @ me_pool_ref e) of Some s \<Rightarrow> s | None \<Rightarrow> []),
       re_host_sha = H (''refs/heads/'' @ me_host_ref e), re_force = me_force e \<rparr>"

definition spec_of :: "manifest_entry \<Rightarrow> refspec" where
  "spec_of e = (me_force e, ''refs/heads/'' @ me_pool_ref e, ''refs/heads/'' @ me_host_ref e)"

definition plain_entry :: "manifest_entry \<Rightarrow> bool" where
  "plain_entry e \<longleftrightarrow> plain_name (''refs/heads/'' @ me_pool_ref e) \<and> plain_name (''refs/heads/'' @ me_host_ref e)"

fun git_error :: "pool_error \<Rightarrow> bool" where
  "git_error PoolIo = True"
| "git_error (PoolGit c e) = True"
| "git_error e = False"

lemma git_error_neq [simp]:
  "git_error e \<Longrightarrow> e \<noteq> NotFastForward p h" "git_error e \<Longrightarrow> e \<noteq> RefAlreadyExists n"
  "git_error e \<Longrightarrow> e \<noteq> ReservedNamespace n m"
  by auto

lemma push_spec_show: "push_spec e = show_spec (spec_of e)"
  by (simp add: push_spec_def spec_of_def)

lemma run_git_cases:
  assumes "run_git S args cwd w = (x, w')"
  obtains out err where "x = Inr out" "sys_git S cwd args w = (GitOut True out err, w')"
  | g e where "x = Inl e" "git_error e" "sys_git S cwd args w = (g, w')" "\<forall>out err. g \<noteq> GitOut True out err"
  using assms by (auto simp: run_git_def split: prod.splits git_result.splits if_splits)

lemma git_status_cases:
  assumes "git_status S args cwd w = (x, w')"
  obtains ok out err where "x = Inr ok" "sys_git S (Some cwd) args w = (GitOut ok out err, w')"
  | "x = Inl PoolIo" "sys_git S (Some cwd) args w = (GitIoErr, w')"
  using assms by (auto simp: git_status_def split: prod.splits git_result.splits)

lemma is_sha_chars: "is_sha s \<Longrightarrow> c \<in> set s \<Longrightarrow> \<not> is_ws c \<and> c \<noteq> LF"
  by (auto simp: is_sha_def list_all_iff is_hexdigit_def is_digit_def is_ws_def)

lemma trim_sha_line: "is_sha s \<Longrightarrow> trim (s @ [LF]) = s"
proof -
  assume s: "is_sha s"
  then have ne: "s \<noteq> []" and "\<not> is_ws (hd s)" "\<not> is_ws (last s)"
    using is_sha_chars [OF s] by (auto simp: is_sha_def)
  then show ?thesis
    using trim_end_matches_id [of s is_ws]
    by (cases s) (auto simp: trim_def trim_start_def trim_end_matches_def is_ws_def)
qed

lemma first_word_sha:
  assumes "is_sha s" and "LF \<notin> set n"
  shows "\<exists>l ls ws. str_lines (s @ CHR 0x09 # n @ [LF]) = l # ls \<and> split_whitespace l = s # ws"
proof -
  let ?l = "s @ CHR 0x09 # n"
  have "split_by (\<lambda>x. x = LF) (?l @ LF # []) = ?l # split_by (\<lambda>x. x = LF) []"
    using assms is_sha_chars by (intro split_by_append_sep) auto
  then have "str_lines (?l @ [LF]) = [strip_cr ?l]"
    by (simp add: str_lines_def split_on_def)
  moreover obtain m where "strip_cr ?l = s @ CHR 0x09 # m"
  proof -
    have "strip_cr ?l \<in> {s @ CHR 0x09 # n, s @ CHR 0x09 # butlast n}"
      by (cases "n = []") (simp_all add: strip_cr_def butlast_append)
    then show ?thesis using that by blast
  qed
  moreover have "split_by is_ws (s @ CHR 0x09 # m) = s # split_by is_ws m"
    using assms is_sha_chars by (intro split_by_append_sep) (auto simp: is_ws_def)
  ultimately show ?thesis
    using assms(1) by (simp add: split_whitespace_def is_sha_def)
qed

lemma plain_name_no_LF: "plain_name n \<Longrightarrow> LF \<notin> set n"
  by (auto simp: plain_name_def list_all_iff is_alnum_def is_digit_def)

lemma temp_ref_plain: "plain_name (temp_ref i)"
proof -
  have "\<forall>c \<in> set (show_nat i). (is_alnum c \<or> c \<in> set ''/-_.'') \<and> c \<noteq> CHR ''.''"
    using show_nat_digits [of _ i] show_nat_no [of "CHR ''.''" i] by (auto simp: is_alnum_def is_digit_def)
  moreover have "list_all (\<lambda>c. (is_alnum c \<or> c \<in> set ''/-_.'') \<and> c \<noteq> CHR ''.'') ''refs/bunsen-validate/''"
    by code_simp
  ultimately have c: "\<forall>c \<in> set (temp_ref i). (is_alnum c \<or> c \<in> set ''/-_.'') \<and> c \<noteq> CHR ''.''"
    unfolding temp_ref_def list_all_iff set_append by blast
  then have "CHR ''.'' \<notin> set (temp_ref i)" by blast
  then have "\<not> contains (temp_ref i) ''..''"
    unfolding contains_iff using set_mono_sublist [of "''..''" "temp_ref i"] by auto
  moreover have "temp_ref i \<noteq> []" by (simp add: temp_ref_def)
  ultimately show ?thesis unfolding plain_name_def list_all_iff using c by blast
qed

lemma temp_ref_not_nested: "\<not> contains (temp_ref i) ''/refs/heads/''"
proof
  assume "contains (temp_ref i) ''/refs/heads/''"
  then obtain a b where ab: "temp_ref i = a @ ''/refs/heads/'' @ b" unfolding contains_iff sublist_def by blast
  have "filter (\<lambda>c. c = CHR ''/'') (show_nat i) = []"
    using show_nat_no [of "CHR ''/''" i] by (auto simp: filter_empty_conv is_digit_def)
  then have "length (filter (\<lambda>c. c = CHR ''/'') (temp_ref i)) = 2" by (simp add: temp_ref_def)
  then show False unfolding ab by simp
qed

lemma temp_ref_not_head: "temp_ref i \<noteq> ''refs/heads/'' @ n"
  by (simp add: temp_ref_def)

text \<open>What a validation pass may do to the world: it leaves every other repository alone, and
  in the Pool it adds objects and moves temporary refs only.\<close>

definition pool_step :: "('w \<Rightarrow> string \<Rightarrow> git_repo) \<Rightarrow> string \<Rightarrow> 'w \<Rightarrow> 'w \<Rightarrow> bool" where
  "pool_step view pool w w' \<longleftrightarrow>
     (\<forall>q. q \<noteq> pool \<longrightarrow> view w' q = view w q) \<and> objs (view w pool) \<subseteq> objs (view w' pool) \<and>
     (\<forall>n. n \<notin> range temp_ref \<longrightarrow> refs (view w' pool) n = refs (view w pool) n)"

lemma pool_step_refl: "view w' = view w \<Longrightarrow> pool_step view pool w w'"
  by (simp add: pool_step_def)

lemma pool_step_trans: "pool_step view pool w w' \<Longrightarrow> pool_step view pool w' w'' \<Longrightarrow> pool_step view pool w w''"
  unfolding pool_step_def by (intro conjI allI impI) (auto intro: order_trans)

lemma pool_step_heads:
  "pool_step view pool w w' \<Longrightarrow> refs (view w' pool) (''refs/heads/'' @ n) = refs (view w pool) (''refs/heads/'' @ n)"
proof -
  assume st: "pool_step view pool w w'"
  have "''refs/heads/'' @ n \<notin> range temp_ref" using temp_ref_not_head by (metis rangeE)
  then show ?thesis using st unfolding pool_step_def by blast
qed

lemma pool_step_plain:
  assumes "pool_step view pool w w'" and "plain_repo (view w pool)"
  shows "plain_repo (view w' pool)"
  unfolding plain_repo_def
proof
  fix n assume n: "n \<in> dom (refs (view w' pool))"
  show "\<not> contains n ''/refs/heads/''"
  proof (cases "n \<in> range temp_ref")
    case True
    then show ?thesis using temp_ref_not_nested by auto
  next
    case False
    then show ?thesis using n assms by (auto simp: pool_step_def plain_repo_def dom_def)
  qed
qed

text \<open>Validation of the targets of a Run's output changes nothing, and passes exactly when the
  audit ref is free and the branch, if any, is a free name outside the reserved namespaces.\<close>

definition target_free :: "(string \<Rightarrow> string option) \<Rightarrow> string \<Rightarrow> string option \<Rightarrow> bool" where
  "target_free P run_id ob \<longleftrightarrow> P (''refs/heads/runs/'' @ run_id) = None \<and>
     (\<forall>b. ob = Some b \<longrightarrow> \<not> prefix ''host/'' b \<and> \<not> prefix ''runs/'' b \<and> P (''refs/heads/'' @ b) = None)"

lemma target_freeD:
  assumes "target_free P run_id ob"
  shows "P (''refs/heads/runs/'' @ run_id) = None"
    and "ob = Some b \<Longrightarrow> \<not> prefix ''host/'' b \<and> \<not> prefix ''runs/'' b \<and> P (''refs/heads/'' @ b) = None"
  using assms [unfolded target_free_def] by blast+

context git_store
begin

lemma rev_parse_spec:
  assumes "rev_parse S r n w = (x, w')" "plain_repo (view w r)" "plain_name n" "prefix ''refs/heads/'' n"
  shows "view w' = view w \<and> (\<forall>s. x = Inr s \<longrightarrow> refs (view w r) n = Some s) \<and> (\<forall>e. x = Inl e \<longrightarrow> git_error e)"
proof -
  obtain x1 w1 where g: "run_git S [''rev-parse'', ''--verify'', n] (Some r) w = (x1, w1)" by fastforce
  have w1: "w' = w1" and x: "x = (case x1 of Inl e \<Rightarrow> Inl e | Inr out \<Rightarrow> Inr (trim out))"
    using assms(1) g by (auto simp: rev_parse_def abind_def split: sum.splits)
  from g show ?thesis
  proof (cases rule: run_git_cases)
    case (1 out err)
    then obtain s where "refs (view w r) n = Some s" "out = s @ [LF]"
      using rev_parse_out assms by blast
    then show ?thesis using 1 tip_obj rev_parse_view by (auto simp: x w1 trim_sha_line)
  next
    case 2
    then show ?thesis using rev_parse_view by (auto simp: x w1)
  qed
qed

lemma ls_remote_spec:
  assumes "ls_remote S r n w = (x, w')" "plain_repo (view w r)" "plain_name n" "prefix ''refs/heads/'' n"
  shows "view w' = view w \<and> (\<forall>s. x = Inr s \<longrightarrow> refs (view w r) n = s) \<and> (\<forall>e. x = Inl e \<longrightarrow> git_error e)"
proof -
  obtain x1 w1 where g: "run_git S [''ls-remote'', r, n] None w = (x1, w1)" by fastforce
  have w1: "w' = w1" and x: "x = (case x1 of Inl e \<Rightarrow> Inl e | Inr out \<Rightarrow>
      Inr (case str_lines out of [] \<Rightarrow> None
             | l # _ \<Rightarrow> (case split_whitespace l of [] \<Rightarrow> None | x # _ \<Rightarrow> Some x)))"
    using assms(1) g by (auto simp: ls_remote_def abind_def split: sum.splits)
  from g show ?thesis
  proof (cases rule: run_git_cases)
    case (1 out err)
    have out: "out = (case refs (view w r) n of None \<Rightarrow> [] | Some s \<Rightarrow> s @ CHR 0x09 # n @ [LF])"
      using ls_remote_out [OF 1(2)] assms by blast
    show ?thesis
    proof (cases "refs (view w r) n")
      case None
      have "str_lines [] = []" by (simp add: str_lines_def split_on_def)
      then show ?thesis using None 1 out ls_remote_view by (auto simp: x w1)
    next
      case (Some s)
      then show ?thesis
        using first_word_sha [of s n] tip_obj [OF Some] plain_name_no_LF [OF assms(3)] 1 out ls_remote_view
        by (auto simp: x w1)
    qed
  next
    case 2
    then show ?thesis using ls_remote_view by (auto simp: x w1)
  qed
qed

lemma fetch_temp_spec:
  assumes "run_git S [''fetch'', ''--no-tags'', h, n @ '':'' @ temp_ref i] (Some pool) w = (x, w')"
    and "h \<noteq> pool" "plain_name n"
  shows "pool_step view pool w w' \<and> (\<forall>s. x = Inr s \<longrightarrow> (\<exists>y. refs (view w h) n = Some y \<and> y \<in> objs (view w' pool)))
    \<and> (\<forall>e. x = Inl e \<longrightarrow> git_error e)"
proof -
  let ?sp = "[(False, n, temp_ref i)]"
  have args: "[''fetch'', ''--no-tags'', h, n @ '':'' @ temp_ref i] = [''fetch'', ''--no-tags'', h] @ map show_spec ?sp"
    by simp
  have pl: "plain_specs ?sp" using assms(3) temp_ref_plain by (simp add: plain_specs_def)
  have fr: "pool_step view pool w w'" if "sys_git S (Some pool) ([''fetch'', ''--no-tags'', h] @ map show_spec ?sp) w = (g, w')" for g
    using fetch_frame [OF that assms(2) pl] by (auto simp: pool_step_def dsts_def)
  from assms(1) [unfolded args] show ?thesis
  proof (cases rule: run_git_cases)
    case (1 out err)
    obtain y where "refs (view w h) n = Some y" "refs (view w' pool) (temp_ref i) = Some y"
      using fetch_done [OF 1(2) assms(2) pl] by (auto simp: spec_done_def split: option.splits)
    then show ?thesis using 1 fr tip_obj by blast
  next
    case 2
    then show ?thesis using fr by auto
  qed
qed

lemma resolve_entry_spec:
  assumes "resolve_entry S pool h i e w = (x, w')" and "h \<noteq> pool" "plain_entry e"
    and "plain_repo (view w pool)" "plain_repo (view w h)"
  shows "pool_step view pool w w' \<and> (\<forall>err. x = Inl err \<longrightarrow> git_error err) \<and>
    (\<forall>r. x = Inr r \<longrightarrow> r = resolved (refs (view w pool)) (refs (view w h)) e
      \<and> refs (view w pool) (''refs/heads/'' @ me_pool_ref e) \<noteq> None
      \<and> re_pool_sha r \<in> objs (view w' pool) \<and> (\<forall>s. re_host_sha r = Some s \<longrightarrow> s \<in> objs (view w' pool)))"
proof -
  let ?p = "''refs/heads/'' @ me_pool_ref e" and ?h = "''refs/heads/'' @ me_host_ref e"
  have pn: "plain_name ?p" "plain_name ?h" using assms(3) by (simp_all add: plain_entry_def)
  obtain x1 w1 where 1: "rev_parse S pool ?p w = (x1, w1)" by fastforce
  obtain x2 w2 where 2: "ls_remote S h ?h w1 = (x2, w2)" by fastforce
  let ?m = "\<lambda>hs. if hs \<noteq> None then run_git S [''fetch'', ''--no-tags'', h,
      ''refs/heads/'' @ me_host_ref e @ '':'' @ temp_ref i] (Some pool) else aret []"
  obtain x3 w3 where 3: "?m (case x2 of Inr hs \<Rightarrow> hs | Inl _ \<Rightarrow> None) w2 = (x3, w3)" by fastforce
  have v1: "view w1 = view w" "\<forall>s. x1 = Inr s \<longrightarrow> refs (view w pool) ?p = Some s" "\<forall>e. x1 = Inl e \<longrightarrow> git_error e"
    using rev_parse_spec [OF 1 assms(4) pn(1)] by simp_all
  have v2: "view w2 = view w" "\<forall>s. x2 = Inr s \<longrightarrow> refs (view w h) ?h = s" "\<forall>e. x2 = Inl e \<longrightarrow> git_error e"
    using ls_remote_spec [OF 2 _ pn(2)] v1 assms(5) by simp_all
  have v3: "pool_step view pool w w3 \<and> (\<forall>e. x3 = Inl e \<longrightarrow> git_error e) \<and>
      (\<forall>s y. x3 = Inr s \<longrightarrow> x2 = Inr (Some y) \<longrightarrow> y \<in> objs (view w3 pool))"
  proof (cases "\<exists>y. x2 = Inr (Some y)")
    case True
    then obtain y where y: "x2 = Inr (Some y)" by blast
    have "run_git S [''fetch'', ''--no-tags'', h, ?h @ '':'' @ temp_ref i] (Some pool) w2 = (x3, w3)"
      using 3 y by simp
    from fetch_temp_spec [OF this assms(2) pn(2)] v2 y show ?thesis
      by (auto simp: pool_step_def)
  next
    case False
    then have "x3 = Inr []" "w3 = w2" using 3 by (auto split: sum.splits)
    then show ?thesis using False v2 by (auto simp: pool_step_refl)
  qed
  have "x = (case x1 of Inl e \<Rightarrow> Inl e | Inr ps \<Rightarrow> case x2 of Inl e \<Rightarrow> Inl e | Inr hs \<Rightarrow>
      case x3 of Inl e \<Rightarrow> Inl e | Inr _ \<Rightarrow>
        Inr \<lparr> re_pool_ref = me_pool_ref e, re_host_ref = me_host_ref e, re_pool_sha = ps,
              re_host_sha = hs, re_force = me_force e \<rparr>)
    \<and> w' = (case x1 of Inl e \<Rightarrow> w1 | Inr ps \<Rightarrow> case x2 of Inl e \<Rightarrow> w2 | Inr hs \<Rightarrow> w3)"
    using assms(1) 1 2 3 by (cases x1; cases x2; cases x3) (auto simp: resolve_entry_def abind_def)
  moreover have "s \<in> objs (view w3 pool)" if "refs (view w pool) ?p = Some s" for s
    using that v3 tip_obj by (auto simp: pool_step_def)
  ultimately show ?thesis using v1 v2 v3
    by (cases x1; cases x2; cases x3) (auto simp: pool_step_refl resolved_def)
qed

lemma resolve_entries_spec:
  assumes "resolve_entries S pool h i es temps w = (x, temps', w')"
    and "h \<noteq> pool" "\<forall>e \<in> set es. plain_entry e" "set temps \<subseteq> range temp_ref"
    and "plain_repo (view w pool)" "plain_repo (view w h)"
  shows "pool_step view pool w w' \<and> set temps' \<subseteq> range temp_ref \<and> (\<forall>err. x = Inl err \<longrightarrow> git_error err) \<and>
    (\<forall>rs. x = Inr rs \<longrightarrow> rs = map (resolved (refs (view w pool)) (refs (view w h))) es
      \<and> (\<forall>e \<in> set es. refs (view w pool) (''refs/heads/'' @ me_pool_ref e) \<noteq> None)
      \<and> (\<forall>r \<in> set rs. re_pool_sha r \<in> objs (view w' pool)
          \<and> (\<forall>s. re_host_sha r = Some s \<longrightarrow> s \<in> objs (view w' pool))))"
  using assms
proof (induction es arbitrary: i temps w x temps' w')
  case Nil
  then show ?case by (auto simp: pool_step_refl)
next
  case (Cons e es)
  obtain x1 w1 where 1: "resolve_entry S pool h i e w = (x1, w1)" by fastforce
  note r1 = resolve_entry_spec [OF 1 Cons.prems(2) _ Cons.prems(5,6)]
  have st1: "pool_step view pool w w1" using r1 Cons.prems(3) by simp
  show ?case
  proof (cases x1)
    case (Inl err)
    then show ?thesis using Cons.prems r1 1 by auto
  next
    case (Inr r)
    let ?t1 = "if re_host_sha r \<noteq> None then temps @ [temp_ref i] else temps"
    obtain x2 t2 w2 where 2: "resolve_entries S pool h (Suc i) es ?t1 w1 = (x2, t2, w2)"
      by (cases "resolve_entries S pool h (Suc i) es ?t1 w1")
    have same: "view w1 h = view w h" "resolved (refs (view w1 pool)) = resolved (refs (view w pool))"
      "\<And>n. refs (view w1 pool) (''refs/heads/'' @ n) = refs (view w pool) (''refs/heads/'' @ n)"
      using st1 Cons.prems(2) pool_step_heads [OF st1] by (auto simp: pool_step_def resolved_def fun_eq_iff)
    have ih: "pool_step view pool w1 w2 \<and> set t2 \<subseteq> range temp_ref \<and> (\<forall>err. x2 = Inl err \<longrightarrow> git_error err) \<and>
        (\<forall>rs. x2 = Inr rs \<longrightarrow> rs = map (resolved (refs (view w1 pool)) (refs (view w1 h))) es
          \<and> (\<forall>e \<in> set es. refs (view w1 pool) (''refs/heads/'' @ me_pool_ref e) \<noteq> None)
          \<and> (\<forall>r \<in> set rs. re_pool_sha r \<in> objs (view w2 pool)
              \<and> (\<forall>s. re_host_sha r = Some s \<longrightarrow> s \<in> objs (view w2 pool))))"
      using Cons.prems pool_step_plain [OF st1] same by (intro Cons.IH [OF 2]) auto
    have fin: "temps' = t2" "w' = w2" "x = (case x2 of Inl e \<Rightarrow> Inl e | Inr rs \<Rightarrow> Inr (r # rs))"
      using Cons.prems(1) 1 Inr 2 by (auto split: sum.splits)
    have "re_pool_sha r \<in> objs (view w2 pool) \<and> (\<forall>s. re_host_sha r = Some s \<longrightarrow> s \<in> objs (view w2 pool))"
      using r1 Cons.prems(3) Inr ih by (auto simp: pool_step_def)
    then show ?thesis
      using ih r1 Inr Cons.prems(3) same pool_step_trans [OF st1, of w2]
      unfolding fin by (auto split: sum.splits)
  qed
qed

lemma decide_entries_spec:
  assumes "decide_entries S pool rs w = (x, w')"
    and "\<forall>r \<in> set rs. re_pool_sha r \<in> objs (view w pool) \<and> (\<forall>s. re_host_sha r = Some s \<longrightarrow> s \<in> objs (view w pool))"
  shows "view w' = view w \<and> (x = Inl PoolIo \<or> x = validate_resolved_manifest rs anc)"
  using assms
proof (induction rs arbitrary: w)
  case (Cons r rs)
  show ?case
  proof (cases "re_force r \<or> re_host_sha r = None")
    case True
    then show ?thesis using Cons by (auto split: option.splits)
  next
    case False
    then obtain hs where f: "\<not> re_force r" "re_host_sha r = Some hs" by auto
    obtain y w1 where g: "git_status S [''merge-base'', ''--is-ancestor'', hs, re_pool_sha r] pool w = (y, w1)"
      by fastforce
    then have v1: "view w1 = view w" by (cases rule: git_status_cases) (auto dest: merge_base_view)
    from g show ?thesis
    proof (cases rule: git_status_cases)
      case (1 ok out err)
      have ok: "ok = anc hs (re_pool_sha r)" using merge_base_status [OF 1(2)] Cons.prems(2) f by simp
      show ?thesis
      proof (cases ok)
        case True
        have rec: "decide_entries S pool rs w1 = (x, w')"
          using Cons.prems(1) f g 1 True by (simp add: is_ancestor_def abind_def)
        from Cons.IH [OF this] show ?thesis using Cons.prems(2) v1 f ok True by auto
      next
        case False
        then show ?thesis using Cons.prems(1) f g 1 ok v1 by (auto simp: is_ancestor_def abind_def)
      qed
    next
      case 2
      then show ?thesis using Cons.prems(1) f g v1 by (auto simp: is_ancestor_def abind_def)
    qed
  qed
qed simp

lemma delete_temps_spec:
  assumes "set temps \<subseteq> range temp_ref" and "delete_temps S pool temps w = w'"
  shows "(\<forall>q. q \<noteq> pool \<longrightarrow> view w' q = view w q) \<and>
    (\<forall>n. n \<notin> range temp_ref \<longrightarrow> refs (view w' pool) n = refs (view w pool) n)"
  using assms
proof (induction temps arbitrary: w)
  case (Cons t ts)
  obtain y w1 where g: "run_git S [''update-ref'', ''-d'', t] (Some pool) w = (y, w1)" by fastforce
  then have "(\<forall>q. q \<noteq> pool \<longrightarrow> view w1 q = view w q) \<and> (\<forall>n. n \<noteq> t \<longrightarrow> refs (view w1 pool) n = refs (view w pool) n)"
    by (cases rule: run_git_cases) (auto dest: update_ref_frame)
  then show ?case using Cons.IH [of w1] Cons.prems g by auto
qed simp

lemma validate_manifest_spec:
  assumes "validate_manifest S pool h es w = (x, temps, w')"
    and "h \<noteq> pool" "\<forall>e \<in> set es. plain_entry e" "plain_repo (view w pool)" "plain_repo (view w h)"
  defines "rs \<equiv> map (resolved (refs (view w pool)) (refs (view w h))) es"
  shows "pool_step view pool w w' \<and> set temps \<subseteq> range temp_ref
    \<and> (x = Inr () \<longrightarrow> (\<forall>e \<in> set es. refs (view w pool) (''refs/heads/'' @ me_pool_ref e) \<noteq> None))
    \<and> ((\<exists>e. x = Inl e \<and> git_error e) \<or> x = validate_resolved_manifest rs anc)"
proof -
  obtain x1 t1 w1 where 1: "resolve_entries S pool h 0 es [] w = (x1, t1, w1)"
    by (cases "resolve_entries S pool h 0 es [] w")
  note r1 = resolve_entries_spec [OF 1 assms(2,3) _ assms(4,5)]
  show ?thesis
  proof (cases x1)
    case (Inl e)
    then show ?thesis using assms(1) 1 r1 by (auto simp: validate_manifest_def)
  next
    case (Inr rs')
    obtain y w2 where 2: "decide_entries S pool rs' w1 = (y, w2)" by fastforce
    have d: "view w2 = view w1 \<and> (y = Inl PoolIo \<or> y = validate_resolved_manifest rs' anc)"
      using decide_entries_spec [OF 2] r1 Inr by simp
    have "x = y" "temps = t1" "w' = w2"
      using assms(1) 1 Inr 2 by (auto simp: validate_manifest_def)
    moreover have "pool_step view pool w w2"
      using d r1 by (simp add: pool_step_def)
    ultimately show ?thesis using d r1 Inr unfolding rs_def by auto
  qed
qed

text \<open>The whole of \<open>push_manifest\<close>, for a manifest whose kept entries have plain names.\<close>

lemma push_manifest_spec:
  assumes "push_manifest S pool h m w = (x, w')"
    and "h \<noteq> pool" "\<forall>e \<in> set (kept_entries m). plain_entry e" "plain_repo (view w pool)" "plain_repo (view w h)"
  defines "P \<equiv> refs (view w pool)" and "H \<equiv> refs (view w h)"
  shows "(\<forall>n. n \<notin> range temp_ref \<longrightarrow> refs (view w' pool) n = P n)
    \<and> (\<forall>n. n \<notin> (\<lambda>e. ''refs/heads/'' @ me_host_ref e) ` set (kept_entries m) \<longrightarrow> refs (view w' h) n = H n)
    \<and> (x \<noteq> Inr () \<longrightarrow> refs (view w' h) = H)
    \<and> ((\<exists>e. x = Inl e \<and> git_error e) \<or> x = validate_resolved_manifest (map (resolved P H) (kept_entries m)) anc)
    \<and> (x = Inr () \<longrightarrow> (\<forall>e \<in> set (kept_entries m). P (''refs/heads/'' @ me_pool_ref e) \<noteq> None
          \<and> refs (view w' h) (''refs/heads/'' @ me_host_ref e) = P (''refs/heads/'' @ me_pool_ref e)))"
proof -
  let ?kept = "kept_entries m"
  obtain v temps w1 where 1: "validate_manifest S pool h ?kept w = (v, temps, w1)"
    by (cases "validate_manifest S pool h ?kept w")
  note r1 = validate_manifest_spec [OF 1 assms(2-5), folded P_def H_def]
  define w2 where "w2 = delete_temps S pool temps w1"
  have d: "(\<forall>q. q \<noteq> pool \<longrightarrow> view w2 q = view w1 q) \<and>
    (\<forall>n. n \<notin> range temp_ref \<longrightarrow> refs (view w2 pool) n = refs (view w1 pool) n)"
    using delete_temps_spec [of temps pool w1 w2] r1 w2_def by simp
  have h2: "refs (view w2 h) = H" and p2: "\<And>n. n \<notin> range temp_ref \<Longrightarrow> refs (view w2 pool) n = P n"
    using d r1 assms(2) by (auto simp: pool_step_def P_def H_def)
  show ?thesis
  proof (cases "\<exists>u. v = Inr u \<and> ?kept \<noteq> []")
    case False
    then have "w' = w2" "x = v" using assms(1) 1 w2_def by (auto simp: push_manifest_def Let_def split: sum.splits)
    then show ?thesis using False r1 h2 p2 by (cases v) auto
  next
    case True
    let ?sp = "map spec_of ?kept"
    have args: "map push_spec ?kept = map show_spec ?sp" by (simp add: push_spec_show)
    have pl: "plain_specs ?sp"
      using assms(3) True by (auto simp: plain_specs_def spec_of_def plain_entry_def)
    have ds: "dsts ?sp = (\<lambda>e. ''refs/heads/'' @ me_host_ref e) ` set ?kept"
      by (force simp: dsts_def spec_of_def)
    obtain y w3 where 3: "run_git S ([''push'', ''--atomic'', h] @ map push_spec ?kept) (Some pool) w2 = (y, w3)"
      by fastforce
    have w3: "w' = w3" "x = (case y of Inl e \<Rightarrow> Inl e | Inr _ \<Rightarrow> Inr ())"
      using assms(1) 1 True 3 w2_def
      by (auto simp: push_manifest_def Let_def abind_def split: sum.splits)
    obtain g where g: "sys_git S (Some pool) ([''push'', ''--atomic'', h] @ map show_spec ?sp) w2 = (g, w3)"
        "y = Inr z \<Longrightarrow> \<exists>out err. g = GitOut True out err"
        "y = Inl e \<Longrightarrow> git_error e \<and> (\<forall>out err. g \<noteq> GitOut True out err)" for z e
      using 3 [unfolded args] by (cases rule: run_git_cases) auto
    note fr = push_frame [OF g(1) assms(2) pl, unfolded ds]
    show ?thesis
    proof (cases y)
      case (Inl e)
      then show ?thesis using fr g(3) h2 p2 assms(2) unfolding w3 by auto
    next
      case (Inr z)
      have dn: "spec_done anc (refs (view w2 pool)) H (refs (view w' h)) (spec_of e)" if "e \<in> set ?kept" for e
        using g(1) g(2) [OF Inr] push_done [OF _ assms(2) pl] that h2 w3 by fastforce
      have "refs (view w2 pool) (''refs/heads/'' @ n) = P (''refs/heads/'' @ n)" for n
        using p2 temp_ref_not_head by (metis rangeE)
      then have "P (''refs/heads/'' @ me_pool_ref e) \<noteq> None
          \<and> refs (view w' h) (''refs/heads/'' @ me_host_ref e) = P (''refs/heads/'' @ me_pool_ref e)"
        if "e \<in> set ?kept" for e
        using dn [OF that] by (auto simp: spec_done_def spec_of_def split: option.splits)
      moreover have "v = Inr ()" using True by auto
      ultimately show ?thesis using fr r1 Inr h2 p2 assms(2) unfolding w3 by auto
    qed
  qed
qed

lemma branch_exists_spec:
  assumes "branch_exists S r n w = (x, w')"
  shows "view w' = view w \<and> (x = Inl PoolIo \<or> x = Inr (refs (view w r) (''refs/heads/'' @ n) \<noteq> None))"
  using assms unfolding branch_exists_def
  by (cases rule: git_status_cases) (auto dest: show_ref_view show_ref_status)

lemma check_output_branch_spec:
  assumes "check_output_branch S pool ob w = (x, w')"
  shows "view w' = view w \<and> (x = Inl PoolIo \<or> (x = Inr () \<longleftrightarrow> (\<forall>b. ob = Some b \<longrightarrow>
    \<not> prefix ''host/'' b \<and> \<not> prefix ''runs/'' b \<and> refs (view w pool) (''refs/heads/'' @ b) = None)))"
proof (cases ob)
  case None
  then show ?thesis using assms by (simp add: check_output_branch_def)
next
  case (Some b)
  obtain z w2 where z: "branch_exists S pool b w = (z, w2)" by fastforce
  show ?thesis using assms Some z branch_exists_spec [OF z]
    by (auto simp: check_output_branch_def validate_user_ref_name_def RESERVED_HOST_def RESERVED_RUNS_def
        abind_def split: if_splits)
qed

lemma validate_run_output_targets_spec:
  assumes "validate_run_output_targets S pool run_id ob w = (x, w')"
  shows "view w' = view w \<and> (x = Inl PoolIo \<or> (x = Inr () \<longleftrightarrow> target_free (refs (view w pool)) run_id ob))"
proof -
  obtain y w1 where y: "check_output_branch S pool ob w = (y, w1)" by fastforce
  obtain z w2 where z: "branch_exists S pool (''runs/'' @ run_id) w1 = (z, w2)" by fastforce
  show ?thesis
  proof (cases y)
    case (Inl e)
    then show ?thesis using assms y check_output_branch_spec [OF y]
      by (auto simp: validate_run_output_targets_def abind_def target_free_def)
  next
    case (Inr u)
    then show ?thesis using assms y z check_output_branch_spec [OF y] branch_exists_spec [OF z]
      by (auto simp: validate_run_output_targets_def abind_def target_free_def split: if_splits)
  qed
qed

lemma accept_run_output_spec:
  assumes "accept_run_output S pool run_id ob src w = (x, w')" and "src \<noteq> pool"
    and "plain_name (''refs/heads/runs/'' @ run_id)" "\<forall>b. ob = Some b \<longrightarrow> plain_name (''refs/heads/'' @ b)"
  defines "targets \<equiv> insert (''refs/heads/runs/'' @ run_id) ((@) ''refs/heads/'' ` set_option ob)"
  shows "(\<forall>n. n \<notin> targets \<longrightarrow> refs (view w' pool) n = refs (view w pool) n)
    \<and> (\<forall>q. q \<noteq> pool \<longrightarrow> view w' q = view w q)
    \<and> (\<not> target_free (refs (view w pool)) run_id ob \<longrightarrow> x \<noteq> Inr () \<and> view w' = view w)
    \<and> (x = Inr () \<longrightarrow> (\<exists>c. refs (view w src) ''HEAD'' = Some c \<and> (\<forall>n \<in> targets. refs (view w' pool) n = Some c)))"
proof -
  let ?sp = "(False, ''HEAD'', ''refs/heads/runs/'' @ run_id)
    # (case ob of None \<Rightarrow> [] | Some b \<Rightarrow> [(False, ''HEAD'', ''refs/heads/'' @ b)])"
  have args: "[''fetch'', ''--no-tags'', src, ''HEAD:refs/heads/runs/'' @ run_id]
         @ (case ob of None \<Rightarrow> [] | Some name \<Rightarrow> [''HEAD:refs/heads/'' @ name])
      = [''fetch'', ''--no-tags'', src] @ map show_spec ?sp"
    by (simp split: option.split)
  have "plain_name ''HEAD''" by code_simp
  then have pl: "plain_specs ?sp" using assms(3,4) by (auto simp: plain_specs_def split: option.splits)
  have ds: "dsts ?sp = targets" by (auto simp: dsts_def targets_def split: option.splits)
  obtain y w1 where y: "validate_run_output_targets S pool run_id ob w = (y, w1)" by fastforce
  note vy = validate_run_output_targets_spec [OF y]
  show ?thesis
  proof (cases y)
    case (Inl e)
    then have "x = Inl e" "w' = w1" using assms(1) y by (auto simp: accept_run_output_def abind_def)
    then show ?thesis using vy Inl by auto
  next
    case (Inr u)
    obtain z w2 where z: "run_git S ([''fetch'', ''--no-tags'', src] @ map show_spec ?sp) (Some pool) w1 = (z, w2)"
      by fastforce
    have x: "w' = w2" "x = (case z of Inl e \<Rightarrow> Inl e | Inr _ \<Rightarrow> Inr ())"
      using assms(1) y Inr z unfolding accept_run_output_def args
      by (auto simp: abind_def split: sum.splits)
    have fr: "(\<forall>n. n \<notin> targets \<longrightarrow> refs (view w' pool) n = refs (view w1 pool) n) \<and> (\<forall>q. q \<noteq> pool \<longrightarrow> view w' q = view w1 q)"
      using z fetch_frame [OF _ assms(2) pl] unfolding x ds by (cases rule: run_git_cases) auto
    have dn: "\<forall>sp \<in> set ?sp. spec_done anc (refs (view w1 src)) (refs (view w1 pool)) (refs (view w' pool)) sp"
      if "x = Inr ()"
      using z that fetch_done [OF _ assms(2) pl] unfolding x by (cases rule: run_git_cases) auto
    have tf: "target_free (refs (view w pool)) run_id ob" using vy Inr by auto
    have "\<exists>c. refs (view w src) ''HEAD'' = Some c \<and> (\<forall>n \<in> targets. refs (view w' pool) n = Some c)" if "x = Inr ()"
      using dn [OF that] vy by (auto simp: spec_done_def targets_def split: option.splits)
    then show ?thesis using fr tf vy by auto
  qed
qed

end

section \<open>Properties\<close>

lemma validate_resolved_manifest_ok:
  "validate_resolved_manifest rs f = Inr () \<longleftrightarrow>
     (\<forall>r \<in> set rs. re_force r \<or> (\<forall>hs. re_host_sha r = Some hs \<longrightarrow> f hs (re_pool_sha r)))"
  by (induction rs) (auto split: option.splits)

text \<open>C4: a manifest is pushed whole or not at all. Every host branch that changed is the target
  of an entry that is no audit ref, now has the commit of the entry's Pool branch, and was moved
  forward unless the entry forces it; when the call fails no host branch has changed, when it
  succeeds every entry outside \<open>runs/\<close> is done; the result is a failure of git itself or
  the decision of \<open>validate_resolved_manifest\<close> on the refs; and the Pool keeps its refs, the
  temporary ones apart.\<close>

theorem push_manifest_all_or_nothing:
  assumes "git_store S view anc" and "host \<noteq> pool" and "\<forall>e \<in> set (kept_entries m). plain_entry e"
    and "plain_repo (view w pool)" and "plain_repo (view w host)"
    and "push_manifest S pool host m w = (x, w')"
  shows "(\<forall>n. refs (view w' host) n \<noteq> refs (view w host) n \<longrightarrow>
      (\<exists>e \<in> set m. \<not> prefix ''runs/'' (me_pool_ref e) \<and> n = ''refs/heads/'' @ me_host_ref e \<and>
        (\<exists>c. refs (view w pool) (''refs/heads/'' @ me_pool_ref e) = Some c \<and> refs (view w' host) n = Some c \<and>
          (me_force e \<or> (\<forall>old. refs (view w host) n = Some old \<longrightarrow> anc old c)))))
    \<and> (x \<noteq> Inr () \<longrightarrow> refs (view w' host) = refs (view w host))
    \<and> (x = Inr () \<longrightarrow> (\<forall>e \<in> set m. \<not> prefix ''runs/'' (me_pool_ref e) \<longrightarrow>
          refs (view w' host) (''refs/heads/'' @ me_host_ref e) = refs (view w pool) (''refs/heads/'' @ me_pool_ref e)))
    \<and> ((\<exists>e. x = Inl e \<and> git_error e) \<or>
        x = validate_resolved_manifest (map (resolved (refs (view w pool)) (refs (view w host))) (kept_entries m)) anc)
    \<and> (\<forall>n. n \<notin> range temp_ref \<longrightarrow> refs (view w' pool) n = refs (view w pool) n)"
proof -
  note sp = git_store.push_manifest_spec [OF assms(1,6,2-5)]
  have kept: "e \<in> set (kept_entries m) \<longleftrightarrow> e \<in> set m \<and> \<not> prefix ''runs/'' (me_pool_ref e)" for e
    by (auto simp: kept_entries_def RESERVED_RUNS_def)
  have "\<exists>e \<in> set m. \<not> prefix ''runs/'' (me_pool_ref e) \<and> n = ''refs/heads/'' @ me_host_ref e \<and>
        (\<exists>c. refs (view w pool) (''refs/heads/'' @ me_pool_ref e) = Some c \<and> refs (view w' host) n = Some c \<and>
          (me_force e \<or> (\<forall>old. refs (view w host) n = Some old \<longrightarrow> anc old c)))"
    if n: "refs (view w' host) n \<noteq> refs (view w host) n" for n
  proof -
    obtain e where e: "e \<in> set (kept_entries m)" "n = ''refs/heads/'' @ me_host_ref e" using sp n by blast
    have x: "x = Inr ()" using sp n by auto
    obtain c where c: "refs (view w pool) (''refs/heads/'' @ me_pool_ref e) = Some c" "refs (view w' host) n = Some c"
      using sp x e by fastforce
    have "validate_resolved_manifest (map (resolved (refs (view w pool)) (refs (view w host))) (kept_entries m)) anc = Inr ()"
      using sp x by auto
    then have "me_force e \<or> (\<forall>old. refs (view w host) n = Some old \<longrightarrow> anc old c)"
      using e c unfolding validate_resolved_manifest_ok by (auto simp: resolved_def)
    then show ?thesis using e c kept by blast
  qed
  then show ?thesis using sp kept by blast
qed

theorem push_manifest_all_or_nothing_witness:
  "\<exists>x w'. push_manifest (sim_ops (\<lambda>a b. a = ''a1'' \<and> b = ''b2'')) ''/pool'' ''/host''
      [\<lparr> me_pool_ref = ''work'', me_host_ref = ''main'', me_force = False \<rparr>]
      (\<lambda>r. if r = ''/pool'' then \<lparr> refs = [''refs/heads/work'' \<mapsto> ''b2''], objs = {} \<rparr>
           else \<lparr> refs = [''refs/heads/main'' \<mapsto> ''a1''], objs = {} \<rparr>) = (x, w')
    \<and> (x = Inr () \<longrightarrow> refs (sim_view w' ''/host'') ''refs/heads/main'' = Some ''b2'')"
proof -
  let ?anc = "\<lambda>a b. a = ''a1'' \<and> b = ''b2''"
  let ?m = "[\<lparr> me_pool_ref = ''work'', me_host_ref = ''main'', me_force = False \<rparr>]"
  let ?w = "\<lambda>r. if r = ''/pool'' then \<lparr> refs = [''refs/heads/work'' \<mapsto> ''b2''], objs = {} \<rparr>
           else \<lparr> refs = [''refs/heads/main'' \<mapsto> ''a1''], objs = {} \<rparr>"
  obtain x w' where p: "push_manifest (sim_ops ?anc) ''/pool'' ''/host'' ?m ?w = (x, w')" by fastforce
  have "plain_entry \<lparr> me_pool_ref = ''work'', me_host_ref = ''main'', me_force = False \<rparr>" by code_simp
  then have e: "\<forall>e \<in> set (kept_entries ?m). plain_entry e" by (simp add: kept_entries_def)
  have "\<not> contains ''refs/heads/work'' ''/refs/heads/''" "\<not> contains ''refs/heads/main'' ''/refs/heads/''"
    "is_sha ''b2''" by code_simp+
  then have r: "plain_repo (sim_view ?w ''/pool'')" "plain_repo (sim_view ?w ''/host'')"
    "refs (sim_view ?w ''/pool'') ''refs/heads/work'' = Some ''b2''"
    by (auto simp: plain_repo_def sim_view_def Let_def split: if_splits)
  have "''/host'' \<noteq> ''/pool''" by simp
  then show ?thesis
    using push_manifest_all_or_nothing [OF simgit.git_store_axioms _ e r(1,2) p] p r(3)
    by fastforce
qed

text \<open>C11: the output of a Run reaches the Pool under its audit ref and its output branch only,
  never over an existing ref and never into the reserved namespaces: with a target that is
  taken or reserved nothing changes and the call fails, and when it succeeds every target is
  the \<open>HEAD\<close> of the Run's repository.\<close>

theorem run_output_lands_on_free_refs:
  assumes "git_store S view anc" and "src \<noteq> pool" and "plain_name (''refs/heads/runs/'' @ run_id)"
    and "\<forall>b. output_branch = Some b \<longrightarrow> plain_name (''refs/heads/'' @ b)"
    and "accept_run_output S pool run_id output_branch src w = (x, w')"
  shows "(\<forall>n. refs (view w' pool) n \<noteq> refs (view w pool) n \<longrightarrow>
        refs (view w pool) n = None \<and> \<not> prefix ''refs/heads/host/'' n \<and>
        (n = ''refs/heads/runs/'' @ run_id \<or>
          (\<exists>b. output_branch = Some b \<and> n = ''refs/heads/'' @ b \<and> \<not> prefix ''runs/'' b)))
    \<and> (x = Inr () \<longrightarrow> (\<exists>c. refs (view w src) ''HEAD'' = Some c \<and>
        refs (view w' pool) (''refs/heads/runs/'' @ run_id) = Some c \<and>
        (\<forall>b. output_branch = Some b \<longrightarrow> refs (view w' pool) (''refs/heads/'' @ b) = Some c)))
    \<and> (\<not> target_free (refs (view w pool)) run_id output_branch \<longrightarrow> x \<noteq> Inr () \<and> view w' = view w)"
proof -
  note sp = git_store.accept_run_output_spec [OF assms(1,5,2-4)]
  let ?T = "insert (''refs/heads/runs/'' @ run_id) ((@) ''refs/heads/'' ` set_option output_branch)"
  have frame: "\<forall>n. n \<notin> ?T \<longrightarrow> refs (view w' pool) n = refs (view w pool) n"
    and taken: "\<not> target_free (refs (view w pool)) run_id output_branch \<longrightarrow> x \<noteq> Inr () \<and> view w' = view w"
    and fin: "x = Inr () \<longrightarrow> (\<exists>c. refs (view w src) ''HEAD'' = Some c \<and> (\<forall>n \<in> ?T. refs (view w' pool) n = Some c))"
    using sp by simp_all
  have branch: "''refs/heads/'' @ b \<in> ?T" if "output_branch = Some b" for b
    using that by (simp only: option.set image_insert insertI1 insertI2)
  have T: "n = ''refs/heads/runs/'' @ run_id \<or> (\<exists>b. output_branch = Some b \<and> n = ''refs/heads/'' @ b)"
    if "n \<in> ?T" for n
    using that by (cases output_branch) (simp_all only: option.set image_insert image_empty insert_iff empty_iff, blast+)
  have pre: "\<not> prefix ''refs/heads/host/'' (''refs/heads/'' @ b)" if "\<not> prefix ''host/'' b" for b
    using that by simp
  have "refs (view w pool) n = None \<and> \<not> prefix ''refs/heads/host/'' n \<and>
        (n = ''refs/heads/runs/'' @ run_id \<or>
          (\<exists>b. output_branch = Some b \<and> n = ''refs/heads/'' @ b \<and> \<not> prefix ''runs/'' b))"
    if n: "refs (view w' pool) n \<noteq> refs (view w pool) n" for n
  proof -
    have tf: "target_free (refs (view w pool)) run_id output_branch" using taken n by metis
    have "n = ''refs/heads/runs/'' @ run_id \<or> (\<exists>b. output_branch = Some b \<and> n = ''refs/heads/'' @ b)"
      using frame n by (intro T) blast
    then show ?thesis
    proof
      assume n: "n = ''refs/heads/runs/'' @ run_id"
      have "\<not> prefix ''refs/heads/host/'' (''refs/heads/runs/'' @ run_id)" by simp
      then show ?thesis using target_freeD(1) [OF tf] n by blast
    next
      assume "\<exists>b. output_branch = Some b \<and> n = ''refs/heads/'' @ b"
      then obtain b where b: "output_branch = Some b" "n = ''refs/heads/'' @ b" by blast
      have "\<not> prefix ''host/'' b \<and> \<not> prefix ''runs/'' b \<and> refs (view w pool) n = None"
        unfolding b(2) by (rule target_freeD(2) [OF tf b(1)])
      then show ?thesis using pre [of b] b by metis
    qed
  qed
  moreover have "\<exists>c. refs (view w src) ''HEAD'' = Some c \<and>
        refs (view w' pool) (''refs/heads/runs/'' @ run_id) = Some c \<and>
        (\<forall>b. output_branch = Some b \<longrightarrow> refs (view w' pool) (''refs/heads/'' @ b) = Some c)" if "x = Inr ()"
    using fin that branch by (meson insertI1)
  ultimately show ?thesis using taken by blast
qed

theorem run_output_lands_on_free_refs_witness:
  "\<exists>x w'. accept_run_output (sim_ops (\<lambda>a b. a = b)) ''/pool'' ''01AB'' (Some ''fix'') ''/ws''
      (\<lambda>r. if r = ''/ws'' then \<lparr> refs = [''HEAD'' \<mapsto> ''c3''], objs = {} \<rparr> else \<lparr> refs = Map.empty, objs = {} \<rparr>) = (x, w')
    \<and> (x = Inr () \<longrightarrow> refs (sim_view w' ''/pool'') ''refs/heads/fix'' = Some ''c3'')"
proof -
  let ?w = "\<lambda>r. if r = ''/ws'' then \<lparr> refs = [''HEAD'' \<mapsto> ''c3''], objs = {} \<rparr> else \<lparr> refs = Map.empty, objs = {} \<rparr>"
  obtain x w' where p: "accept_run_output (sim_ops (\<lambda>a b. a = b)) ''/pool'' ''01AB'' (Some ''fix'') ''/ws'' ?w = (x, w')"
    by fastforce
  have "plain_name (''refs/heads/runs/'' @ ''01AB'')" "plain_name (''refs/heads/'' @ ''fix'')" "is_sha ''c3''"
    by code_simp+
  then have n: "plain_name (''refs/heads/runs/'' @ ''01AB'')"
    "\<forall>b. Some ''fix'' = Some b \<longrightarrow> plain_name (''refs/heads/'' @ b)"
    "refs (sim_view ?w ''/ws'') ''HEAD'' = Some ''c3''" by (simp_all add: sim_view_def Let_def)
  have "''/ws'' \<noteq> ''/pool''" by simp
  from run_output_lands_on_free_refs [OF simgit.git_store_axioms this n(1,2) p] show ?thesis
    using p n(3) by auto
qed

end
