(* ===== verification/RunSpec.thy ===== *)
theory RunSpec
  imports BranchPool ClaudeAdapter CodexAdapter PiAdapter AiderAdapter Egress
begin

text \<open>
  \<open>bunsen-core/src/run_spec.rs\<close>: the specification of a Run, its defaults, the validation of
  its output branch, its egress policy and its image. Deserialising JSON is serde's and a
  parameter, \<open>spec_parser\<close>, which yields the fields that are present; the defaults of
  the \<open>serde(default)\<close> attributes are applied here. Environment and secrets are maps, as
  association lists.
\<close>

datatype branching_strategy = StratNone | PoolClone string "string list"

record run_spec =
  rs_adapter :: string
  rs_cmd :: "string list"
  rs_env :: "(string \<times> string) list"
  rs_secrets :: "(string \<times> string) list"
  rs_strategy :: branching_strategy
  rs_output_branch :: "string option"
  rs_stop_grace :: u64
  rs_wall_clock :: u64
  rs_memory_mb :: u32
  rs_vcpus :: u32
  rs_disk_mb :: u32
  rs_oci_image :: "string option"
  rs_egress :: "string list"

record raw_spec =
  raw_adapter :: string
  raw_cmd :: "string list"
  raw_env :: "(string \<times> string) list option"
  raw_secrets :: "(string \<times> string) list option"
  raw_strategy :: "branching_strategy option"
  raw_output_branch :: "string option"
  raw_stop_grace :: "u64 option"
  raw_wall_clock :: "u64 option"
  raw_memory_mb :: "u32 option"
  raw_vcpus :: "u32 option"
  raw_disk_mb :: "u32 option"
  raw_oci_image :: "string option"
  raw_egress :: "string list option"

datatype run_spec_error =
    SpecSerde
  | SpecReservedNamespace string string
  | IllegalBranchName string

type_synonym spec_parser = "string \<Rightarrow> raw_spec option"

definition default_stop_grace_seconds :: u64 where "default_stop_grace_seconds = 10"
definition default_wall_clock_seconds :: u64 where "default_wall_clock_seconds = 1800"
definition default_memory_mb :: u32 where "default_memory_mb = 4096"
definition default_vcpus :: u32 where "default_vcpus = 2"
definition default_workspace_disk_mb :: u32 where "default_workspace_disk_mb = 10240"

definition with_defaults :: "raw_spec \<Rightarrow> run_spec" where
  "with_defaults r =
     \<lparr> rs_adapter = raw_adapter r, rs_cmd = raw_cmd r,
       rs_env = unwrap_or [] (raw_env r), rs_secrets = unwrap_or [] (raw_secrets r),
       rs_strategy = unwrap_or StratNone (raw_strategy r),
       rs_output_branch = raw_output_branch r,
       rs_stop_grace = unwrap_or default_stop_grace_seconds (raw_stop_grace r),
       rs_wall_clock = unwrap_or default_wall_clock_seconds (raw_wall_clock r),
       rs_memory_mb = unwrap_or default_memory_mb (raw_memory_mb r),
       rs_vcpus = unwrap_or default_vcpus (raw_vcpus r),
       rs_disk_mb = unwrap_or default_workspace_disk_mb (raw_disk_mb r),
       rs_oci_image = raw_oci_image r,
       rs_egress = unwrap_or [] (raw_egress r) \<rparr>"

text \<open>The characters and components a branch name may not have.\<close>

definition bad_char :: "char \<Rightarrow> bool" where
  "bad_char c \<longleftrightarrow> code c < 32 \<or> code c = 127 \<or> c \<in> set '' ~^:?*['' \<or> code c = 92"

definition bad_component :: "string \<Rightarrow> bool" where
  "bad_component w \<longleftrightarrow> w = [] \<or> prefix ''.'' w \<or> suffix ''.lock'' w"

definition is_legal_git_branch_name :: "string \<Rightarrow> bool" where
  "is_legal_git_branch_name name =
     (if name = [] then False
      else if name = ''@'' \<or> name = ''HEAD'' then False
      else if prefix ''-'' name then False
      else if prefix ''/'' name \<or> suffix ''/'' name then False
      else if suffix ''.'' name then False
      else if contains name ''..'' \<or> contains name [CHR ''@'', CHR 0x7B] \<or> contains name ''//'' then False
      else if list_ex bad_char name then False
      else if list_ex bad_component (split_on (CHR ''/'') name) then False
      else True)"

definition validate_output_branch :: "string \<Rightarrow> run_spec_error + unit" where
  "validate_output_branch name =
     (if prefix RESERVED_HOST name then Inl (SpecReservedNamespace name RESERVED_HOST)
      else if prefix RESERVED_RUNS name then Inl (SpecReservedNamespace name RESERVED_RUNS)
      else if \<not> is_legal_git_branch_name name then Inl (IllegalBranchName name)
      else Inr ())"

definition from_json :: "spec_parser \<Rightarrow> string \<Rightarrow> run_spec_error + run_spec" where
  "from_json parse s =
     (case parse s of
        None \<Rightarrow> Inl SpecSerde
      | Some raw \<Rightarrow>
          let spec = with_defaults raw
          in case rs_output_branch spec of
               None \<Rightarrow> Inr spec
             | Some name \<Rightarrow> rbind (validate_output_branch name) (\<lambda>_. Inr spec))"

definition effective_egress_policy :: "run_spec \<Rightarrow> egress_policy" where
  "effective_egress_policy spec =
     (let adapter_declared =
        (if rs_adapter spec = ''claude-code'' then claude_EGRESS_ENDPOINTS
         else if rs_adapter spec = ''aider'' then
           (case extract_model_from_cmd (rs_cmd spec) of
              Some m \<Rightarrow> aider_endpoints_for_model m
            | None \<Rightarrow> [])
         else if rs_adapter spec = ''codex'' then codex_EGRESS_ENDPOINTS
         else if rs_adapter spec = ''pi'' then egress_endpoints_for_cmd (rs_cmd spec)
         else [])
      in compose adapter_declared (rs_egress spec))"

definition codex_OCI_IMAGE :: string where
  "codex_OCI_IMAGE =
     ''ghcr.io/xenolf/bunsen/bunsen-adapter-codex@sha256:95e6c78c68b13bd9b01775a22a2db8ab41c3f1b4048126fe9f0f314780fd874e''"

definition pi_OCI_IMAGE :: string where
  "pi_OCI_IMAGE =
     ''ghcr.io/xenolf/bunsen/bunsen-adapter-pi@sha256:8e0d06f7727f2130737d3144d34abf3193f25a34077a9ccc3fdc6ab45a361a3d''"

definition adapter_default_image :: "string \<Rightarrow> string option" where
  "adapter_default_image adapter =
     (if adapter = ''codex'' then Some codex_OCI_IMAGE
      else if adapter = ''pi'' then Some pi_OCI_IMAGE
      else None)"

definition resolve_oci_image :: "run_spec \<Rightarrow> string option" where
  "resolve_oci_image spec =
     (case rs_oci_image spec of Some i \<Rightarrow> Some i | None \<Rightarrow> adapter_default_image (rs_adapter spec))"

section \<open>Components of a path\<close>

text \<open>A component is a longest stretch without a slash.\<close>

definition component_of :: "string \<Rightarrow> string \<Rightarrow> bool" where
  "component_of n w \<longleftrightarrow> CHR ''/'' \<notin> set w \<and>
     (\<exists>a b. n = a @ w @ b \<and> (a = [] \<or> last a = CHR ''/'') \<and> (b = [] \<or> hd b = CHR ''/''))"

lemma split_on_component:
  "w \<in> set (split_on c n) \<longleftrightarrow>
     c \<notin> set w \<and> (\<exists>a b. n = a @ w @ b \<and> (a = [] \<or> last a = c) \<and> (b = [] \<or> hd b = c))"
proof (induction n rule: length_induct)
  case (1 n)
  show ?case
  proof (cases "c \<in> set n")
    case False
    then have s: "split_on c n = [n]" unfolding split_on_def by (intro split_by_none) auto
    show ?thesis
    proof
      assume "w \<in> set (split_on c n)"
      then show "c \<notin> set w \<and> (\<exists>a b. n = a @ w @ b \<and> (a = [] \<or> last a = c) \<and> (b = [] \<or> hd b = c))"
        using s False by (auto intro: exI [of _ "[]"])
    next
      assume "c \<notin> set w \<and> (\<exists>a b. n = a @ w @ b \<and> (a = [] \<or> last a = c) \<and> (b = [] \<or> hd b = c))"
      then obtain a b where ab: "n = a @ w @ b" "a = [] \<or> last a = c" "b = [] \<or> hd b = c" by blast
      have "a = []" using ab False by (metis in_set_conv_decomp append_butlast_last_id append_assoc append_Cons)
      moreover have "b = []" using ab False by (metis hd_in_set Un_iff set_append)
      ultimately show "w \<in> set (split_on c n)" using ab s by simp
    qed
  next
    case True
    then obtain p q where n: "n = p @ c # q" "c \<notin> set p" by (meson split_list_first)
    have "split_on c n = p # split_on c q"
      unfolding split_on_def n(1) using n(2) by (intro split_by_append_sep) auto
    moreover have ih: "w \<in> set (split_on c q) \<longleftrightarrow>
        c \<notin> set w \<and> (\<exists>a b. q = a @ w @ b \<and> (a = [] \<or> last a = c) \<and> (b = [] \<or> hd b = c))"
      using 1 n(1) by simp
    ultimately have split: "w \<in> set (split_on c n) \<longleftrightarrow> w = p \<or> w \<in> set (split_on c q)" by simp
    show ?thesis
    proof
      assume "w \<in> set (split_on c n)"
      then consider "w = p" | a b where "c \<notin> set w" "q = a @ w @ b" "a = [] \<or> last a = c" "b = [] \<or> hd b = c"
        using split ih by blast
      then show "c \<notin> set w \<and> (\<exists>a b. n = a @ w @ b \<and> (a = [] \<or> last a = c) \<and> (b = [] \<or> hd b = c))"
      proof cases
        case 1
        then have "n = [] @ w @ (c # q)" using n by simp
        then show ?thesis using n(2) 1 by (metis list.sel(1))
      next
        case 2
        then have "n = (p @ c # a) @ w @ b \<and> last (p @ c # a) = c" using n(1) by auto
        then show ?thesis using 2 by blast
      qed
    next
      assume "c \<notin> set w \<and> (\<exists>a b. n = a @ w @ b \<and> (a = [] \<or> last a = c) \<and> (b = [] \<or> hd b = c))"
      then obtain a b where w: "c \<notin> set w" and ab: "n = a @ w @ b" "a = [] \<or> last a = c" "b = [] \<or> hd b = c"
        by blast
      show "w \<in> set (split_on c n)"
      proof (cases "a = []")
        case True
        have tw: "takeWhile (\<lambda>x. x \<noteq> c) (u @ c # v) = u" if "c \<notin> set u" for u v
          using that by (induction u) auto
        have "b \<noteq> []" using True ab(1) n w by auto
        then obtain b' where "n = w @ c # b'" using True ab by (cases b) auto
        then have "w = p" using tw w n by metis
        then show ?thesis using split by simp
      next
        case False
        then obtain a' where a: "a = a' @ [c]" using ab(2) by (metis append_butlast_last_id)
        have "p @ c # q = a' @ c # w @ b" using ab(1) n(1) a by simp
        then obtain a'' where "(a' = p \<and> a'' = [] \<and> q = w @ b) \<or> (a' = p @ c # a'' \<and> q = a'' @ c # w @ b)"
          using n(2) by (auto simp: append_eq_append_conv2 Cons_eq_append_conv append_eq_Cons_conv)
        then have "q = w @ b \<or> q = (a'' @ [c]) @ w @ b" by auto
        then have "\<exists>a b. q = a @ w @ b \<and> (a = [] \<or> last a = c) \<and> (b = [] \<or> hd b = c)"
          using ab(3) by (metis append_Nil last_snoc)
        then show ?thesis using split ih w by blast
      qed
    qed
  qed
qed

text \<open>The rules of \<open>git-check-ref-format(1)\<close> on the decomposition of the name.\<close>

definition ref_format :: "string \<Rightarrow> bool" where
  "ref_format n \<longleftrightarrow> n \<noteq> ''@'' \<and> n \<noteq> ''HEAD'' \<and> \<not> prefix ''-'' n \<and> \<not> suffix ''.'' n
     \<and> \<not> sublist ''..'' n \<and> \<not> sublist [CHR ''@'', CHR 0x7B] n \<and> (\<forall>c \<in> set n. \<not> bad_char c)
     \<and> (\<forall>w. component_of n w \<longrightarrow> w \<noteq> [] \<and> \<not> prefix ''.'' w \<and> \<not> suffix ''.lock'' w)"

lemma component_of_split: "component_of n w \<longleftrightarrow> w \<in> set (split_on (CHR ''/'') n)"
  unfolding component_of_def split_on_component ..

lemma empty_component:
  assumes "n = [] \<or> prefix ''/'' n \<or> suffix ''/'' n \<or> sublist ''//'' n"
  shows "component_of n []"
proof -
  consider "n = []" | r where "n = CHR ''/'' # r" | r where "n = r @ ''/''" | a b where "n = a @ ''//'' @ b"
    using assms by (auto simp: prefix_def suffix_def sublist_def)
  then show ?thesis
  proof cases
    case 4
    then have "n = (a @ ''/'') @ [] @ (''/'' @ b)" by simp
    then show ?thesis unfolding component_of_def
      by (metis append_Cons append_Nil empty_iff empty_set last_snoc list.sel(1))
  next
    case 3
    then have "n = n @ [] @ []" "last n = CHR ''/''" by simp_all
    then show ?thesis unfolding component_of_def by (metis empty_iff empty_set)
  next
    case 2
    then show ?thesis unfolding component_of_def by (intro conjI exI [of _ "[]"] exI [of _ n]) auto
  qed (auto simp: component_of_def)
qed

lemma legal_ref_format: "is_legal_git_branch_name n \<longleftrightarrow> ref_format n"
proof -
  have bad: "list_ex bad_component (split_on (CHR ''/'') n) \<longleftrightarrow>
      \<not> (\<forall>w. component_of n w \<longrightarrow> w \<noteq> [] \<and> \<not> prefix ''.'' w \<and> \<not> suffix ''.lock'' w)"
    by (auto simp: list_ex_iff bad_component_def component_of_split)
  have "is_legal_git_branch_name n \<longleftrightarrow>
      \<not> (n = [] \<or> prefix ''/'' n \<or> suffix ''/'' n \<or> sublist ''//'' n) \<and> ref_format n"
    unfolding is_legal_git_branch_name_def ref_format_def contains_iff bad
    by (simp add: list_ex_iff)
  then show ?thesis using empty_component [of n] unfolding ref_format_def by blast
qed

section \<open>Properties\<close>


text \<open>A specification is accepted exactly when it parses and its output branch, if it names
  one, is a well-formed name that the Branch Pool will take as a user's; the defaults fill what
  is absent.\<close>

theorem accepted_specs_have_usable_branches:
  "case from_json parse s of
     Inl e \<Rightarrow> parse s = None \<or> (\<exists>raw b. parse s = Some raw \<and> raw_output_branch raw = Some b
        \<and> \<not> (ref_format b \<and> validate_user_ref_name b = Inr ()))
   | Inr spec \<Rightarrow> parse s \<noteq> None \<and> spec = with_defaults (the (parse s))
        \<and> list_all (\<lambda>b. ref_format b \<and> validate_user_ref_name b = Inr ()) (case rs_output_branch spec of None \<Rightarrow> [] | Some b \<Rightarrow> [b])"
  by (auto simp: from_json_def Let_def validate_output_branch_def validate_user_ref_name_def legal_ref_format
      with_defaults_def split: option.splits sum.splits if_splits)

end
