(* ===== verification/FirewallCheck.thy ===== *)
theory FirewallCheck
  imports Prelude
begin

text \<open>
  \<open>bunsen-core/src/firewall_check.rs\<close> and \<open>firewall.rs\<close>: the decision whether the host's
  iptables INPUT chain would drop the guest's packets, from the output of \<open>iptables -S\<close>.
  The probe itself is I/O and its result an argument. The test that a rule's source covers the
  link-local range is proved to be inclusion of address sets.
\<close>

unbundle bit_operations_syntax

datatype fw_decision = Permissive | Blocked

definition BLOCKED_MESSAGE :: string where
  "BLOCKED_MESSAGE =
     ''[bunsen-core] ERROR: host iptables INPUT policy is DROP and no allow rule covers '' @
     ''169.254.0.0/16, so the sandbox's L7 proxy will be unreachable from the guest. '' @
     ''Re-run with --manage-firewall (Python: manage_firewall=True) to let bunsen add '' @
     ''a per-TAP allow rule for the lifetime of this Run, or open the link-local range '' @
     ''manually: sudo ufw allow from 169.254.0.0/16''"

fun fw_octets :: "u32 \<Rightarrow> nat \<Rightarrow> string list \<Rightarrow> u32 option" where
  "fw_octets ip octets [] = (if octets = 4 then Some ip else None)"
| "fw_octets ip octets (part # parts) =
     (case parse_uint (2 ^ 32) part of
        None \<Rightarrow> None
      | Some n \<Rightarrow> if 255 < n then None
          else fw_octets (push_bit 8 ip OR word_of_nat n) (Suc octets) parts)"

definition fw_parse_ipv4 :: "string \<Rightarrow> u32 option" where
  "fw_parse_ipv4 s = fw_octets 0 0 (split_on (CHR ''.'') s)"

fun extract_token_value :: "string list \<Rightarrow> string \<Rightarrow> string option" where
  "extract_token_value [] key = None"
| "extract_token_value (tok # toks) key =
     (if tok = key then (case toks of [] \<Rightarrow> None | t # _ \<Rightarrow> Some t)
      else extract_token_value toks key)"

definition LINK_LOCAL :: u32 where "LINK_LOCAL = 0xa9fe0000"

definition split_cidr :: "string \<Rightarrow> (string \<times> nat) option" where
  "split_cidr subnet =
     (case split_once (CHR ''/'') subnet of
        Some (a, p) \<Rightarrow> (case parse_uint 256 p of Some n \<Rightarrow> Some (a, n) | None \<Rightarrow> None)
      | None \<Rightarrow> Some (subnet, 32))"

definition prefix_mask :: "nat \<Rightarrow> u32" where
  "prefix_mask n = (if n = 0 then 0 else push_bit (32 - n) (NOT 0))"

definition subnet_covers_link_local :: "string \<Rightarrow> bool" where
  "subnet_covers_link_local subnet =
     (case split_cidr subnet of
        None \<Rightarrow> False
      | Some (addr, n) \<Rightarrow>
          if 16 < n then False
          else (case fw_parse_ipv4 addr of
              None \<Rightarrow> False
            | Some ip \<Rightarrow> ip AND prefix_mask n = LINK_LOCAL AND prefix_mask n))"

text \<open>One line of the dump: the state is the INPUT policy seen last and whether a covering
  rule was seen.\<close>

definition fw_line :: "string option \<times> bool \<Rightarrow> string \<Rightarrow> string option \<times> bool" where
  "fw_line st raw =
     (let (policy, covering) = st; line = trim raw
      in if line = [] then st
         else case strip_prefix ''-P '' line of
             Some rest \<Rightarrow>
               (case split_whitespace rest of
                  chain # target # _ \<Rightarrow> if chain = ''INPUT'' then (Some target, covering) else st
                | _ \<Rightarrow> st)
           | None \<Rightarrow>
               if \<not> prefix ''-A '' line then st
               else if extract_token_value (split_whitespace line) ''-j'' \<noteq> Some ''ACCEPT'' then st
               else (case extract_token_value (split_whitespace line) ''-s'' of
                   Some src \<Rightarrow> if subnet_covers_link_local src then (policy, True) else st
                 | None \<Rightarrow> st))"

definition parse_iptables_save :: "string \<Rightarrow> fw_decision" where
  "parse_iptables_save s =
     (let (policy, covering) = foldl fw_line (None, False) (str_lines s)
      in case policy of
           None \<Rightarrow> Permissive
         | Some t \<Rightarrow> if t = ''ACCEPT'' then Permissive else if covering then Permissive else Blocked)"

definition enforce_decision :: "fw_decision \<Rightarrow> bool \<Rightarrow> string + unit" where
  "enforce_decision d manage_firewall =
     (if d = Blocked \<and> \<not> manage_firewall then Inl BLOCKED_MESSAGE else Inr ())"

text \<open>\<open>firewall::enforce_host_firewall_policy\<close>; the probe is an error, no output because
  iptables is absent, or the dump.\<close>

definition enforce_host_firewall_policy :: "bool \<Rightarrow> 'e + string option \<Rightarrow> string + unit" where
  "enforce_host_firewall_policy manage_firewall probe =
     (let d = (case probe of
          Inr (Some stdout) \<Rightarrow> parse_iptables_save stdout
        | Inr None \<Rightarrow> Permissive
        | Inl e \<Rightarrow> Permissive)
      in enforce_decision d manage_firewall)"

section \<open>Address sets\<close>

text \<open>A CIDR block is the set of addresses that agree with its base on the first bits.\<close>

definition cidr_block :: "u32 \<Rightarrow> nat \<Rightarrow> u32 set" where
  "cidr_block ip n = {x. drop_bit (32 - n) x = drop_bit (32 - n) ip}"

lemma bit_prefix_mask: "n \<le> 32 \<Longrightarrow> bit (prefix_mask n) k \<longleftrightarrow> 32 - n \<le> k \<and> k < 32"
  by (auto simp: prefix_mask_def bit_push_bit_iff bit_not_iff bit_mask_iff)

lemma mask_eq_drop_bit:
  assumes "n \<le> 32"
  shows "x AND prefix_mask n = y AND prefix_mask n \<longleftrightarrow> drop_bit (32 - n) x = drop_bit (32 - n) y"
proof
  assume a: "x AND prefix_mask n = y AND prefix_mask n"
  show "drop_bit (32 - n) x = drop_bit (32 - n) y"
  proof (rule bit_word_eqI)
    fix k assume "k < LENGTH(32)"
    have "bit (x AND prefix_mask n) (32 - n + k) = bit (y AND prefix_mask n) (32 - n + k)" using a by simp
    then show "bit (drop_bit (32 - n) x) k = bit (drop_bit (32 - n) y) k"
      using assms by (auto simp: bit_drop_bit_eq bit_and_iff bit_prefix_mask dest: bit_imp_le_length)
  qed
next
  assume a: "drop_bit (32 - n) x = drop_bit (32 - n) y"
  show "x AND prefix_mask n = y AND prefix_mask n"
  proof (rule bit_word_eqI)
    fix k assume k: "k < LENGTH(32)"
    have "bit (drop_bit (32 - n) x) (k - (32 - n)) = bit (drop_bit (32 - n) y) (k - (32 - n))" using a by simp
    then show "bit (x AND prefix_mask n) k = bit (y AND prefix_mask n) k"
      using assms by (auto simp: bit_drop_bit_eq bit_and_iff bit_prefix_mask)
  qed
qed

lemma link_local_not_in_longer:
  assumes "16 < n" "n \<le> 32"
  shows "\<not> cidr_block LINK_LOCAL 16 \<subseteq> cidr_block ip n"
proof
  assume a: "cidr_block LINK_LOCAL 16 \<subseteq> cidr_block ip n"
  have "LINK_LOCAL \<in> cidr_block LINK_LOCAL 16" "LINK_LOCAL + 0x8000 \<in> cidr_block LINK_LOCAL 16"
    by (simp_all add: cidr_block_def LINK_LOCAL_def)
  then have "LINK_LOCAL \<in> cidr_block ip n" "LINK_LOCAL + 0x8000 \<in> cidr_block ip n"
    using a by (simp_all only: subset_iff)
  then have "drop_bit (32 - n) LINK_LOCAL = drop_bit (32 - n) (LINK_LOCAL + 0x8000)"
    unfolding cidr_block_def mem_Collect_eq by metis
  then have "bit (drop_bit (32 - n) LINK_LOCAL) (15 - (32 - n)) = bit (drop_bit (32 - n) (LINK_LOCAL + 0x8000)) (15 - (32 - n))"
    by (rule arg_cong)
  moreover have "32 - n + (15 - (32 - n)) = 15" using assms by simp
  ultimately have "bit LINK_LOCAL 15 = bit (LINK_LOCAL + 0x8000) 15" by (simp add: bit_drop_bit_eq)
  then show False by (simp add: LINK_LOCAL_def)
qed

lemma cidr_block_mono_iff:
  assumes "n \<le> 16"
  shows "cidr_block y 16 \<subseteq> cidr_block ip n \<longleftrightarrow> drop_bit (32 - n) ip = drop_bit (32 - n) y"
proof
  assume "cidr_block y 16 \<subseteq> cidr_block ip n"
  moreover have "y \<in> cidr_block y 16" by (simp add: cidr_block_def)
  ultimately have "y \<in> cidr_block ip n" by blast
  then show "drop_bit (32 - n) ip = drop_bit (32 - n) y" by (simp add: cidr_block_def)
next
  assume e: "drop_bit (32 - n) ip = drop_bit (32 - n) y"
  have "32 - n = 16 - n + 16" using assms by simp
  then have d: "drop_bit (32 - n) x = drop_bit (16 - n) (drop_bit 16 x)" for x :: u32
    by (metis drop_bit_drop_bit)
  have "drop_bit (32 - n) x = drop_bit (32 - n) y" if "drop_bit 16 x = drop_bit 16 y" for x
    by (subst (1 2) d) (simp only: that)
  moreover have "cidr_block y 16 = {x. drop_bit 16 x = drop_bit 16 y}" by (simp add: cidr_block_def)
  ultimately show "cidr_block y 16 \<subseteq> cidr_block ip n"
    unfolding cidr_block_def [of ip] e by blast
qed

lemma covers_iff:
  "subnet_covers_link_local s \<longleftrightarrow>
     (\<exists>a n ip. split_cidr s = Some (a, n) \<and> n \<le> 32 \<and> fw_parse_ipv4 a = Some ip
        \<and> cidr_block LINK_LOCAL 16 \<subseteq> cidr_block ip n)"
proof (cases "split_cidr s")
  case None
  then show ?thesis by (simp add: subnet_covers_link_local_def)
next
  case (Some an)
  obtain a n where an: "an = (a, n)" by (cases an)
  show ?thesis
  proof (cases "n \<le> 16")
    case True
    then show ?thesis
      by (auto simp: subnet_covers_link_local_def Some an mask_eq_drop_bit cidr_block_mono_iff split: option.splits)
  next
    case False
    then show ?thesis using link_local_not_in_longer [of n]
      by (auto simp: subnet_covers_link_local_def Some an)
  qed
qed

section \<open>The dump\<close>

text \<open>What one line says: the target of an INPUT policy, or that it is an accepting rule whose
  source covers the range.\<close>

definition line_policy :: "string \<Rightarrow> string option" where
  "line_policy raw =
     (case strip_prefix ''-P '' (trim raw) of
        None \<Rightarrow> None
      | Some rest \<Rightarrow> (case split_whitespace rest of
            chain # target # _ \<Rightarrow> if chain = ''INPUT'' then Some target else None
          | _ \<Rightarrow> None))"

definition line_covers :: "string \<Rightarrow> bool" where
  "line_covers raw \<longleftrightarrow> prefix ''-A '' (trim raw)
     \<and> extract_token_value (split_whitespace (trim raw)) ''-j'' = Some ''ACCEPT''
     \<and> (\<exists>src. extract_token_value (split_whitespace (trim raw)) ''-s'' = Some src \<and> subnet_covers_link_local src)"

lemma fw_line_ref:
  "fw_line (p, c) raw = (case line_policy raw of None \<Rightarrow> p | Some t \<Rightarrow> Some t, c \<or> line_covers raw)"
proof -
  consider "trim raw = []" | rest where "trim raw = ''-P '' @ rest" | "trim raw \<noteq> []" "strip_prefix ''-P '' (trim raw) = None"
    using strip_prefix_Some by (metis not_Some_eq)
  then show ?thesis
  proof cases
    case 1
    then show ?thesis by (simp add: fw_line_def line_policy_def line_covers_def strip_prefix_def)
  next
    case 2
    then show ?thesis by (auto simp: fw_line_def line_policy_def line_covers_def strip_prefix_def split: list.splits)
  next
    case 3
    then show ?thesis by (auto simp: fw_line_def line_policy_def line_covers_def Let_def split: option.splits)
  qed
qed

lemma fw_lines_ref:
  "foldl fw_line (p, c) ls =
     (case rev (List.map_filter line_policy ls) of [] \<Rightarrow> p | t # _ \<Rightarrow> Some t, c \<or> (\<exists>l \<in> set ls. line_covers l))"
proof (induction ls arbitrary: p c)
  case (Cons l ls)
  then show ?case
    by (simp add: fw_line_ref List.map_filter_simps split: option.splits list.splits)
qed (simp add: List.map_filter_def)

section \<open>Properties\<close>

text \<open>A rule's source counts as covering exactly when it is a CIDR block whose addresses
  include every address of 169.254.0.0/16.\<close>

theorem covering_source_is_superset:
  "subnet_covers_link_local s \<longleftrightarrow>
     (\<exists>a n ip. split_cidr s = Some (a, n) \<and> n \<le> 32 \<and> fw_parse_ipv4 a = Some ip
        \<and> cidr_block LINK_LOCAL 16 \<subseteq> cidr_block ip n)"
  by (rule covers_iff)


text \<open>A rule with a negated source is read as covering, although it accepts every address but
  those of the range: the host is taken for permissive and the guest's packets are dropped.\<close>

lemma negated_source_counts_as_covering:
  "parse_iptables_save (''-P INPUT DROP'' @ [LF] @ ''-A INPUT ! -s 169.254.0.0/16 -j ACCEPT'' @ [LF]) = Permissive"
  by code_simp

end
