(* ===== verification/Materializer.thy ===== *)
theory Materializer
  imports RunSpec
begin

text \<open>
  \<open>bunsen-core/src/workspace_materializer.rs\<close>: a Run's Workspace is cloned from the Pool. The
  order of its effects is stated on \<open>logged\<close> operations, which record every command with
  whether it succeeded; \<open>follows\<close> says that an operation executes a plan of commands up to the
  first one that fails.
\<close>

datatype mat_error =
    MatIo
  | MatGit string string
  | PoolRefMissing string

definition mat_git :: "'w sysops \<Rightarrow> string list \<Rightarrow> ('w, mat_error, unit) act" where
  "mat_git S args w =
     (case sys_git S None args w of
        (GitIoErr, w') \<Rightarrow> (Inl MatIo, w')
      | (GitOut ok out err, w') \<Rightarrow>
          if ok then (Inr (), w') else (Inl (MatGit (''git '' @ join_words args) err), w'))"

definition verify_pool_ref :: "'w sysops \<Rightarrow> string \<Rightarrow> string \<Rightarrow> ('w, mat_error, unit) act" where
  "verify_pool_ref S pool ref_name w =
     (case sys_git S (Some pool) [''show-ref'', ''--verify'', ''--quiet'', ''refs/heads/'' @ ref_name] w of
        (GitIoErr, w') \<Rightarrow> (Inl MatIo, w')
      | (GitOut ok out err, w') \<Rightarrow> if ok then (Inr (), w') else (Inl (PoolRefMissing ref_name), w'))"

definition clear_workspace :: "'w sysops \<Rightarrow> string \<Rightarrow> ('w, mat_error, unit) act" where
  "clear_workspace S ws w =
     (if sys_exists S ws w
      then (case sys_remove_dir S ws w of (True, w') \<Rightarrow> (Inr (), w') | (False, w') \<Rightarrow> (Inl MatIo, w'))
      else (Inr (), w))"

definition pool_clone ::
  "'w sysops \<Rightarrow> string \<Rightarrow> string \<Rightarrow> string \<Rightarrow> string list \<Rightarrow> string \<Rightarrow> string option
     \<Rightarrow> ('w, mat_error, unit) act" where
  "pool_clone S pool ws base imports run_id output_branch =
     abind (verify_pool_ref S pool base) (\<lambda>_.
     abind (amap (verify_pool_ref S pool) imports) (\<lambda>_.
     abind (clear_workspace S ws) (\<lambda>_.
     abind (mat_git S [''clone'', ''--single-branch'', ''--branch'', base, ''--no-local'', pool, ws]) (\<lambda>_.
     abind (amap (\<lambda>r. mat_git S [''-C'', ws, ''fetch'', ''--no-tags'', pool,
               ''refs/heads/'' @ r @ '':refs/heads/'' @ r]) imports) (\<lambda>_.
     abind (mat_git S [''-C'', ws, ''checkout'', ''-b'',
               (case output_branch of Some name \<Rightarrow> name | None \<Rightarrow> ''runs/'' @ run_id)]) (\<lambda>_.
     aret ()))))))"

definition materialize ::
  "'w sysops \<Rightarrow> string \<Rightarrow> branching_strategy \<Rightarrow> string \<Rightarrow> string \<Rightarrow> string option
     \<Rightarrow> ('w, mat_error, unit) act" where
  "materialize S pool strategy ws run_id output_branch =
     (case strategy of
        StratNone \<Rightarrow> aret ()
      | PoolClone base imports \<Rightarrow> pool_clone S pool ws base imports run_id output_branch)"

section \<open>Recording the commands\<close>

datatype command =
    CmdGit "string option" "string list"
  | CmdCreateDir string
  | CmdRemoveDir string

type_synonym log = "(command \<times> bool) list"

definition git_ok :: "git_result \<Rightarrow> bool" where
  "git_ok g = (case g of GitIoErr \<Rightarrow> False | GitOut ok out err \<Rightarrow> ok)"

definition logged :: "'w sysops \<Rightarrow> ('w \<times> log) sysops" where
  "logged S =
     \<lparr> sys_git = (\<lambda>cwd args (w, l). case sys_git S cwd args w of
           (g, w') \<Rightarrow> (g, (w', l @ [(CmdGit cwd args, git_ok g)]))),
       sys_create_dir = (\<lambda>p (w, l). case sys_create_dir S p w of
           (ok, w') \<Rightarrow> (ok, (w', l @ [(CmdCreateDir p, ok)]))),
       sys_exists = (\<lambda>p (w, l). sys_exists S p w),
       sys_remove_dir = (\<lambda>p (w, l). case sys_remove_dir S p w of
           (ok, w') \<Rightarrow> (ok, (w', l @ [(CmdRemoveDir p, ok)]))) \<rparr>"

text \<open>A log that carries out a plan: all of it with success, or up to a first failure.\<close>

definition ran_all :: "command list \<Rightarrow> log \<Rightarrow> bool" where
  "ran_all plan l \<longleftrightarrow> l = map (\<lambda>c. (c, True)) plan"

definition ran_until_failure :: "command list \<Rightarrow> log \<Rightarrow> bool" where
  "ran_until_failure plan l \<longleftrightarrow> (\<exists>p c q. plan = p @ c # q \<and> l = map (\<lambda>c. (c, True)) p @ [(c, False)])"

definition follows :: "('w \<times> log, 'e, 'a) act \<Rightarrow> command list set \<Rightarrow> bool" where
  "follows m plans \<longleftrightarrow> (\<forall>w l x w' l'. m (w, l) = (x, (w', l')) \<longrightarrow>
     (\<exists>plan \<in> plans. \<exists>new. l' = l @ new \<and>
        (case x of Inr a \<Rightarrow> ran_all plan new | Inl e \<Rightarrow> ran_until_failure plan new)))"

lemma followsI:
  assumes "\<And>w l x w' l'. m (w, l) = (x, (w', l')) \<Longrightarrow>
     \<exists>plan \<in> plans. \<exists>new. l' = l @ new \<and>
        (case x of Inr a \<Rightarrow> ran_all plan new | Inl e \<Rightarrow> ran_until_failure plan new)"
  shows "follows m plans"
  using assms unfolding follows_def by blast

lemma follows_ret: "follows (aret a) {[]}"
  by (rule followsI) (auto simp: ran_all_def)

lemma follows_bind:
  assumes m: "follows m P" and f: "\<And>a. follows (f a) Q"
  shows "follows (abind m f) {p @ q | p q. p \<in> P \<and> q \<in> Q}"
proof (rule followsI)
  fix w l x w' l'
  assume *: "abind m f (w, l) = (x, (w', l'))"
  obtain y w1 l1 where y: "m (w, l) = (y, (w1, l1))" by (metis prod_cases3)
  obtain p n1 where p: "p \<in> P" "l1 = l @ n1"
    "case y of Inr a \<Rightarrow> ran_all p n1 | Inl e \<Rightarrow> ran_until_failure p n1"
    using m y unfolding follows_def by blast
  obtain q0 where q0: "q0 \<in> Q"
    using f [of undefined] unfolding follows_def by (metis prod_cases3)
  show "\<exists>plan \<in> {p @ q | p q. p \<in> P \<and> q \<in> Q}. \<exists>new. l' = l @ new \<and>
        (case x of Inr a \<Rightarrow> ran_all plan new | Inl e \<Rightarrow> ran_until_failure plan new)"
  proof (cases y)
    case (Inl e)
    then have x: "x = Inl e" "l' = l1" using * y by (auto simp: abind_def)
    have "ran_until_failure (p @ q0) n1" using p(3) Inl by (fastforce simp: ran_until_failure_def)
    then show ?thesis using p q0 x by auto
  next
    case (Inr a)
    then have fa: "f a (w1, l1) = (x, (w', l'))" using * y by (auto simp: abind_def)
    then obtain q n2 where q: "q \<in> Q" "l' = l1 @ n2"
      "case x of Inr a \<Rightarrow> ran_all q n2 | Inl e \<Rightarrow> ran_until_failure q n2"
      using f unfolding follows_def by blast
    have n1: "n1 = map (\<lambda>c. (c, True)) p" using p(3) Inr by (simp add: ran_all_def)
    have "case x of Inr a \<Rightarrow> ran_all (p @ q) (n1 @ n2) | Inl e \<Rightarrow> ran_until_failure (p @ q) (n1 @ n2)"
    proof (cases x)
      case (Inl e)
      then obtain u c v where "q = u @ c # v" "n2 = map (\<lambda>c. (c, True)) u @ [(c, False)]"
        using q(3) by (auto simp: ran_until_failure_def)
      then have "p @ q = (p @ u) @ c # v \<and> n1 @ n2 = map (\<lambda>c. (c, True)) (p @ u) @ [(c, False)]"
        using n1 by simp
      then have "ran_until_failure (p @ q) (n1 @ n2)" unfolding ran_until_failure_def by blast
      then show ?thesis using Inl by simp
    next
      case (Inr b)
      then show ?thesis using q(3) n1 by (simp add: ran_all_def)
    qed
    then show ?thesis using p q by (intro bexI [of _ "p @ q"] exI [of _ "n1 @ n2"]) auto
  qed
qed

lemma follows_bind1:
  "follows m {p} \<Longrightarrow> (\<And>a. follows (f a) {q}) \<Longrightarrow> follows (abind m f) {p @ q}"
  using follows_bind [of m "{p}" f "{q}"] by simp

lemma follows_amap:
  "(\<And>x. follows (f x) {p x}) \<Longrightarrow> follows (amap f xs) {concat (map p xs)}"
proof (induction xs)
  case (Cons x xs)
  have "follows (abind (f x) (\<lambda>y. abind (amap f xs) (\<lambda>ys. aret (y # ys)))) {p x @ (concat (map p xs) @ [])}"
    using Cons by (intro follows_bind1 follows_ret) auto
  then show ?case by simp
qed (simp add: follows_ret)

lemma follows_mat_git: "follows (mat_git (logged S) args) {[CmdGit None args]}"
  by (rule followsI) (auto simp: mat_git_def logged_def git_ok_def ran_all_def ran_until_failure_def
    split: prod.splits git_result.splits if_splits)

lemma follows_verify:
  "follows (verify_pool_ref (logged S) pool r)
     {[CmdGit (Some pool) [''show-ref'', ''--verify'', ''--quiet'', ''refs/heads/'' @ r]]}"
  by (rule followsI) (auto simp: verify_pool_ref_def logged_def git_ok_def ran_all_def ran_until_failure_def
    split: prod.splits git_result.splits if_splits)

lemma follows_clear: "follows (clear_workspace (logged S) ws) {[], [CmdRemoveDir ws]}"
  by (rule followsI) (auto simp: clear_workspace_def logged_def ran_all_def ran_until_failure_def
    split: prod.splits if_splits bool.splits)

section \<open>The plan of a materialisation\<close>

definition verify_cmds :: "string \<Rightarrow> string list \<Rightarrow> command list" where
  "verify_cmds pool rs =
     map (\<lambda>r. CmdGit (Some pool) [''show-ref'', ''--verify'', ''--quiet'', ''refs/heads/'' @ r]) rs"

definition clone_cmds ::
  "string \<Rightarrow> string \<Rightarrow> string \<Rightarrow> string list \<Rightarrow> string \<Rightarrow> command list" where
  "clone_cmds pool ws base imports working =
     [CmdGit None [''clone'', ''--single-branch'', ''--branch'', base, ''--no-local'', pool, ws]]
     @ map (\<lambda>r. CmdGit None [''-C'', ws, ''fetch'', ''--no-tags'', pool, ''refs/heads/'' @ r @ '':refs/heads/'' @ r]) imports
     @ [CmdGit None [''-C'', ws, ''checkout'', ''-b'', working]]"

lemma follows_pool_clone:
  "follows (pool_clone (logged S) pool ws base imports run_id ob)
     {verify_cmds pool (base # imports) @ del
        @ clone_cmds pool ws base imports (case ob of Some n \<Rightarrow> n | None \<Rightarrow> ''runs/'' @ run_id)
      | del. del \<in> {[], [CmdRemoveDir ws]}}"
proof -
  let ?wk = "case ob of Some n \<Rightarrow> n | None \<Rightarrow> ''runs/'' @ run_id"
  let ?f = "\<lambda>r. ''refs/heads/'' @ r @ '':refs/heads/'' @ r"
  let ?V = "\<lambda>r. [CmdGit (Some pool) [''show-ref'', ''--verify'', ''--quiet'', ''refs/heads/'' @ r]]"
  let ?F = "\<lambda>r. [CmdGit None [''-C'', ws, ''fetch'', ''--no-tags'', pool, ?f r]]"
  have imp: "follows (amap (\<lambda>r. mat_git (logged S) [''-C'', ws, ''fetch'', ''--no-tags'', pool, ?f r]) imports)
      {concat (map ?F imports)}"
    by (intro follows_amap follows_mat_git)
  have tail: "follows (abind (mat_git (logged S) [''clone'', ''--single-branch'', ''--branch'', base, ''--no-local'', pool, ws]) (\<lambda>_.
     abind (amap (\<lambda>r. mat_git (logged S) [''-C'', ws, ''fetch'', ''--no-tags'', pool, ?f r]) imports) (\<lambda>_.
     abind (mat_git (logged S) [''-C'', ws, ''checkout'', ''-b'', ?wk]) (\<lambda>_. aret ()))))
     {clone_cmds pool ws base imports ?wk}"
    using follows_bind1 [OF follows_mat_git follows_bind1 [OF imp follows_bind1 [OF follows_mat_git follows_ret]]]
    by (simp only: clone_cmds_def concat_map_singleton append_Nil2)
  have ver: "follows (amap (verify_pool_ref (logged S) pool) imports) {concat (map ?V imports)}"
    by (intro follows_amap follows_verify)
  show ?thesis
    unfolding pool_clone_def
    using follows_bind [OF follows_verify follows_bind [OF ver follows_bind [OF follows_clear tail]]]
    by (rule back_subst [of "follows _"]) (auto simp: verify_cmds_def concat_map_singleton)
qed

section \<open>Properties\<close>

text \<open>C34: a Workspace is built by a fixed plan, and nothing is deleted or cloned unless every
  requested branch was found in the Pool before: the commands executed are the checks of the
  base and of each import, then the removal of an old Workspace, the clone of the Pool, one fetch
  per import and the checkout of the working branch. The call succeeds exactly when the whole
  plan did; otherwise it ends right after the first command that failed.\<close>

theorem materialize_checks_before_it_writes:
  "case materialize (logged S) pool (PoolClone base imports) ws run_id ob (w, []) of (x, (w', l)) \<Rightarrow>
     \<exists>del \<in> {[], [CmdRemoveDir ws]}.
       (let plan = verify_cmds pool (base # imports) @ del
          @ clone_cmds pool ws base imports (case ob of Some n \<Rightarrow> n | None \<Rightarrow> ''runs/'' @ run_id)
        in case x of Inr _ \<Rightarrow> ran_all plan l | Inl e \<Rightarrow> ran_until_failure plan l)"
proof -
  obtain x w' l where r: "pool_clone (logged S) pool ws base imports run_id ob (w, []) = (x, (w', l))"
    by (metis prod_cases3)
  then show ?thesis
    using follows_pool_clone 
    unfolding follows_def materialize_def by (fastforce simp: Let_def)
qed

end
