(* ===== verification/SandboxFetch.thy ===== *)
theory SandboxFetch
  imports Materializer
begin

text \<open>
  \<open>bunsen-core/src/sandbox_fetch.rs\<close>: the only path by which a Sandbox's commits and history
  files reach the host. A file system is a tree of \<open>node\<close>s with symbolic links; paths are
  lists of components and are resolved as the kernel does, at most 40 links. The tool
  \<open>debugfs\<close>, git and the temporary directory are parameters (\<open>host_ops\<close>); whether one
  system call on a path succeeds is the parameter \<open>ok\<close>.
\<close>

unbundle bit_operations_syntax

section \<open>File trees\<close>

datatype node =
    NFile u32 bytes
  | NDir u32 "(string \<times> node) list"
  | NLink bool "string list"
  | NSpecial

type_synonym path = "string list"

fun lookup :: "node \<Rightarrow> path \<Rightarrow> node option" where
  "lookup n [] = Some n"
| "lookup (NDir m es) (c # cs) = (case map_of es c of None \<Rightarrow> None | Some n \<Rightarrow> lookup n cs)"
| "lookup n (c # cs) = None"

fun set_entry :: "string \<Rightarrow> node \<Rightarrow> (string \<times> node) list \<Rightarrow> (string \<times> node) list" where
  "set_entry c n [] = [(c, n)]"
| "set_entry c n ((c', n') # es) = (if c = c' then (c, n) # es else (c', n') # set_entry c n es)"

fun update_node :: "path \<Rightarrow> node \<Rightarrow> node \<Rightarrow> node" where
  "update_node [] x n = x"
| "update_node (c # cs) x (NDir m es) =
     (case map_of es c of
        None \<Rightarrow> NDir m es
      | Some n \<Rightarrow> NDir m (set_entry c (update_node cs x n) es))"
| "update_node (c # cs) x n = n"

text \<open>Resolution of \<open>todo\<close> from the directory \<open>cur\<close>: the canonical path, or \<open>None\<close> when
  a component is missing or there are too many links. The flag says whether a link in the last
  component is followed.\<close>

function walk :: "nat \<Rightarrow> node \<Rightarrow> bool \<Rightarrow> path \<Rightarrow> path \<Rightarrow> path option" where
  "walk fuel root follow cur [] = Some cur"
| "walk fuel root follow cur (c # todo) =
     (if c = ''..'' then walk fuel root follow (butlast cur) todo
      else case lookup root (cur @ [c]) of
          None \<Rightarrow> None
        | Some (NLink absolute target) \<Rightarrow>
            if todo = [] \<and> \<not> follow then Some (cur @ [c])
            else (case fuel of
                0 \<Rightarrow> None
              | Suc f \<Rightarrow> walk f root follow (if absolute then [] else cur) (target @ todo))
        | Some _ \<Rightarrow> walk fuel root follow (cur @ [c]) todo)"
  by pat_completeness auto
termination
  by (relation "measures [\<lambda>(fuel, root, follow, cur, todo). fuel, \<lambda>(fuel, root, follow, cur, todo). length todo]") auto

definition MAX_LINKS :: nat where "MAX_LINKS = 40"

definition stat :: "node \<Rightarrow> path \<Rightarrow> node option" where
  "stat root p = Option.bind (walk MAX_LINKS root True [] p) (lookup root)"

definition lstat :: "node \<Rightarrow> path \<Rightarrow> node option" where
  "lstat root p = Option.bind (walk MAX_LINKS root False [] p) (lookup root)"

definition path_comps :: "string \<Rightarrow> path" where
  "path_comps s = filter (\<lambda>c. c \<noteq> [] \<and> c \<noteq> ''.'') (split_on (CHR ''/'') s)"

datatype fs_op = OpRemove | OpChmod | OpReadDir | OpMkdir | OpCopy

section \<open>The hardened command\<close>

definition HARDENING_CONFIG_ARGS :: "string list" where
  "HARDENING_CONFIG_ARGS =
     [''-c'', ''core.hooksPath=/dev/null'', ''-c'', ''protocol.file.allow=user'', ''-c'', ''credential.helper='']"

definition HARDENING_ENV_VARS :: "(string \<times> string) list" where
  "HARDENING_ENV_VARS = [(''GIT_CONFIG_NOSYSTEM'', ''1''), (''GIT_CONFIG_GLOBAL'', ''/dev/null'')]"

definition AIDER_HISTORY_SUBPATHS :: "string list" where
  "AIDER_HISTORY_SUBPATHS = [''.aider.chat.history.md'', ''.aider.input.history'', ''.aider.llm.history'']"

definition agent_history_subpaths :: "string \<Rightarrow> string list" where
  "agent_history_subpaths adapter =
     (if adapter = ''aider'' then AIDER_HISTORY_SUBPATHS
      else if adapter = ''codex'' then []
      else if adapter = ''pi'' then [''.pi/agent/sessions'']
      else [''.claude''])"

datatype fetch_error =
    FetchIo
  | FetchPool pool_error
  | FetchGit string
  | FetchDebugfs string string

definition build_hardened_argv :: "string \<Rightarrow> string \<Rightarrow> string option \<Rightarrow> string list" where
  "build_hardened_argv source_git_dir run_id output_branch =
     HARDENING_CONFIG_ARGS @
     [''fetch'', ''--no-tags'', ''--no-recurse-submodules'', source_git_dir,
      ''HEAD:refs/heads/runs/'' @ run_id] @
     (case output_branch of None \<Rightarrow> [] | Some name \<Rightarrow> [''HEAD:refs/heads/'' @ name])"

definition compute_spawn_uid :: "u32 \<Rightarrow> u32 \<Rightarrow> u32 option" where
  "compute_spawn_uid current_euid user_script_uid =
     (if current_euid = 0 then Some user_script_uid else None)"

record spawn_cmd =
  sp_cwd :: string
  sp_env :: "(string \<times> string) list"
  sp_args :: "string list"
  sp_uid :: "u32 option"

record 'w host_ops =
  ho_sys :: "'w sysops"
  ho_spawn_git :: "spawn_cmd \<Rightarrow> 'w \<Rightarrow> git_result \<times> 'w"
  ho_debugfs :: "string list \<Rightarrow> 'w \<Rightarrow> git_result \<times> 'w"
  ho_tempdir :: "'w \<Rightarrow> string option \<times> 'w"
  ho_fs :: "'w \<Rightarrow> node"
  ho_set_fs :: "node \<Rightarrow> 'w \<Rightarrow> 'w"
  ho_euid :: u32

definition hardened_cmd :: "'w host_ops \<Rightarrow> string \<Rightarrow> string \<Rightarrow> string \<Rightarrow> string option \<Rightarrow> u32 \<Rightarrow> spawn_cmd" where
  "hardened_cmd H pool source_git_dir run_id output_branch user_script_uid =
     \<lparr> sp_cwd = pool, sp_env = HARDENING_ENV_VARS,
       sp_args = build_hardened_argv source_git_dir run_id output_branch,
       sp_uid = compute_spawn_uid (ho_euid H) user_script_uid \<rparr>"

definition fetch_pool_from_git_dir ::
  "'w host_ops \<Rightarrow> string \<Rightarrow> string \<Rightarrow> string \<Rightarrow> string option \<Rightarrow> u32 \<Rightarrow> ('w, fetch_error, unit) act" where
  "fetch_pool_from_git_dir H pool source_git_dir run_id output_branch user_script_uid w =
     (case validate_run_output_targets (ho_sys H) pool run_id output_branch w of
        (Inl e, w1) \<Rightarrow> (Inl (FetchPool e), w1)
      | (Inr _, w1) \<Rightarrow>
          (case ho_spawn_git H (hardened_cmd H pool source_git_dir run_id output_branch user_script_uid) w1 of
             (GitIoErr, w2) \<Rightarrow> (Inl FetchIo, w2)
           | (GitOut ok out err, w2) \<Rightarrow> if ok then (Inr (), w2) else (Inl (FetchGit err), w2)))"

section \<open>Copying the agent's history\<close>

datatype dest_entry = DDir | DFile u32 bytes

type_synonym dest = "path \<Rightarrow> dest_entry option"

definition mkdirs :: "path \<Rightarrow> dest \<Rightarrow> dest" where
  "mkdirs p d = (\<lambda>q. if prefix q p \<and> d q = None then Some DDir else d q)"

text \<open>\<open>copy_narrow_entry\<close> on a node found by \<open>lstat\<close>. The entries of a directory are reached
  through its resolved path, so their \<open>lstat\<close> is the node itself.\<close>

fun copy_node :: "(fs_op \<Rightarrow> path \<Rightarrow> bool) \<Rightarrow> node \<Rightarrow> path \<Rightarrow> dest \<Rightarrow> bool \<times> dest"
  and copy_entries :: "(fs_op \<Rightarrow> path \<Rightarrow> bool) \<Rightarrow> (string \<times> node) list \<Rightarrow> path \<Rightarrow> dest \<Rightarrow> bool \<times> dest" where
  "copy_node ok (NLink a t) dst d = (True, d)"
| "copy_node ok (NDir m es) dst d =
     (if \<not> ok OpMkdir dst then (False, d)
      else if \<not> ok OpReadDir dst then (False, mkdirs dst d)
      else copy_entries ok es dst (mkdirs dst d))"
| "copy_node ok (NFile m b) dst d =
     (if \<not> ok OpMkdir (butlast dst) then (False, d)
      else if \<not> ok OpCopy dst then (False, mkdirs (butlast dst) d)
      else (True, (mkdirs (butlast dst) d)(dst \<mapsto> DFile m b)))"
| "copy_node ok NSpecial dst d = (True, d)"
| "copy_entries ok [] dst d = (True, d)"
| "copy_entries ok ((name, n) # es) dst d =
     (case copy_node ok n (dst @ [name]) d of
        (False, d') \<Rightarrow> (False, d')
      | (True, d') \<Rightarrow> copy_entries ok es dst d')"

definition copy_narrow_entry ::
  "(fs_op \<Rightarrow> path \<Rightarrow> bool) \<Rightarrow> node \<Rightarrow> path \<Rightarrow> path \<Rightarrow> dest \<Rightarrow> bool \<times> dest" where
  "copy_narrow_entry ok fs src dst d =
     (case lstat fs src of None \<Rightarrow> (True, d) | Some n \<Rightarrow> copy_node ok n dst d)"

fun copy_subpaths ::
  "(fs_op \<Rightarrow> path \<Rightarrow> bool) \<Rightarrow> node \<Rightarrow> path \<Rightarrow> path \<Rightarrow> string list \<Rightarrow> dest \<Rightarrow> bool \<times> dest" where
  "copy_subpaths ok fs root dst [] d = (True, d)"
| "copy_subpaths ok fs root dst (sub # subs) d =
     (case copy_narrow_entry ok fs (root @ path_comps sub) (dst @ path_comps sub) d of
        (False, d') \<Rightarrow> (False, d')
      | (True, d') \<Rightarrow> copy_subpaths ok fs root dst subs d')"

definition copy_agent_history_narrow ::
  "(fs_op \<Rightarrow> path \<Rightarrow> bool) \<Rightarrow> node \<Rightarrow> string \<Rightarrow> path \<Rightarrow> path \<Rightarrow> dest \<Rightarrow> bool \<times> dest" where
  "copy_agent_history_narrow ok fs adapter source_root dst_root d =
     (case walk MAX_LINKS fs True [] source_root of
        None \<Rightarrow> (True, d)
      | Some canonical \<Rightarrow> copy_subpaths ok fs canonical dst_root (agent_history_subpaths adapter) d)"

section \<open>Scrubbing an extracted tree\<close>

definition SETID :: u32 where "SETID = 0xC00"

definition setid :: "u32 \<Rightarrow> bool" where
  "setid mode \<longleftrightarrow> mode AND SETID \<noteq> 0"

definition strip_setid :: "(fs_op \<Rightarrow> path \<Rightarrow> bool) \<Rightarrow> path \<Rightarrow> u32 \<Rightarrow> u32 option" where
  "strip_setid ok p mode =
     (if setid mode then (if ok OpChmod p then Some (mode AND NOT SETID) else None) else Some mode)"

text \<open>One entry and the entries of a directory, in the order of \<open>read_dir\<close>: whether all went
  well, and what is left. The first error ends the walk.\<close>

fun scrub_node :: "(fs_op \<Rightarrow> path \<Rightarrow> bool) \<Rightarrow> path \<Rightarrow> node \<Rightarrow> bool \<times> node option"
  and scrub_entries :: "(fs_op \<Rightarrow> path \<Rightarrow> bool) \<Rightarrow> path \<Rightarrow> (string \<times> node) list \<Rightarrow> bool \<times> (string \<times> node) list" where
  "scrub_node ok p (NLink a t) = (if ok OpRemove p then (True, None) else (False, Some (NLink a t)))"
| "scrub_node ok p (NDir m es) =
     (case strip_setid ok p m of
        None \<Rightarrow> (False, Some (NDir m es))
      | Some m' \<Rightarrow>
          if \<not> ok OpReadDir p then (False, Some (NDir m' es))
          else (case scrub_entries ok p es of (s, es') \<Rightarrow> (s, Some (NDir m' es'))))"
| "scrub_node ok p (NFile m b) =
     (case strip_setid ok p m of
        None \<Rightarrow> (False, Some (NFile m b))
      | Some m' \<Rightarrow> (True, Some (NFile m' b)))"
| "scrub_node ok p NSpecial = (if ok OpRemove p then (True, None) else (False, Some NSpecial))"
| "scrub_entries ok p [] = (True, [])"
| "scrub_entries ok p ((name, n) # es) =
     (case scrub_node ok (p @ [name]) n of
        (s, left) \<Rightarrow>
          let here = (case left of None \<Rightarrow> [] | Some x \<Rightarrow> [(name, x)])
          in if s then (case scrub_entries ok p es of (s', es') \<Rightarrow> (s', here @ es'))
             else (False, here @ es))"

definition scrub_extracted_tree :: "(fs_op \<Rightarrow> path \<Rightarrow> bool) \<Rightarrow> node \<Rightarrow> path \<Rightarrow> bool \<times> node" where
  "scrub_extracted_tree ok fs dir =
     (case walk MAX_LINKS fs True [] dir of
        None \<Rightarrow> (False, fs)
      | Some p \<Rightarrow>
          (case lookup fs p of
             Some (NDir m es) \<Rightarrow>
               if \<not> ok OpReadDir p then (False, fs)
               else (case scrub_entries ok p es of (s, es') \<Rightarrow> (s, update_node p (NDir m es') fs))
           | _ \<Rightarrow> (False, fs)))"

section \<open>From the disk image\<close>

definition file_name :: "string \<Rightarrow> string option" where
  "file_name s = (case rev (path_comps s) of [] \<Rightarrow> None | c # _ \<Rightarrow> if c = ''..'' then None else Some c)"

definition debugfs_rdump ::
  "'w host_ops \<Rightarrow> string \<Rightarrow> string \<Rightarrow> string \<Rightarrow> ('w, fetch_error, bool) act" where
  "debugfs_rdump H ext4 src_path dst_dir w =
     (case file_name src_path of
        None \<Rightarrow> (Inl (FetchDebugfs (''rdump: invalid src_path '' @ src_path) []), w)
      | Some base \<Rightarrow>
          if list_ex is_ascii_ws src_path
          then (Inl (FetchDebugfs (''rdump: src_path must not contain whitespace: '' @ src_path) []), w)
          else (case ho_debugfs H [''-R'', ''rdump '' @ src_path @ '' '' @ dst_dir, ext4] w of
              (GitIoErr, w1) \<Rightarrow> (Inl FetchIo, w1)
            | (GitOut ok out err, w1) \<Rightarrow>
                if \<not> ok then (Inl (FetchDebugfs (''rdump '' @ src_path @ '' from '' @ ext4) err), w1)
                else (Inr (stat (ho_fs H w1) (path_comps dst_dir @ [base]) \<noteq> None), w1)))"

definition sandbox_fetch_from_ext4 ::
  "'w host_ops \<Rightarrow> (fs_op \<Rightarrow> path \<Rightarrow> bool) \<Rightarrow> string \<Rightarrow> string \<Rightarrow> string \<Rightarrow> string option \<Rightarrow> u32
     \<Rightarrow> ('w, fetch_error, unit) act" where
  "sandbox_fetch_from_ext4 H ok pool ext4 run_id output_branch user_script_uid w =
     (case validate_run_output_targets (ho_sys H) pool run_id output_branch w of
        (Inl e, w1) \<Rightarrow> (Inl (FetchPool e), w1)
      | (Inr _, w1) \<Rightarrow>
      (case ho_tempdir H w1 of
         (None, w2) \<Rightarrow> (Inl FetchIo, w2)
       | (Some tmp, w2) \<Rightarrow>
       (case debugfs_rdump H ext4 ''/.git'' tmp w2 of
          (Inl e, w3) \<Rightarrow> (Inl e, w3)
        | (Inr found, w3) \<Rightarrow>
            if \<not> found
            then (Inl (FetchDebugfs (''rdump /.git from '' @ ext4) ''.git not found in workspace ext4''), w3)
            else (case scrub_extracted_tree ok (ho_fs H w3) (path_comps tmp @ [''.git'']) of
                (s, fs') \<Rightarrow>
                  let w4 = ho_set_fs H fs' w3
                  in if \<not> s then (Inl FetchIo, w4)
                     else fetch_pool_from_git_dir H pool (tmp @ ''/.git'') run_id output_branch user_script_uid w4))))"

section \<open>Lemmas on trees\<close>

lemma map_of_set_entry: "map_of (set_entry c n es) d = (if d = c then Some n else map_of es d)"
  by (induction c n es rule: set_entry.induct) auto

lemma lookup_append: "lookup n (p @ q) = Option.bind (lookup n p) (\<lambda>x. lookup x q)"
proof (induction n p rule: lookup.induct)
  case (2 m es c cs)
  then show ?case by (cases "map_of es c") simp_all
qed auto

lemma lookup_update_same: "lookup n p \<noteq> None \<Longrightarrow> lookup (update_node p x n) p = Some x"
proof (induction n p rule: lookup.induct)
  case (2 m es c cs)
  then show ?case by (cases "map_of es c") (auto simp: map_of_set_entry)
qed auto

lemma lookup_update_other:
  "\<not> prefix p q \<Longrightarrow> \<not> prefix q p \<Longrightarrow> lookup (update_node p x n) q = lookup n q"
proof (induction p x n arbitrary: q rule: update_node.induct)
  case (2 c cs x m es)
  then obtain d ds where q: "q = d # ds" by (cases q) auto
  show ?case
  proof (cases "map_of es c")
    case (Some k)
    then show ?thesis using 2 q by (cases "d = c") (auto simp: map_of_set_entry)
  qed simp
qed auto

text \<open>The tree that a complete scrub leaves.\<close>

definition clear_setid :: "u32 \<Rightarrow> u32" where
  "clear_setid m = (if setid m then m AND NOT SETID else m)"

fun clean_node :: "node \<Rightarrow> node option"
  and clean_entries :: "(string \<times> node) list \<Rightarrow> (string \<times> node) list" where
  "clean_node (NLink a t) = None"
| "clean_node (NDir m es) = Some (NDir (clear_setid m) (clean_entries es))"
| "clean_node (NFile m b) = Some (NFile (clear_setid m) b)"
| "clean_node NSpecial = None"
| "clean_entries [] = []"
| "clean_entries ((name, n) # es) =
     (case clean_node n of None \<Rightarrow> clean_entries es | Some x \<Rightarrow> (name, x) # clean_entries es)"

text \<open>Neither a link nor a special file nor a set-id bit, at any depth.\<close>

fun plain_node :: "node \<Rightarrow> bool" and plain_entries :: "(string \<times> node) list \<Rightarrow> bool" where
  "plain_node (NLink a t) = False"
| "plain_node (NDir m es) = (\<not> setid m \<and> plain_entries es)"
| "plain_node (NFile m b) = (\<not> setid m)"
| "plain_node NSpecial = False"
| "plain_entries [] = True"
| "plain_entries ((name, n) # es) = (plain_node n \<and> plain_entries es)"

lemma not_setid_clear: "\<not> setid (clear_setid m)"
  by (simp add: clear_setid_def setid_def and.assoc)

lemma clean_plain:
  "clean_node n = Some x \<Longrightarrow> plain_node x"
  "plain_entries (clean_entries es)"
  by (induction n and es arbitrary: x rule: clean_node_clean_entries.induct)
    (auto simp: not_setid_clear split: option.splits)

lemma strip_setid_Some: "strip_setid ok p m = Some m' \<Longrightarrow> m' = clear_setid m"
  by (auto simp: strip_setid_def clear_setid_def split: if_splits)

lemma scrub_clean:
  "scrub_node ok p n = (True, left) \<Longrightarrow> left = clean_node n"
  "scrub_entries ok p es = (True, es') \<Longrightarrow> es' = clean_entries es"
proof (induction ok p n and ok p es arbitrary: left and es' rule: scrub_node_scrub_entries.induct)
  case (2 ok p m es)
  then show ?case by (cases "strip_setid ok p m") (auto dest: strip_setid_Some split: if_splits prod.splits)
next
  case (3 ok p m b)
  then show ?case by (cases "strip_setid ok p m") (auto dest: strip_setid_Some)
next
  case (6 ok p name n es)
  obtain s l where n: "scrub_node ok (p @ [name]) n = (s, l)" by fastforce
  have s: s using 6(3) n by (cases s) (auto simp: Let_def)
  obtain s2 es2 where e: "scrub_entries ok p es = (s2, es2)" by fastforce
  have "l = clean_node n" using 6(1) n s by simp
  moreover have "s2 \<and> es' = (case l of None \<Rightarrow> [] | Some x \<Rightarrow> [(name, x)]) @ es2"
    using 6(3) n s e by (auto simp: Let_def)
  moreover have "es2 = clean_entries es"
    using 6(2) [OF n [symmetric] refl s] e calculation by simp
  ultimately show ?case by (auto split: option.splits)
qed (auto split: if_splits)

lemma map_of_clean:
  "map_of es c = Some n \<Longrightarrow> clean_node n = Some x \<Longrightarrow> map_of (clean_entries es) c = Some x"
  by (induction es) (auto split: option.splits if_splits)

lemma plain_map_of: "plain_entries es \<Longrightarrow> map_of es c = Some n \<Longrightarrow> plain_node n"
  by (induction es) (auto split: if_splits)

lemma plain_lookup: "plain_node n \<Longrightarrow> lookup n q = Some x \<Longrightarrow> plain_node x"
proof (induction n q rule: lookup.induct)
  case (2 m es c cs)
  then show ?case by (auto split: option.splits dest: plain_map_of)
qed auto

lemma clean_lookup_file:
  "lookup n q = Some (NFile m b) \<Longrightarrow> \<exists>x. clean_node n = Some x \<and> lookup x q = Some (NFile (clear_setid m) b)"
proof (induction n q rule: lookup.induct)
  case (2 m' es c cs)
  then obtain k where k: "map_of es c = Some k" "lookup k cs = Some (NFile m b)"
    by (auto split: option.splits)
  then obtain x where "clean_node k = Some x" "lookup x cs = Some (NFile (clear_setid m) b)"
    using "2.IH" by auto
  then show ?case using map_of_clean [OF k(1)] by simp
qed auto

text \<open>What is copied comes from regular files of the node, reached through directories only.\<close>

fun reaches :: "node \<Rightarrow> path \<Rightarrow> node \<Rightarrow> bool" where
  "reaches n [] x = (n = x)"
| "reaches (NDir m es) (c # cs) x = (\<exists>k. (c, k) \<in> set es \<and> reaches k cs x)"
| "reaches n (c # cs) x = False"

lemma mkdirs_files [simp]: "mkdirs p d q = Some (DFile m b) \<longleftrightarrow> d q = Some (DFile m b)"
  by (simp add: mkdirs_def)

lemma copied_files:
  "copy_node ok n dst d = (s, d') \<Longrightarrow> d' q = Some (DFile m b) \<Longrightarrow>
     d q = Some (DFile m b) \<or> (\<exists>rel. q = dst @ rel \<and> reaches n rel (NFile m b))"
  "copy_entries ok es dst d = (s, d') \<Longrightarrow> d' q = Some (DFile m b) \<Longrightarrow>
     d q = Some (DFile m b) \<or> (\<exists>c rel n. q = dst @ c # rel \<and> (c, n) \<in> set es \<and> reaches n rel (NFile m b))"
proof (induction ok n dst d and ok es dst d arbitrary: s d' and s d' rule: copy_node_copy_entries.induct)
  case (2 ok m' es dst d)
  show ?case
  proof (cases "ok OpMkdir dst \<and> ok OpReadDir dst")
    case True
    then have "d q = Some (DFile m b) \<or> (\<exists>c rel n. q = dst @ c # rel \<and> (c, n) \<in> set es \<and> reaches n rel (NFile m b))"
      using 2 by simp
    then show ?thesis by (metis reaches.simps(2))
  qed (use 2 in \<open>auto split: if_splits\<close>)
next
  case (3 ok m' b' dst d)
  then show ?case by (auto split: if_splits intro: exI [of _ "[]"])
next
  case (6 ok name n es dst d)
  obtain s1 d1 where n: "copy_node ok n (dst @ [name]) d = (s1, d1)" by fastforce
  have first: "d q = Some (DFile m b) \<or> (\<exists>rel. q = (dst @ [name]) @ rel \<and> reaches n rel (NFile m b))"
    if "d1 q = Some (DFile m b)"
    using 6(1) [OF n that] .
  show ?case
  proof (cases s1)
    case False
    then show ?thesis using 6(3,4) n first by auto
  next
    case True
    then have "copy_entries ok es dst d1 = (s, d')" using 6(3) n by simp
    then show ?thesis using 6(2) [OF n [symmetric]] True 6(4) first by fastforce
  qed
qed auto

lemma copied_subpaths:
  "copy_subpaths ok fs root dst subs d = (s, d') \<Longrightarrow> d' q = Some (DFile m b) \<Longrightarrow>
     d q = Some (DFile m b) \<or> (\<exists>sub \<in> set subs. \<exists>n rel. lstat fs (root @ path_comps sub) = Some n
        \<and> q = dst @ path_comps sub @ rel \<and> reaches n rel (NFile m b))"
proof (induction subs arbitrary: d)
  case (Cons sub subs)
  obtain s1 d1 where n: "copy_narrow_entry ok fs (root @ path_comps sub) (dst @ path_comps sub) d = (s1, d1)"
    by fastforce
  have first: "d q = Some (DFile m b) \<or> (\<exists>n rel. lstat fs (root @ path_comps sub) = Some n
        \<and> q = dst @ path_comps sub @ rel \<and> reaches n rel (NFile m b))" if "d1 q = Some (DFile m b)"
    using n that copied_files(1) by (fastforce simp: copy_narrow_entry_def split: option.splits)
  show ?case
  proof (cases s1)
    case False
    then show ?thesis using Cons.prems n first by auto
  next
    case True
    then have "copy_subpaths ok fs root dst subs d1 = (s, d')" using Cons.prems(1) n by simp
    then show ?thesis using Cons.IH Cons.prems(2) first by fastforce
  qed
qed auto

section \<open>The hardened fetch on a git store\<close>

text \<open>What the fetch relies on of git run with the hardening: the configuration it sets changes
  nothing of what an explicit refspec does.\<close>

locale hardened_git = git_store +
  fixes spawn :: "spawn_cmd \<Rightarrow> 'a \<Rightarrow> git_result \<times> 'a"
  assumes spawn_frame:
      "spawn \<lparr> sp_cwd = r, sp_env = HARDENING_ENV_VARS,
          sp_args = HARDENING_CONFIG_ARGS @ [''fetch'', ''--no-tags'', ''--no-recurse-submodules'', h] @ map show_spec specs,
          sp_uid = u \<rparr> w = (g, w') \<Longrightarrow> h \<noteq> r \<Longrightarrow> plain_specs specs \<Longrightarrow>
        (\<forall>q. q \<noteq> r \<longrightarrow> view w' q = view w q) \<and>
        (\<forall>n. n \<notin> dsts specs \<longrightarrow> refs (view w' r) n = refs (view w r) n)"
    and spawn_done:
      "spawn \<lparr> sp_cwd = r, sp_env = HARDENING_ENV_VARS,
          sp_args = HARDENING_CONFIG_ARGS @ [''fetch'', ''--no-tags'', ''--no-recurse-submodules'', h] @ map show_spec specs,
          sp_uid = u \<rparr> w = (GitOut True out err, w') \<Longrightarrow> h \<noteq> r \<Longrightarrow> plain_specs specs \<Longrightarrow>
        \<forall>sp \<in> set specs. spec_done anc (refs (view w h)) (refs (view w r)) (refs (view w' r)) sp"

definition output_specs :: "string \<Rightarrow> string option \<Rightarrow> refspec list" where
  "output_specs run_id output_branch =
     (False, ''HEAD'', ''refs/heads/runs/'' @ run_id)
     # (case output_branch of None \<Rightarrow> [] | Some b \<Rightarrow> [(False, ''HEAD'', ''refs/heads/'' @ b)])"

lemma hardened_argv_specs:
  "build_hardened_argv src run_id ob =
     HARDENING_CONFIG_ARGS @ [''fetch'', ''--no-tags'', ''--no-recurse-submodules'', src]
       @ map show_spec (output_specs run_id ob)"
  by (simp add: build_hardened_argv_def output_specs_def split: option.split)

lemma plain_output_specs:
  assumes "plain_name (''refs/heads/runs/'' @ run_id)" "\<forall>b. ob = Some b \<longrightarrow> plain_name (''refs/heads/'' @ b)"
  shows "plain_specs (output_specs run_id ob)"
proof -
  have "plain_name ''HEAD''" by code_simp
  then show ?thesis using assms by (auto simp: plain_specs_def output_specs_def split: option.splits)
qed

definition output_refs :: "string \<Rightarrow> string option \<Rightarrow> string set" where
  "output_refs run_id ob = insert (''refs/heads/runs/'' @ run_id) ((@) ''refs/heads/'' ` set_option ob)"

lemma dsts_output_specs: "dsts (output_specs run_id ob) = output_refs run_id ob"
  by (auto simp: dsts_def output_specs_def output_refs_def split: option.splits)

context hardened_git
begin

lemma fetch_pool_spec:
  assumes "fetch_pool_from_git_dir H pool src run_id ob uid w = (x, w')"
    and "ho_sys H = S" "ho_spawn_git H = spawn" "src \<noteq> pool"
    and "plain_name (''refs/heads/runs/'' @ run_id)" "\<forall>b. ob = Some b \<longrightarrow> plain_name (''refs/heads/'' @ b)"
  shows "(\<forall>n. n \<notin> output_refs run_id ob \<longrightarrow> refs (view w' pool) n = refs (view w pool) n)
    \<and> (\<forall>q. q \<noteq> pool \<longrightarrow> view w' q = view w q)
    \<and> (\<not> target_free (refs (view w pool)) run_id ob \<longrightarrow> x \<noteq> Inr () \<and> view w' = view w)
    \<and> (x = Inr () \<longrightarrow> (\<exists>c. refs (view w src) ''HEAD'' = Some c
          \<and> (\<forall>n \<in> output_refs run_id ob. refs (view w' pool) n = Some c)))"
proof -
  let ?sp = "output_specs run_id ob"
  note pl = plain_output_specs [OF assms(5,6)]
  obtain y w1 where y: "validate_run_output_targets S pool run_id ob w = (y, w1)" by fastforce
  note vy = validate_run_output_targets_spec [OF y]
  show ?thesis
  proof (cases y)
    case (Inl e)
    then have "x = Inl (FetchPool e)" "w' = w1" using assms(1-2) y by (auto simp: fetch_pool_from_git_dir_def)
    then show ?thesis using vy Inl by auto
  next
    case (Inr u)
    let ?cmd = "hardened_cmd H pool src run_id ob uid"
    have cmd: "?cmd = \<lparr> sp_cwd = pool, sp_env = HARDENING_ENV_VARS,
          sp_args = HARDENING_CONFIG_ARGS @ [''fetch'', ''--no-tags'', ''--no-recurse-submodules'', src] @ map show_spec ?sp,
          sp_uid = compute_spawn_uid (ho_euid H) uid \<rparr>"
      by (simp only: hardened_cmd_def hardened_argv_specs)
    obtain g w2 where g: "spawn ?cmd w1 = (g, w2)" by fastforce
    have x: "w' = w2" "x = Inr () \<longleftrightarrow> (\<exists>out err. g = GitOut True out err)"
      using assms(1-3) y Inr g by (auto simp: fetch_pool_from_git_dir_def split: git_result.splits if_splits)
    note fr = spawn_frame [OF g [unfolded cmd] assms(4) pl, unfolded dsts_output_specs]
    have "\<exists>c. refs (view w src) ''HEAD'' = Some c \<and> (\<forall>n \<in> output_refs run_id ob. refs (view w' pool) n = Some c)"
      if x2: "x = Inr ()"
    proof -
      obtain out err where "spawn ?cmd w1 = (GitOut True out err, w2)" using x x2 g by auto
      from spawn_done [OF this [unfolded cmd] assms(4) pl] show ?thesis
        using vy x(1) by (auto simp: spec_done_def output_specs_def output_refs_def split: option.splits)
    qed
    moreover have "target_free (refs (view w pool)) run_id ob" using vy Inr by auto
    ultimately show ?thesis using fr vy x(1) by auto
  qed
qed

end

text \<open>The small git, spawned with the hardening.\<close>

definition sim_spawn ::
  "(string \<Rightarrow> string \<Rightarrow> bool) \<Rightarrow> spawn_cmd \<Rightarrow> sim_world \<Rightarrow> git_result \<times> sim_world" where
  "sim_spawn anc c w =
     (if take 6 (sp_args c) = HARDENING_CONFIG_ARGS
      then sim_move anc (sp_args c ! 9) (sp_cwd c) (map parse_spec (drop 10 (sp_args c))) w
      else (GitOut False [] ''refused'', w))"

lemma sim_spawn_fetch:
  "plain_specs specs \<Longrightarrow> sim_spawn anc \<lparr> sp_cwd = r, sp_env = e,
      sp_args = HARDENING_CONFIG_ARGS @ [''fetch'', ''--no-tags'', ''--no-recurse-submodules'', h] @ map show_spec specs,
      sp_uid = u \<rparr> w = sim_move anc h r specs w"
  by (simp add: sim_spawn_def HARDENING_CONFIG_ARGS_def map_parse_show)

interpretation simhard: hardened_git "sim_ops anc" sim_view anc "sim_spawn anc"
  apply unfold_locales
  subgoal unfolding sim_spawn_fetch by (simp add: sim_move_frame)
  subgoal unfolding sim_spawn_fetch by (blast intro: sim_move_done)
  done

section \<open>Properties\<close>



text \<open>The copy of the agent's history writes regular files only, each with the content of a
  regular file of the Workspace below one of the adapter's subpaths, reached from there through
  directories alone and put at the same place below the destination.\<close>

theorem history_copies_only_listed_files:
  "case copy_agent_history_narrow ok fs adapter root dst d of (s, d') \<Rightarrow>
     {(q, m, b). d' q = Some (DFile m b)} \<subseteq> {(q, m, b). d q = Some (DFile m b)} \<union>
       {(dst @ path_comps sub @ rel, m, b) | sub rel m b. \<exists>canonical n.
          walk MAX_LINKS fs True [] root = Some canonical \<and> sub \<in> set (agent_history_subpaths adapter)
          \<and> lstat fs (canonical @ path_comps sub) = Some n \<and> reaches n rel (NFile m b)}"
proof (cases "walk MAX_LINKS fs True [] root")
  case None
  then show ?thesis by (simp add: copy_agent_history_narrow_def)
next
  case (Some c)
  obtain s d' where cp: "copy_subpaths ok fs c dst (agent_history_subpaths adapter) d = (s, d')" by fastforce
  have "x \<in> {(q, m, b). d q = Some (DFile m b)} \<union>
       {(dst @ path_comps sub @ rel, m, b) | sub rel m b. \<exists>canonical n.
          Some c = Some canonical \<and> sub \<in> set (agent_history_subpaths adapter)
          \<and> lstat fs (canonical @ path_comps sub) = Some n \<and> reaches n rel (NFile m b)}"
    if mem: "x \<in> {(q, m, b). d' q = Some (DFile m b)}" for x
  proof -
    obtain q m b where x: "x = (q, m, b)" "d' q = Some (DFile m b)" using mem by auto
    show ?thesis using copied_subpaths [OF cp x(2)] unfolding x(1) by blast
  qed
  then show ?thesis unfolding copy_agent_history_narrow_def Some option.case cp prod.case by (intro subsetI)
qed

text \<open>The fetch from the disk image keeps the Pool safe from the Sandbox.\<close>

lemma debugfs_rdump_pool:
  assumes "debugfs_rdump H ext4 p tmp w = (x, w')" "\<forall>args w. view (snd (ho_debugfs H args w)) pool = view w pool"
  shows "view w' pool = view w pool"
  using assms(1) assms(2) [rule_format, of "[''-R'', ''rdump '' @ p @ '' '' @ tmp, ext4]" w]
  by (auto simp: debugfs_rdump_def split: option.splits if_splits prod.splits git_result.splits)

text \<open>Behind a validation that succeeds: the fetch is not reached and the Pool is as it was, or it
  is the fetch from a directory that is not the Pool.\<close>

lemma sandbox_fetch_runs:
  assumes "ho_sys H = S"
    and "\<forall>w. view (snd (ho_tempdir H w)) pool = view w pool"
    and "\<forall>args w. view (snd (ho_debugfs H args w)) pool = view w pool"
    and "\<forall>fs w. view (ho_set_fs H fs w) pool = view w pool"
    and "\<forall>w tmp w'. ho_tempdir H w = (Some tmp, w') \<longrightarrow> tmp @ ''/.git'' \<noteq> pool"
    and "validate_run_output_targets S pool run_id ob w = (Inr u, w1)"
    and "sandbox_fetch_from_ext4 H ok pool ext4 run_id ob uid w = (x, w')"
  obtains "x \<noteq> Inr ()" "view w' pool = view w1 pool"
  | src w4 where "src \<noteq> pool" "fetch_pool_from_git_dir H pool src run_id ob uid w4 = (x, w')" "view w4 pool = view w1 pool"
proof -
  note run = assms(7) [unfolded sandbox_fetch_from_ext4_def assms(1,6)]
  obtain t w2 where t: "ho_tempdir H w1 = (t, w2)" by fastforce
  have v2: "view w2 pool = view w1 pool" using assms(2) [rule_format, of w1] t by simp
  show thesis
  proof (cases t)
    case None
    then have "x = Inl FetchIo" "w' = w2" using run t by simp_all
    then show thesis using that(1) v2 by simp
  next
    case (Some tmp)
    obtain z w3 where z: "debugfs_rdump H ext4 ''/.git'' tmp w2 = (z, w3)" by fastforce
    have v3: "view w3 pool = view w1 pool" using debugfs_rdump_pool [OF z, of view pool] assms(3) v2 by simp
    obtain sc fs' where sc: "scrub_extracted_tree ok (ho_fs H w3) (path_comps tmp @ [''.git'']) = (sc, fs')" by fastforce
    have v4: "view (ho_set_fs H fs' w3) pool = view w1 pool" using assms(4) v3 by simp
    show thesis
    proof (cases "z = Inr True \<and> sc")
      case False
      then have "x \<noteq> Inr () \<and> (w' = w3 \<or> w' = ho_set_fs H fs' w3)"
        using run t Some z sc by (auto simp: Let_def split: sum.splits if_splits)
      then show thesis using that(1) v3 v4 by auto
    next
      case True
      then have "fetch_pool_from_git_dir H pool (tmp @ ''/.git'') run_id ob uid (ho_set_fs H fs' w3) = (x, w')"
        using run t Some z sc by simp
      then show thesis using that(2) v4 assms(5) t Some by blast
    qed
  qed
qed

text \<open>C16: whatever is in the disk image, the fetch changes at most the Run's audit ref and its
  output branch in the Pool, and those only if they were free and outside the reserved
  namespaces; when it succeeds both have the same commit, and when a target is taken nothing of
  the Pool has changed.\<close>

theorem sandbox_fetch_touches_only_free_refs:
  assumes "hardened_git S view anc (ho_spawn_git H)" and "ho_sys H = S"
    and "\<forall>w. view (snd (ho_tempdir H w)) pool = view w pool"
    and "\<forall>args w. view (snd (ho_debugfs H args w)) pool = view w pool"
    and "\<forall>fs w. view (ho_set_fs H fs w) pool = view w pool"
    and "\<forall>w tmp w'. ho_tempdir H w = (Some tmp, w') \<longrightarrow> tmp @ ''/.git'' \<noteq> pool"
    and "plain_name (''refs/heads/runs/'' @ run_id)" and "\<forall>b. ob = Some b \<longrightarrow> plain_name (''refs/heads/'' @ b)"
    and "sandbox_fetch_from_ext4 H ok pool ext4 run_id ob uid w = (x, w')"
  shows "(\<forall>n. n \<notin> output_refs run_id ob \<longrightarrow> refs (view w' pool) n = refs (view w pool) n)
    \<and> (\<not> target_free (refs (view w pool)) run_id ob \<longrightarrow> x \<noteq> Inr () \<and> refs (view w' pool) = refs (view w pool))
    \<and> (x = Inr () \<longrightarrow> (\<exists>c. \<forall>n \<in> output_refs run_id ob. refs (view w' pool) n = Some c))"
proof -
  note git = hardened_git.axioms(1) [OF assms(1)]
  obtain y w1 where y: "validate_run_output_targets S pool run_id ob w = (y, w1)" by fastforce
  note vy = git_store.validate_run_output_targets_spec [OF git y]
  show ?thesis
  proof (cases y)
    case (Inl e)
    then have "x = Inl (FetchPool e)" "w' = w1" using assms(2,9) y by (auto simp: sandbox_fetch_from_ext4_def)
    then show ?thesis using vy by auto
  next
    case (Inr u)
    then have tf: "target_free (refs (view w pool)) run_id ob" and v1: "view w1 pool = view w pool" using vy by auto
    from sandbox_fetch_runs [where view = view and pool = pool, OF assms(2-6) y [unfolded Inr] assms(9)] show ?thesis
    proof cases
      case 1
      then show ?thesis using tf v1 by simp
    next
      case (2 src w4)
      from hardened_git.fetch_pool_spec [OF assms(1) 2(2) assms(2) refl 2(1) assms(7,8)] show ?thesis
        using 2(3) v1 tf by auto
    qed
  qed
qed

definition sim_host :: "(string \<Rightarrow> string \<Rightarrow> bool) \<Rightarrow> sim_world host_ops" where
  "sim_host anc =
     \<lparr> ho_sys = sim_ops anc, ho_spawn_git = sim_spawn anc, ho_debugfs = (\<lambda>args w. (GitOut True [] [], w)),
       ho_tempdir = (\<lambda>w. (Some ''/tmp'', w)),
       ho_fs = (\<lambda>w. NDir 0 [(''tmp'', NDir 0 [(''.git'', NDir 0 [])])]), ho_set_fs = (\<lambda>fs w. w), ho_euid = 0 \<rparr>"

theorem sandbox_fetch_touches_only_free_refs_witness:
  "\<exists>x w'. sandbox_fetch_from_ext4 (sim_host (\<lambda>a b. a = b)) (\<lambda>_ _. True) ''/pool'' ''ws.ext4'' ''01AB'' (Some ''fix'') 1000
      (\<lambda>r. if r = ''/pool'' then \<lparr> refs = [''refs/heads/fix'' \<mapsto> ''a1''], objs = {} \<rparr>
           else \<lparr> refs = [''HEAD'' \<mapsto> ''c3''], objs = {} \<rparr>) = (x, w')
    \<and> x \<noteq> Inr () \<and> refs (sim_view w' ''/pool'') ''refs/heads/fix'' = Some ''a1''"
proof -
  let ?anc = "\<lambda>a b. a = b" and ?H = "sim_host (\<lambda>a b. a = b)"
  let ?w = "\<lambda>r. if r = ''/pool'' then \<lparr> refs = [''refs/heads/fix'' \<mapsto> ''a1''], objs = {} \<rparr>
           else \<lparr> refs = [''HEAD'' \<mapsto> ''c3''], objs = {} \<rparr>"
  obtain x w' where p: "sandbox_fetch_from_ext4 ?H (\<lambda>_ _. True) ''/pool'' ''ws.ext4'' ''01AB'' (Some ''fix'') 1000 ?w = (x, w')"
    by (rule prod.exhaust)
  have h: "hardened_git (sim_ops ?anc) sim_view ?anc (ho_spawn_git ?H)"
    using simhard.hardened_git_axioms by (simp only: sim_host_def host_ops.simps)
  have s: "ho_sys ?H = sim_ops ?anc" by (simp only: sim_host_def host_ops.simps)
  have v: "\<forall>w. sim_view (snd (ho_tempdir ?H w)) ''/pool'' = sim_view w ''/pool''"
    "\<forall>args w. sim_view (snd (ho_debugfs ?H args w)) ''/pool'' = sim_view w ''/pool''"
    "\<forall>fs w. sim_view (ho_set_fs ?H fs w) ''/pool'' = sim_view w ''/pool''"
    "\<forall>w tmp w'. ho_tempdir ?H w = (Some tmp, w') \<longrightarrow> tmp @ ''/.git'' \<noteq> ''/pool''"
    by (simp_all add: sim_host_def)
  have "plain_name (''refs/heads/runs/'' @ ''01AB'')" "plain_name (''refs/heads/'' @ ''fix'')" "is_sha ''a1''"
    by code_simp+
  then have n: "plain_name (''refs/heads/runs/'' @ ''01AB'')"
    "\<forall>b. Some ''fix'' = Some b \<longrightarrow> plain_name (''refs/heads/'' @ b)"
    and fix_ref: "refs (sim_view ?w ''/pool'') ''refs/heads/fix'' = Some ''a1''" by (simp_all add: sim_view_def Let_def)
  have nt: "\<not> target_free (refs (sim_view ?w ''/pool'')) ''01AB'' (Some ''fix'')"
    using fix_ref by (simp add: target_free_def)
  from sandbox_fetch_touches_only_free_refs [OF h s v n p] nt fix_ref
  have "x \<noteq> Inr () \<and> refs (sim_view w' ''/pool'') ''refs/heads/fix'' = Some ''a1''" by simp
  then show ?thesis using p by blast
qed

section \<open>Links at the edges\<close>

text \<open>The scrub resolves its own argument: when the image's \<open>.git\<close> is itself a symbolic link,
  the extracted link is followed and the host directory it names is scrubbed instead, which
  deletes that directory's links, while the link stays for the fetch to follow.\<close>

lemma scrub_follows_a_linked_root:
  "scrub_extracted_tree (\<lambda>_ _. True)
     (NDir 0 [(''tmp'', NDir 0 [(''.git'', NLink True [''home'', ''repo''])]),
              (''home'', NDir 0 [(''repo'', NDir 0 [(''shared'', NLink True [''srv'']), (''HEAD'', NFile 0 [])])])])
     [''tmp'', ''.git'']
   = (True, NDir 0 [(''tmp'', NDir 0 [(''.git'', NLink True [''home'', ''repo''])]),
              (''home'', NDir 0 [(''repo'', NDir 0 [(''HEAD'', NFile 0 [])])])])"
  by (simp add: scrub_extracted_tree_def strip_setid_def setid_def MAX_LINKS_def eval_nat_numeral Let_def)

text \<open>Only the last component of a subpath is protected from links: with \<open>.pi\<close> a link out of
  the Workspace, \<open>.pi/agent/sessions\<close> is copied from where it points.\<close>

lemma history_follows_an_inner_link:
  "\<exists>d'. copy_agent_history_narrow (\<lambda>_ _. True)
     (NDir 0 [(''ws'', NDir 0 [(''.pi'', NLink True [''home'', ''.pi''])]),
              (''home'', NDir 0 [(''.pi'', NDir 0 [(''agent'', NDir 0 [(''sessions'', NDir 0 [(''s'', NFile 0 [7])])])])])])
     ''pi'' [''ws''] [''out''] Map.empty = (True, d')
   \<and> d' [''out'', ''.pi'', ''agent'', ''sessions'', ''s''] = Some (DFile 0 [7])"
proof -
  have "path_comps ''.pi/agent/sessions'' = [''.pi'', ''agent'', ''sessions'']" by code_simp
  then show ?thesis
    by (simp add: copy_agent_history_narrow_def agent_history_subpaths_def copy_narrow_entry_def lstat_def
        MAX_LINKS_def eval_nat_numeral)
qed

end
