(* ===== verification/Effects.thy ===== *)
theory Effects
  imports SandboxFetch
begin

text \<open>
  The combinators on fallible operations that the components share, and the observations of the
  world that an operation keeps: the collection \<open>keeping\<close> proves that a composed operation
  keeps what its parts keep.
\<close>

section \<open>Combinators\<close>

text \<open>\<open>Path::join\<close> on normalised paths.\<close>

definition join_path :: "string \<Rightarrow> string \<Rightarrow> string" where
  "join_path a b = (if prefix ''/'' b \<or> a = [] then b else if suffix ''/'' a then a @ b else a @ ''/'' @ b)"

definition aerr :: "('e \<Rightarrow> 'f) \<Rightarrow> ('w, 'e, 'a) act \<Rightarrow> ('w, 'f, 'a) act" where
  "aerr f m w = (case m w of (Inl e, w') \<Rightarrow> (Inl (f e), w') | (Inr a, w') \<Rightarrow> (Inr a, w'))"

definition apure :: "('w \<Rightarrow> 'a \<times> 'w) \<Rightarrow> ('w, 'e, 'a) act" where
  "apure m w = (case m w of (a, w') \<Rightarrow> (Inr a, w'))"

definition of_result :: "'e + 'a \<Rightarrow> ('w, 'e, 'a) act" where
  "of_result r w = (r, w)"

text \<open>\<open>unwrap_or\<close> on an operation: its error is dropped, its effects stay.\<close>

definition aor :: "'a \<Rightarrow> ('w, 'e, 'a) act \<Rightarrow> ('w, 'f, 'a) act" where
  "aor d m w = (case m w of (Inl e, w') \<Rightarrow> (Inr d, w') | (Inr a, w') \<Rightarrow> (Inr a, w'))"

text \<open>A guard of the scope: its \<open>Drop\<close> runs on every way out.\<close>

definition with_guard :: "('w \<Rightarrow> 'c \<times> 'w) \<Rightarrow> ('w, 'e, 'a) act \<Rightarrow> ('w, 'e, 'a) act" where
  "with_guard release m w = (case m w of (r, w1) \<Rightarrow> (case release w1 of (_, w2) \<Rightarrow> (r, w2)))"

lemma with_guard_run:
  assumes "with_guard release m w = (r, w')"
  obtains w1 q where "m w = (r, w1)" "release w1 = (q, w')"
  using assms by (auto simp: with_guard_def split: prod.splits)

section \<open>Observations that an operation keeps\<close>

definition keeps :: "('w \<Rightarrow> 'b) \<Rightarrow> ('w \<Rightarrow> 'a \<times> 'w) \<Rightarrow> bool" where
  "keeps f m \<longleftrightarrow> (\<forall>w x w'. m w = (x, w') \<longrightarrow> f w' = f w)"

named_theorems keeping \<open>operations that keep an observation\<close>

lemma keepsD: "keeps f m \<Longrightarrow> m w = (x, w') \<Longrightarrow> f w' = f w"
  by (auto simp: keeps_def)

lemma keepsI: "(\<And>w x w'. m w = (x, w') \<Longrightarrow> f w' = f w) \<Longrightarrow> keeps f m"
  by (auto simp: keeps_def)

lemma keeps_simple [keeping]: "keeps f (aret a)" "keeps f (afail e)" "keeps f (of_result r)"
  by (auto intro!: keepsI simp: of_result_def)

lemma keeps_bind [keeping]: "keeps f m \<Longrightarrow> (\<And>a. keeps f (g a)) \<Longrightarrow> keeps f (abind m g)"
  unfolding keeps_def by (auto simp: abind_def split: prod.splits sum.splits)

lemma keeps_wrap [keeping]:
  "keeps f m \<Longrightarrow> keeps f (aerr h m)" "keeps f m \<Longrightarrow> keeps f (aor d m)"
  by (rule keepsI, force simp: aerr_def aor_def split: prod.splits sum.splits dest: keepsD)+

lemma keeps_pure [keeping]: "keeps f k \<Longrightarrow> keeps f (apure k)"
  by (rule keepsI, force simp: apure_def split: prod.splits dest: keepsD)

lemma keeps_guard [keeping]: "keeps f m \<Longrightarrow> keeps f release \<Longrightarrow> keeps f (with_guard release m)"
  by (rule keepsI, force simp: with_guard_def split: prod.splits dest: keepsD)

lemma keeps_amap [keeping]: "(\<And>x. keeps f (g x)) \<Longrightarrow> keeps f (amap g xs)"
  by (induction xs) (simp_all add: keeping)

lemma keeps_bind_when:
  assumes "keeps f m" "\<And>w a w'. m w = (Inr a, w') \<Longrightarrow> P a" "\<And>a. P a \<Longrightarrow> keeps f (g a)"
  shows "keeps f (abind m g)"
proof (rule keepsI)
  fix w x w'
  assume *: "abind m g w = (x, w')"
  obtain y w1 where y: "m w = (y, w1)" by fastforce
  have f1: "f w1 = f w" using keepsD [OF assms(1) y] .
  show "f w' = f w"
  proof (cases y)
    case (Inl e)
    then show ?thesis using * y f1 by (simp add: abind_def)
  next
    case (Inr a)
    have g: "g a w1 = (x, w')" using * y Inr by (simp add: abind_def)
    have "P a" using assms(2) y Inr by simp
    from keepsD [OF assms(3) [OF this] g] show ?thesis using f1 by simp
  qed
qed

lemma keeps_cond [keeping]: "keeps f m \<Longrightarrow> keeps f n \<Longrightarrow> keeps f (\<lambda>w. if b w then m w else n w)"
  by (auto simp: keeps_def)

lemma keeps_if [keeping]: "(b \<Longrightarrow> keeps f m) \<Longrightarrow> (\<not> b \<Longrightarrow> keeps f n) \<Longrightarrow> keeps f (if b then m else n)"
  by simp

lemma keeps_option [keeping]:
  "(x = None \<Longrightarrow> keeps f m) \<Longrightarrow> (\<And>y. x = Some y \<Longrightarrow> keeps f (n y)) \<Longrightarrow>
     keeps f (case x of None \<Rightarrow> m | Some y \<Rightarrow> n y)"
  by (cases x) simp_all

lemma keeps_sum [keeping]:
  "(\<And>e. keeps f (m e)) \<Longrightarrow> (\<And>y. keeps f (n y)) \<Longrightarrow> keeps f (case x of Inl e \<Rightarrow> m e | Inr y \<Rightarrow> n y)"
  by (cases x) simp_all

section \<open>The Pool's operations\<close>

lemma keeps_git_status: "keeps f (sys_git S (Some d) args) \<Longrightarrow> keeps f (git_status S args d)"
  by (rule keepsI) (auto simp: git_status_def split: prod.splits git_result.splits dest: keepsD)

lemma keeps_validate_targets:
  assumes "\<And>n. keeps f (sys_git S (Some pool) [''show-ref'', ''--verify'', ''--quiet'', ''refs/heads/'' @ n])"
  shows "keeps f (validate_run_output_targets S pool rid ob)"
  unfolding validate_run_output_targets_def check_output_branch_def branch_exists_def
  by (intro keeping keeps_git_status assms)

lemma keeps_fetch_pool:
  assumes "\<And>n. keeps f (sys_git (ho_sys H) (Some pool) [''show-ref'', ''--verify'', ''--quiet'', ''refs/heads/'' @ n])"
    and "\<And>c. sp_cwd c = pool \<Longrightarrow> keeps f (ho_spawn_git H c)"
  shows "keeps f (fetch_pool_from_git_dir H pool src rid ob uid)"
proof (rule keepsI)
  fix w x w'
  assume f: "fetch_pool_from_git_dir H pool src rid ob uid w = (x, w')"
  obtain y w1 where y: "validate_run_output_targets (ho_sys H) pool rid ob w = (y, w1)" by fastforce
  let ?c = "hardened_cmd H pool src rid ob uid"
  obtain g w2 where g: "ho_spawn_git H ?c w1 = (g, w2)" by fastforce
  have "f w1 = f w" using keepsD [OF keeps_validate_targets [OF assms(1)] y] .
  moreover have "f w2 = f w1" by (rule keepsD [OF assms(2) g]) (simp add: hardened_cmd_def)
  moreover have "w' = w1 \<or> w' = w2"
    using f y g by (auto simp: fetch_pool_from_git_dir_def split: sum.splits git_result.splits if_splits)
  ultimately show "f w' = f w" by auto
qed

end
