(* ===== verification/Session.thy ===== *)
theory Session
  imports Effects SandboxFetch FirewallCheck Redactor Json
begin

text \<open>
  \<open>bunsen-core/src/session.rs\<close> and \<open>run_dir.rs\<close>: the Session, its state machine, its
  metadata on disk and its operations. The world is threaded as in \<open>BranchPool\<close>; the file
  system, the clock, serde, the supervisor and the sandbox are the parameters collected in
  \<open>session_ops\<close>. A \<open>&mut self\<close> method returns the changed Session beside its result.
\<close>

section \<open>The state machine\<close>

datatype session_state = Open | Closing | Closed | FailedToClose | Discarded

record transition_error =
  te_from :: session_state
  te_to :: string

definition close_start :: "session_state \<Rightarrow> transition_error + session_state" where
  "close_start s = (if s = Open \<or> s = FailedToClose then Inr Closing
     else Inl \<lparr> te_from = s, te_to = ''closing'' \<rparr>)"

definition close_complete :: "session_state \<Rightarrow> transition_error + session_state" where
  "close_complete s = (if s = Closing then Inr Closed else Inl \<lparr> te_from = s, te_to = ''closed'' \<rparr>)"

definition close_failed :: "session_state \<Rightarrow> transition_error + session_state" where
  "close_failed s = (if s = Closing then Inr FailedToClose
     else Inl \<lparr> te_from = s, te_to = ''failed_to_close'' \<rparr>)"

definition discard_state :: "session_state \<Rightarrow> transition_error + session_state" where
  "discard_state s = (if s = Open \<or> s = FailedToClose then Inr Discarded
     else Inl \<lparr> te_from = s, te_to = ''discarded'' \<rparr>)"

definition accept_new_run :: "session_state \<Rightarrow> transition_error + session_state" where
  "accept_new_run s = (if s = Open \<or> s = FailedToClose then Inr s
     else Inl \<lparr> te_from = s, te_to = ''accept-new-run'' \<rparr>)"

record session_meta =
  sm_id :: string
  sm_state :: session_state
  sm_host_repo :: string
  sm_mirror_refs :: "string list"
  sm_labels :: "string list"
  sm_created_at :: string
  sm_discarded_at :: "string option"
  sm_last_close_failure :: "string option"

datatype io_kind = IoNotFound | IoOther

datatype session_error =
    SeIo io_kind
  | SePool pool_error
  | SeGit string string
  | SeTransition transition_error
  | SeNotFound string
  | SePurgeRequiresClosedState string session_state
  | SeSerde
  | SeMaterialize mat_error
  | SeSandboxFetch fetch_error
  | SeAgentExit string
  | SeBadRedactor
  | SeSandboxUnsupportedOnPlatform
  | SeHostFirewallBlocked string

record list_filter =
  include_closed :: bool
  include_tombstones :: bool

record session_summary =
  su_id :: string
  su_state :: session_state
  su_host_repo :: string
  su_labels :: "string list"
  su_created_at :: string

record run_result =
  rr_run_id :: string
  rr_pool_sha :: "string option"
  rr_output_branch_pushed :: "string option"
  rr_uncommitted_paths :: "string list"

record run_backend =
  rb_kernel :: "string option"
  rb_rootfs :: "string option"
  rb_firecracker_bin :: "string option"
  rb_manage_firewall :: bool

record run_meta =
  mj_run_id :: string
  mj_started_at :: string
  mj_ended_at :: "string option"
  mj_exit_reason :: "string option"
  mj_memory_mb :: u32
  mj_vcpus :: u32
  mj_disk_mb :: u32
  mj_wall_clock :: u64

datatype file_read = ReadOk string | ReadFailed io_kind

record 'w session_ops =
  so_host :: "'w host_ops"
  so_linux :: bool
  so_uid :: u32
  so_username :: string
  so_debug :: "string \<Rightarrow> string"
  so_io_text :: string
  so_meta_text :: "session_meta \<Rightarrow> string option"
  so_meta_parse :: "string \<Rightarrow> session_meta option"
  so_run_meta_text :: "run_meta \<Rightarrow> string"
  so_json_text :: "json \<Rightarrow> string"
  so_read_file :: "string \<Rightarrow> 'w \<Rightarrow> file_read"
  so_write_file :: "string \<Rightarrow> string \<Rightarrow> 'w \<Rightarrow> bool \<times> 'w"
  so_rename :: "string \<Rightarrow> string \<Rightarrow> 'w \<Rightarrow> bool \<times> 'w"
  so_read_dir :: "string \<Rightarrow> 'w \<Rightarrow> string option list option"
  so_is_dir :: "string \<Rightarrow> 'w \<Rightarrow> bool"
  so_now :: "'w \<Rightarrow> string \<times> 'w"
  so_ulid :: "'w \<Rightarrow> string \<times> 'w"
  so_ensure_kernel :: "'w \<Rightarrow> (string + string) \<times> 'w"
  so_resolve_rootfs :: "string \<Rightarrow> 'w \<Rightarrow> (string + string) \<times> 'w"
  so_probe_firewall :: "'w \<Rightarrow> (string + string option) \<times> 'w"
  so_new_encoder :: "string \<Rightarrow> string \<Rightarrow> redactor option \<Rightarrow> 'w \<Rightarrow> bool \<times> 'w"
  so_emit :: "string \<Rightarrow> json \<Rightarrow> 'w \<Rightarrow> bool \<times> 'w"
  so_copy_history :: "string \<Rightarrow> string \<Rightarrow> string \<Rightarrow> 'w \<Rightarrow> bool \<times> 'w"
  so_supervisor :: "run_spec \<Rightarrow> string \<Rightarrow> string \<Rightarrow> 'w \<Rightarrow> (string + unit) \<times> 'w"
  so_sandbox :: "string \<Rightarrow> string \<Rightarrow> run_backend \<Rightarrow> run_spec \<Rightarrow> string \<Rightarrow> string \<Rightarrow> string \<Rightarrow> 'w \<Rightarrow> (string + unit) \<times> 'w"

record session =
  s_path :: string
  s_meta :: session_meta

section \<open>Helpers\<close>

definition pool_path :: "session \<Rightarrow> string" where
  "pool_path s = join_path (s_path s) ''pool''"

definition so_sys :: "'w session_ops \<Rightarrow> 'w sysops" where
  "so_sys K = ho_sys (so_host K)"

definition aio :: "('w \<Rightarrow> bool \<times> 'w) \<Rightarrow> ('w, session_error, unit) act" where
  "aio m w = (case m w of (True, w') \<Rightarrow> (Inr (), w') | (False, w') \<Rightarrow> (Inl (SeIo IoOther), w'))"

text \<open>\<open>Display\<close> of a Pool error, kept in the metadata of a failed close.\<close>

definition show_pool_error :: "'w session_ops \<Rightarrow> pool_error \<Rightarrow> string" where
  "show_pool_error K e =
     (case e of
        PoolIo \<Rightarrow> ''io error: '' @ so_io_text K
      | PoolGit context stderr \<Rightarrow> ''git error in '' @ context @ '': '' @ stderr
      | ReservedNamespace name namespace \<Rightarrow>
          ''ref name '' @ so_debug K name @ '' falls in reserved namespace '' @ so_debug K namespace
      | RefAlreadyExists name \<Rightarrow>
          ''ref '' @ so_debug K name @ '' already exists in pool; refusing to overwrite''
      | NotFastForward pool_ref host_ref \<Rightarrow>
          ''non-fast-forward push '' @ pool_ref @ '' -> '' @ host_ref @ '' requires force: true'')"

definition write_meta_atomic :: "'w session_ops \<Rightarrow> string \<Rightarrow> session_meta \<Rightarrow> ('w, session_error, unit) act" where
  "write_meta_atomic K path meta =
     (case so_meta_text K meta of
        None \<Rightarrow> afail SeSerde
      | Some s \<Rightarrow>
          abind (aio (so_write_file K (join_path path ''meta.json.tmp'') s)) (\<lambda>_.
          aio (so_rename K (join_path path ''meta.json.tmp'') (join_path path ''meta.json''))))"

definition read_meta :: "'w session_ops \<Rightarrow> string \<Rightarrow> ('w, session_error, session_meta) act" where
  "read_meta K path w =
     (case so_read_file K (join_path path ''meta.json'') w of
        ReadFailed k \<Rightarrow> (Inl (SeIo k), w)
      | ReadOk s \<Rightarrow> (case so_meta_parse K s of None \<Rightarrow> (Inl SeSerde, w) | Some m \<Rightarrow> (Inr m, w)))"

text \<open>The git commands that the Session runs itself, with the context of their errors.\<close>

definition session_git ::
  "'w session_ops \<Rightarrow> string \<Rightarrow> string list \<Rightarrow> string \<Rightarrow> ('w, session_error, string) act" where
  "session_git K cwd args context w =
     (case sys_git (so_sys K) (Some cwd) args w of
        (GitIoErr, w') \<Rightarrow> (Inl (SeIo IoOther), w')
      | (GitOut ok out err, w') \<Rightarrow> if ok then (Inr out, w') else (Inl (SeGit context err), w'))"

definition default_branch :: "'w session_ops \<Rightarrow> string \<Rightarrow> ('w, session_error, string) act" where
  "default_branch K host_repo =
     abind (session_git K host_repo [''symbolic-ref'', ''--short'', ''HEAD''] ''git symbolic-ref --short HEAD'')
       (\<lambda>out. if trim out = [] then afail (SeGit ''git symbolic-ref --short HEAD'' ''empty output'')
              else aret (trim out))"

definition ws_rev_parse :: "'w session_ops \<Rightarrow> string \<Rightarrow> string \<Rightarrow> ('w, session_error, string) act" where
  "ws_rev_parse K workspace ref_name =
     abind (session_git K workspace [''rev-parse'', ref_name] (''rev-parse '' @ ref_name @ '' in '' @ workspace))
       (\<lambda>out. aret (trim out))"

definition read_pool_ref_sha :: "'w session_ops \<Rightarrow> session \<Rightarrow> string \<Rightarrow> ('w, session_error, string) act" where
  "read_pool_ref_sha K s full_ref =
     abind (session_git K (pool_path s) [''rev-parse'', ''--verify'', full_ref] (''rev-parse '' @ full_ref))
       (\<lambda>out. aret (trim out))"

definition resolve_base_sha_for_strategy ::
  "'w session_ops \<Rightarrow> string \<Rightarrow> branching_strategy \<Rightarrow> ('w, session_error, string) act" where
  "resolve_base_sha_for_strategy K workspace strategy =
     (case strategy of
        PoolClone base imports \<Rightarrow> ws_rev_parse K workspace (''refs/heads/'' @ base)
      | StratNone \<Rightarrow> ws_rev_parse K workspace ''HEAD'')"

definition porcelain_path :: "string \<Rightarrow> string list" where
  "porcelain_path line = (if 3 < length line then [drop 3 line] else [])"

definition list_uncommitted :: "'w session_ops \<Rightarrow> string \<Rightarrow> ('w, session_error, string list) act" where
  "list_uncommitted K workspace =
     abind (session_git K workspace [''status'', ''--porcelain''] (''status --porcelain in '' @ workspace))
       (\<lambda>out. aret (concat (map porcelain_path (str_lines out))))"

section \<open>Opening, attaching, listing\<close>

definition open_in ::
  "'w session_ops \<Rightarrow> string \<Rightarrow> string \<Rightarrow> string list \<Rightarrow> string option \<Rightarrow> ('w, session_error, session) act" where
  "open_in K sessions_root host_repo mirror_refs lbl =
     abind (apure (so_ulid K)) (\<lambda>sid.
     let path = join_path sessions_root sid in
     abind (aio (sys_create_dir (so_sys K) path)) (\<lambda>_.
     abind (if mirror_refs = [] then abind (default_branch K host_repo) (\<lambda>b. aret [b]) else aret mirror_refs) (\<lambda>rs.
     abind (aerr SePool (pool_init (so_sys K) (join_path path ''pool''))) (\<lambda>pool.
     abind (aerr SePool (mirror_from_host (so_sys K) pool host_repo rs)) (\<lambda>_.
     abind (apure (so_now K)) (\<lambda>now.
     let meta = \<lparr> sm_id = sid, sm_state = Open, sm_host_repo = host_repo, sm_mirror_refs = rs,
                  sm_labels = (case lbl of None \<Rightarrow> [] | Some l \<Rightarrow> [l]), sm_created_at = now,
                  sm_discarded_at = None, sm_last_close_failure = None \<rparr> in
     abind (write_meta_atomic K path meta) (\<lambda>_.
     aret \<lparr> s_path = path, s_meta = meta \<rparr>)))))))"

definition attach_in :: "'w session_ops \<Rightarrow> string \<Rightarrow> string \<Rightarrow> ('w, session_error, session) act" where
  "attach_in K sessions_root sid =
     (let path = join_path sessions_root sid in
      abind (aerr (\<lambda>e. if e = SeIo IoNotFound then SeNotFound sid else e) (read_meta K path)) (\<lambda>meta.
      if sm_state meta = Discarded then afail (SeNotFound sid)
      else abind (aerr SePool (pool_open (so_sys K) (join_path path ''pool''))) (\<lambda>_.
           aret \<lparr> s_path = path, s_meta = meta \<rparr>)))"

definition included :: "list_filter \<Rightarrow> session_state \<Rightarrow> bool" where
  "included f st =
     (case st of
        Open \<Rightarrow> True | FailedToClose \<Rightarrow> True | Closing \<Rightarrow> True
      | Closed \<Rightarrow> include_closed f
      | Discarded \<Rightarrow> include_tombstones f)"

definition summary_of :: "session_meta \<Rightarrow> session_summary" where
  "summary_of m = \<lparr> su_id = sm_id m, su_state = sm_state m, su_host_repo = sm_host_repo m,
     su_labels = sm_labels m, su_created_at = sm_created_at m \<rparr>"

definition entry_meta :: "'w session_ops \<Rightarrow> string \<Rightarrow> 'w \<Rightarrow> session_meta option" where
  "entry_meta K path w =
     (if \<not> so_is_dir K path w then None
      else if \<not> sys_exists (so_sys K) (join_path path ''meta.json'') w then None
      else (case so_read_file K (join_path path ''meta.json'') w of
          ReadFailed k \<Rightarrow> None
        | ReadOk s \<Rightarrow> so_meta_parse K s))"

fun list_entries ::
  "'w session_ops \<Rightarrow> list_filter \<Rightarrow> string \<Rightarrow> string option list \<Rightarrow> 'w \<Rightarrow> session_error + session_summary list" where
  "list_entries K f root [] w = Inr []"
| "list_entries K f root (None # es) w = Inl (SeIo IoOther)"
| "list_entries K f root (Some name # es) w =
     rbind (list_entries K f root es w) (\<lambda>rest.
       case entry_meta K (join_path root name) w of
         None \<Rightarrow> Inr rest
       | Some m \<Rightarrow> Inr (if included f (sm_state m) then summary_of m # rest else rest))"

definition list_in ::
  "'w session_ops \<Rightarrow> string \<Rightarrow> list_filter \<Rightarrow> ('w, session_error, session_summary list) act" where
  "list_in K root f w =
     (if \<not> sys_exists (so_sys K) root w then (Inr [], w)
      else (case so_read_dir K root w of
          None \<Rightarrow> (Inl (SeIo IoOther), w)
        | Some es \<Rightarrow>
            (case list_entries K f root es w of
               Inl e \<Rightarrow> (Inl e, w)
             | Inr out \<Rightarrow> (Inr (sort_key su_id out), w))))"

definition label_session ::
  "'w session_ops \<Rightarrow> string \<Rightarrow> session \<Rightarrow> 'w \<Rightarrow> (session_error + unit) \<times> session \<times> 'w" where
  "label_session K lbl s w =
     (let s' = s\<lparr> s_meta := (s_meta s)\<lparr> sm_labels := sm_labels (s_meta s) @ [lbl] \<rparr> \<rparr>
      in case write_meta_atomic K (s_path s') (s_meta s') w of (r, w') \<Rightarrow> (r, s', w'))"

section \<open>Closing, discarding, purging\<close>

definition set_state :: "session_state \<Rightarrow> string option \<Rightarrow> session \<Rightarrow> session" where
  "set_state st failure s =
     s\<lparr> s_meta := (s_meta s)\<lparr> sm_state := st, sm_last_close_failure := failure \<rparr> \<rparr>"

definition close ::
  "'w session_ops \<Rightarrow> manifest_entry list \<Rightarrow> session \<Rightarrow> 'w \<Rightarrow> (session_error + unit) \<times> session \<times> 'w" where
  "close K manifest s w =
     (case close_start (sm_state (s_meta s)) of
        Inl e \<Rightarrow> (Inl (SeTransition e), s, w)
      | Inr closing \<Rightarrow>
          let s1 = set_state closing None s in
          (case write_meta_atomic K (s_path s1) (s_meta s1) w of
             (Inl e, w1) \<Rightarrow> (Inl e, s1, w1)
           | (Inr _, w1) \<Rightarrow>
               (case push_manifest (so_sys K) (pool_path s1) (sm_host_repo (s_meta s1)) manifest w1 of
                  (Inr _, w2) \<Rightarrow>
                    (case close_complete (sm_state (s_meta s1)) of
                       Inl e \<Rightarrow> (Inl (SeTransition e), s1, w2)
                     | Inr closed \<Rightarrow>
                         let s2 = set_state closed None s1 in
                         (case write_meta_atomic K (s_path s2) (s_meta s2) w2 of
                            (r, w3) \<Rightarrow> (r, s2, w3)))
                | (Inl e, w2) \<Rightarrow>
                    (case close_failed (sm_state (s_meta s1)) of
                       Inl e' \<Rightarrow> (Inl (SeTransition e'), s1, w2)
                     | Inr failed \<Rightarrow>
                         let s2 = set_state failed (Some (show_pool_error K e)) s1 in
                         (case write_meta_atomic K (s_path s2) (s_meta s2) w2 of
                            (Inl e', w3) \<Rightarrow> (Inl e', s2, w3)
                          | (Inr _, w3) \<Rightarrow> (Inl (SePool e), s2, w3))))))"

definition remove_if_exists :: "'w session_ops \<Rightarrow> string \<Rightarrow> ('w, session_error, unit) act" where
  "remove_if_exists K p w =
     (if sys_exists (so_sys K) p w then aio (sys_remove_dir (so_sys K) p) w else (Inr (), w))"

definition discard :: "'w session_ops \<Rightarrow> session \<Rightarrow> ('w, session_error, unit) act" where
  "discard K s =
     (case discard_state (sm_state (s_meta s)) of
        Inl e \<Rightarrow> afail (SeTransition e)
      | Inr new_state \<Rightarrow>
          abind (aerr SePool (wipe (so_sys K) (pool_path s))) (\<lambda>_.
          abind (remove_if_exists K (join_path (s_path s) ''runs'')) (\<lambda>_.
          abind (apure (so_now K)) (\<lambda>now.
          write_meta_atomic K (s_path s)
            ((s_meta s)\<lparr> sm_state := new_state, sm_discarded_at := Some now \<rparr>)))))"

definition purge :: "'w session_ops \<Rightarrow> session \<Rightarrow> ('w, session_error, unit) act" where
  "purge K s =
     (if sm_state (s_meta s) \<noteq> Closed
      then afail (SePurgeRequiresClosedState (sm_id (s_meta s)) (sm_state (s_meta s)))
      else aio (sys_remove_dir (so_sys K) (s_path s)))"

end
