(* ===== verification/SessionRun.thy ===== *)
theory SessionRun
  imports Session
begin

text \<open>
  \<open>Session::run\<close> and \<open>run_with_backend\<close> of \<open>bunsen-core/src/session.rs\<close> with
  \<open>run_dir.rs\<close>: choice of the backend, resolution of its inputs, the firewall gate, the
  materialisation of the Workspace, the dispatch to the supervisor or the sandbox, and the
  extraction of the output into the Pool. The dash in two warning texts is a hyphen pair here:
  U+2014 is outside the modelled characters.
\<close>

definition requests_sandbox :: "run_backend \<Rightarrow> bool" where
  "requests_sandbox b \<longleftrightarrow> rb_kernel b \<noteq> None \<or> rb_rootfs b \<noteq> None"

definition resolve_sandbox_inputs ::
  "'w session_ops \<Rightarrow> run_backend \<Rightarrow> run_spec \<Rightarrow> ('w, session_error, string \<times> string) act" where
  "resolve_sandbox_inputs K backend spec =
     abind (case rb_kernel backend of
         Some p \<Rightarrow> aret p
       | None \<Rightarrow> aerr (SeGit ''ensure_kernel'') (so_ensure_kernel K)) (\<lambda>kpath.
     abind (case rb_rootfs backend of
         Some p \<Rightarrow> aret p
       | None \<Rightarrow>
           (case resolve_oci_image spec of
              None \<Rightarrow> afail (SeGit ''resolve_sandbox_inputs''
                ''sandbox mode requires a rootfs: set RunBackend.rootfs, RunSpec.oci_image, or use an adapter that declares an OCI image'')
            | Some oci_ref \<Rightarrow> aerr (SeGit (''resolve_rootfs('' @ oci_ref @ '')'')) (so_resolve_rootfs K oci_ref))) (\<lambda>rootfs.
     aret (kpath, rootfs)))"

definition parent_path :: "string \<Rightarrow> string" where
  "parent_path p = (case rsplit_once (CHR ''/'') p of
     None \<Rightarrow> [] | Some (a, b) \<Rightarrow> if a = [] then ''/'' else a)"

definition transient_workspace_path :: "string \<Rightarrow> string \<Rightarrow> string" where
  "transient_workspace_path session_path run_id =
     join_path (join_path (parent_path session_path) ''.workspace'')
       (unwrap_or [] (file_name session_path) @ ''-'' @ run_id)"

definition jstrs :: "string list \<Rightarrow> json" where
  "jstrs xs = JArr (map JStr xs)"

definition jopt_str :: "string option \<Rightarrow> json" where
  "jopt_str x = (case x of None \<Rightarrow> JNull | Some s \<Rightarrow> JStr s)"

definition serialize_run_spec_lite :: "run_spec \<Rightarrow> json" where
  "serialize_run_spec_lite spec = JObj (jmap_of
     [(''adapter'', JStr (rs_adapter spec)),
      (''cmd'', jstrs (rs_cmd spec)),
      (''env_keys'', jstrs (map fst (rs_env spec))),
      (''branching_strategy'',
        (case rs_strategy spec of
           StratNone \<Rightarrow> JObj (jmap_of [(''kind'', JStr ''none'')])
         | PoolClone base imports \<Rightarrow> JObj (jmap_of
             [(''kind'', JStr ''pool-clone''), (''base'', JStr base), (''import'', jstrs imports)]))),
      (''output_branch'', jopt_str (rs_output_branch spec)),
      (''wall_clock_seconds'', ju64 (rs_wall_clock spec))])"

section \<open>The Run directory\<close>

definition run_dir_create :: "'w session_ops \<Rightarrow> string \<Rightarrow> string \<Rightarrow> ('w, session_error, string) act" where
  "run_dir_create K session_path run_id =
     (let base = join_path (join_path session_path ''runs'') run_id
      in abind (aio (sys_create_dir (so_sys K) base)) (\<lambda>_. aret base))"

definition transcript_path :: "string \<Rightarrow> string" where
  "transcript_path run_dir = join_path run_dir ''transcript.ndjson''"

definition agent_history_path :: "string \<Rightarrow> string" where
  "agent_history_path run_dir = join_path run_dir ''agent-history''"

definition run_dir_write_spec :: "'w session_ops \<Rightarrow> string \<Rightarrow> string \<Rightarrow> ('w, session_error, unit) act" where
  "run_dir_write_spec K run_dir spec_json = aio (so_write_file K (join_path run_dir ''spec.json'') spec_json)"

definition run_dir_write_meta :: "'w session_ops \<Rightarrow> string \<Rightarrow> run_meta \<Rightarrow> ('w, session_error, unit) act" where
  "run_dir_write_meta K run_dir meta =
     aio (so_write_file K (join_path run_dir ''meta.json'') (so_run_meta_text K meta))"

definition run_meta_of :: "run_spec \<Rightarrow> string \<Rightarrow> string \<Rightarrow> string option \<Rightarrow> string option \<Rightarrow> run_meta" where
  "run_meta_of spec run_id started_at ended_at exit_reason =
     \<lparr> mj_run_id = run_id, mj_started_at = started_at, mj_ended_at = ended_at, mj_exit_reason = exit_reason,
       mj_memory_mb = rs_memory_mb spec, mj_vcpus = rs_vcpus spec, mj_disk_mb = rs_disk_mb spec,
       mj_wall_clock = rs_wall_clock spec \<rparr>"

section \<open>Extraction\<close>

definition emit_event :: "'w session_ops \<Rightarrow> string \<Rightarrow> json \<Rightarrow> ('w, session_error, unit) act" where
  "emit_event K ty payload = aio (so_emit K ty payload)"

definition warning :: "(string \<times> json) list \<Rightarrow> json" where
  "warning fs = JObj (jmap_of fs)"

definition extract_commits ::
  "'w session_ops \<Rightarrow> session \<Rightarrow> string \<Rightarrow> string \<Rightarrow> run_spec \<Rightarrow> ('w, session_error, run_result) act" where
  "extract_commits K s ws run_id spec =
     abind (ws_rev_parse K ws ''HEAD'') (\<lambda>head_sha.
     abind (aor head_sha (resolve_base_sha_for_strategy K ws (rs_strategy spec))) (\<lambda>base_sha.
     abind (aor [] (list_uncommitted K ws)) (\<lambda>uncommitted.
     abind (if uncommitted \<noteq> []
            then emit_event K ''run_warning'' (warning [(''reason'', JStr ''uncommitted_changes''),
                (''count'', ju64 (word_of_nat (length uncommitted))), (''paths'', jstrs uncommitted),
                (''detail'', JStr ''uncommitted files are dropped -- Pool ref reflects commits only'')])
            else aret ()) (\<lambda>_.
     if head_sha = base_sha
     then abind (emit_event K ''run_warning'' (warning [(''reason'', JStr ''no_commits''),
            (''detail'', JStr ''agent produced no commits; no Pool ref written'')])) (\<lambda>_.
          aret \<lparr> rr_run_id = run_id, rr_pool_sha = None, rr_output_branch_pushed = None,
                 rr_uncommitted_paths = uncommitted \<rparr>)
     else abind (aerr SeSandboxFetch (fetch_pool_from_git_dir (so_host K) (pool_path s)
            (join_path ws ''.git'') run_id (rs_output_branch spec) (so_uid K))) (\<lambda>_.
          aret \<lparr> rr_run_id = run_id, rr_pool_sha = Some head_sha,
                 rr_output_branch_pushed = rs_output_branch spec, rr_uncommitted_paths = uncommitted \<rparr>)))))"

definition extract_run_output ::
  "'w session_ops \<Rightarrow> session \<Rightarrow> string \<Rightarrow> string \<Rightarrow> run_spec \<Rightarrow> string
     \<Rightarrow> ('w, session_error, run_result) act" where
  "extract_run_output K s ws run_id spec history_dst =
     abind (apure (so_copy_history K (rs_adapter spec) ws history_dst)) (\<lambda>_ w.
     if \<not> sys_exists (so_sys K) (join_path ws ''.git'') w
     then abind (emit_event K ''run_warning'' (warning [(''reason'', JStr ''no_git_in_workspace''),
            (''detail'', JStr ''BranchingStrategy::None -- no commits possible'')])) (\<lambda>_.
          aret \<lparr> rr_run_id = run_id, rr_pool_sha = None, rr_output_branch_pushed = None,
                 rr_uncommitted_paths = [] \<rparr>) w
     else extract_commits K s ws run_id spec w)"

section \<open>The Run\<close>

datatype dispatch_outcome =
    HostSubprocess "session_error + unit"
  | SandboxRun "string + unit"

definition run_dispatch ::
  "'w session_ops \<Rightarrow> run_backend \<Rightarrow> (string \<times> string) option \<Rightarrow> run_spec \<Rightarrow> string \<Rightarrow> string \<Rightarrow> string
     \<Rightarrow> 'w \<Rightarrow> dispatch_outcome \<times> 'w" where
  "run_dispatch K backend inputs spec run_id ws history_dst w =
     (case inputs of
        Some (kpath, rootfs) \<Rightarrow>
          (case so_sandbox K kpath rootfs backend spec run_id ws history_dst w of (r, w') \<Rightarrow> (SandboxRun r, w'))
      | None \<Rightarrow>
          (case so_supervisor K spec run_id ws w of
             (Inl e, w') \<Rightarrow> (HostSubprocess (Inl (SeAgentExit e)), w')
           | (Inr u, w') \<Rightarrow> (HostSubprocess (Inr ()), w')))"

definition after_dispatch ::
  "'w session_ops \<Rightarrow> session \<Rightarrow> string \<Rightarrow> string \<Rightarrow> run_spec \<Rightarrow> string \<Rightarrow> dispatch_outcome
     \<Rightarrow> 'w \<Rightarrow> ((session_error + unit) \<times> (session_error + run_result)) \<times> 'w" where
  "after_dispatch K s ws run_id spec history_dst d w =
     (case d of
        HostSubprocess supervisor_result \<Rightarrow>
          (case extract_run_output K s ws run_id spec history_dst w of
             (extraction, w') \<Rightarrow> ((supervisor_result, extraction), w'))
      | SandboxRun (Inr _) \<Rightarrow>
          (case read_pool_ref_sha K s (''refs/heads/runs/'' @ run_id) w of
             (r, w') \<Rightarrow>
               ((Inr (), Inr \<lparr> rr_run_id = run_id,
                   rr_pool_sha = (case r of Inr sha \<Rightarrow> Some sha | Inl _ \<Rightarrow> None),
                   rr_output_branch_pushed = rs_output_branch spec, rr_uncommitted_paths = [] \<rparr>), w'))
      | SandboxRun (Inl e) \<Rightarrow> ((Inl (SeAgentExit e), Inl (SeAgentExit e)), w))"

definition exit_reason_of :: "(session_error + unit) \<Rightarrow> (session_error + run_result) \<Rightarrow> string" where
  "exit_reason_of supervisor_result extraction =
     (case supervisor_result of
        Inl _ \<Rightarrow> ''supervisor_error''
      | Inr _ \<Rightarrow> (case extraction of Inr _ \<Rightarrow> ''agent_exit'' | Inl _ \<Rightarrow> ''extraction_error''))"

definition run_agent ::
  "'w session_ops \<Rightarrow> run_spec \<Rightarrow> run_backend \<Rightarrow> (string \<times> string) option \<Rightarrow> session \<Rightarrow> string \<Rightarrow> string \<Rightarrow> string
     \<Rightarrow> string \<Rightarrow> ('w, session_error, run_result) act" where
  "run_agent K spec backend inputs s run_id run_dir ws started_at w =
     (case run_dispatch K backend inputs spec run_id ws (agent_history_path run_dir) w of
        (d, w1) \<Rightarrow>
      (case after_dispatch K s ws run_id spec (agent_history_path run_dir) d w1 of
        ((supervisor_result, extraction), w2) \<Rightarrow>
      (case so_now K w2 of
        (ended_at, w3) \<Rightarrow>
      (case run_dir_write_meta K run_dir (run_meta_of spec run_id started_at (Some ended_at)
              (Some (exit_reason_of supervisor_result extraction))) w3 of
        (_, w4) \<Rightarrow>
      (case sys_remove_dir (so_sys K) ws w4 of
        (_, w5) \<Rightarrow>
          (case supervisor_result of Inl e \<Rightarrow> (Inl e, w5) | Inr _ \<Rightarrow> (extraction, w5)))))))"

definition build_redactor :: "run_spec \<Rightarrow> ('w, session_error, redactor option) act" where
  "build_redactor spec =
     (if rs_secrets spec = [] then aret None
      else (case redactor_new (rs_secrets spec) of
          Inl e \<Rightarrow> afail SeBadRedactor
        | Inr r \<Rightarrow> aret (Some r)))"

definition run_prepared ::
  "'w session_ops \<Rightarrow> run_spec \<Rightarrow> run_backend \<Rightarrow> (string \<times> string) option \<Rightarrow> session
     \<Rightarrow> ('w, session_error, run_result) act" where
  "run_prepared K spec backend inputs s =
     abind (apure (so_ulid K)) (\<lambda>run_id.
     abind (run_dir_create K (s_path s) run_id) (\<lambda>run_dir.
     let ws = transient_workspace_path (s_path s) run_id in
     abind (remove_if_exists K ws) (\<lambda>_.
     abind (aerr SeMaterialize (materialize (so_sys K) (pool_path s) (rs_strategy spec) ws run_id
              (rs_output_branch spec))) (\<lambda>_.
     abind (aor () (run_dir_write_spec K run_dir (so_json_text K (serialize_run_spec_lite spec)))) (\<lambda>_.
     abind (apure (so_now K)) (\<lambda>started_at.
     abind (aor () (run_dir_write_meta K run_dir (run_meta_of spec run_id started_at None None))) (\<lambda>_.
     abind (build_redactor spec) (\<lambda>rx.
     abind (aio (so_new_encoder K run_id (transcript_path run_dir) rx)) (\<lambda>_.
     abind (emit_event K ''run_started'' (JObj (jmap_of
              [(''adapter'', JStr (rs_adapter spec)), (''session_id'', JStr (sm_id (s_meta s))),
               (''transcript_path'', JStr (transcript_path run_dir))]))) (\<lambda>_.
     run_agent K spec backend inputs s run_id run_dir ws started_at))))))))))"

definition run_with_backend ::
  "'w session_ops \<Rightarrow> run_spec \<Rightarrow> run_backend \<Rightarrow> session \<Rightarrow> ('w, session_error, run_result) act" where
  "run_with_backend K spec backend s =
     (let sandbox_intended = requests_sandbox backend \<or> rs_oci_image spec \<noteq> None
      in if sandbox_intended \<and> \<not> so_linux K then afail SeSandboxUnsupportedOnPlatform
         else abind (if sandbox_intended
                then abind (resolve_sandbox_inputs K backend spec) (\<lambda>i. aret (Some i))
                else aret None) (\<lambda>inputs.
              abind (if sandbox_intended
                then abind (apure (so_probe_firewall K)) (\<lambda>probe.
                  case enforce_host_firewall_policy (rb_manage_firewall backend) probe of
                    Inl message \<Rightarrow> afail (SeHostFirewallBlocked message)
                  | Inr _ \<Rightarrow> aret ())
                else aret ()) (\<lambda>_.
              (case accept_new_run (sm_state (s_meta s)) of
                 Inl e \<Rightarrow> afail (SeTransition e)
               | Inr _ \<Rightarrow> run_prepared K spec backend inputs s))))"

definition run_session :: "'w session_ops \<Rightarrow> run_spec \<Rightarrow> session \<Rightarrow> ('w, session_error, run_result) act" where
  "run_session K spec s = run_with_backend K spec
     \<lparr> rb_kernel = None, rb_rootfs = None, rb_firecracker_bin = None, rb_manage_firewall = False \<rparr> s"

end
