(* ===== verification/SessionLaws.thy ===== *)
theory SessionLaws
  imports SessionRun
begin

text \<open>
  What a Session relies on of its file system and of git (the locale \<open>session_store\<close>), the
  guarantees of \<open>close\<close>, and the life of the persisted state over any sequence of commands,
  each of which attaches to the Session anew. The locale is interpreted on \<open>sim_session\<close>, a
  map of files beside the small git.
\<close>

lemma keeps_io [keeping]: "keeps f n \<Longrightarrow> keeps f (aio n)"
  by (rule keepsI, force simp: aio_def split: prod.splits bool.splits dest: keepsD)

section \<open>The laws\<close>

text \<open>The metadata file of the Session at a path, and what a new process reads from it.\<close>

definition meta_file :: "string \<Rightarrow> string" where
  "meta_file path = join_path path ''meta.json''"

definition stored ::
  "'w session_ops \<Rightarrow> ('w \<Rightarrow> string \<Rightarrow> string option) \<Rightarrow> string \<Rightarrow> 'w \<Rightarrow> session_meta option" where
  "stored K files path w = Option.bind (files w (meta_file path)) (so_meta_parse K)"

text \<open>Git and the directory operations touch only what is below the directory they run in and the
  paths among their arguments, and git's reading commands nothing. What runs beside the Session
  in a Run, the agent included, leaves this Session's metadata and the host repository alone.\<close>

definition git_reads :: "string list \<Rightarrow> bool" where
  "git_reads args \<longleftrightarrow> args \<noteq> [] \<and>
     hd args \<in> {''rev-parse'', ''ls-remote'', ''show-ref'', ''merge-base'', ''symbolic-ref''}"

definition apart :: "string option \<Rightarrow> string list \<Rightarrow> string \<Rightarrow> bool" where
  "apart cwd args p \<longleftrightarrow> (\<forall>d \<in> set_option cwd \<union> set args. \<not> prefix d p)"

locale session_store =
  fixes K :: "'w session_ops"
    and view :: "'w \<Rightarrow> string \<Rightarrow> git_repo" and anc :: "string \<Rightarrow> string \<Rightarrow> bool"
    and files :: "'w \<Rightarrow> string \<Rightarrow> string option"
    and root sid host :: string
  assumes git: "git_store (so_sys K) view anc"
    and root_path: "prefix ''/'' root" "\<not> suffix ''/'' root" "sid \<noteq> []" "CHR ''/'' \<notin> set sid"
    and host_apart: "\<not> prefix host (meta_file (join_path root sid))" "\<not> prefix root host" "prefix ''/'' host"
    and meta_roundtrip: "so_meta_text K m = Some t \<Longrightarrow> so_meta_parse K t = Some m"
    and read_ok: "so_read_file K p w = ReadOk t \<Longrightarrow> files w p = Some t"
    and write_frame: "so_write_file K p t w = (ok, w') \<Longrightarrow>
        view w' = view w \<and> (\<forall>q. q \<noteq> p \<longrightarrow> files w' q = files w q)"
    and write_done: "so_write_file K p t w = (True, w') \<Longrightarrow> files w' p = Some t"
    and rename_done: "so_rename K a b w = (True, w') \<Longrightarrow>
        view w' = view w \<and> files w' b = files w a \<and> (\<forall>q. q \<noteq> a \<longrightarrow> q \<noteq> b \<longrightarrow> files w' q = files w q)"
    and rename_failed: "so_rename K a b w = (False, w') \<Longrightarrow> view w' = view w \<and> files w' = files w"
    and git_reading: "git_reads args \<Longrightarrow> keeps (\<lambda>w. (files w p, view w q)) (sys_git (so_sys K) cwd args)"
    and git_files: "apart cwd args p \<Longrightarrow> keeps (\<lambda>w. files w p) (sys_git (so_sys K) cwd args)"
    and git_view: "apart cwd args q \<Longrightarrow> keeps (\<lambda>w. view w q) (sys_git (so_sys K) cwd args)"
    and spawn_scope: "\<not> prefix (sp_cwd c) p \<Longrightarrow> keeps (\<lambda>w. files w p) (ho_spawn_git (so_host K) c)"
      "\<not> prefix (sp_cwd c) q \<Longrightarrow> keeps (\<lambda>w. view w q) (ho_spawn_git (so_host K) c)"
    and dirs_files: "\<not> prefix d p \<Longrightarrow> keeps (\<lambda>w. files w p) (sys_create_dir (so_sys K) d)"
      "\<not> prefix d p \<Longrightarrow> keeps (\<lambda>w. files w p) (sys_remove_dir (so_sys K) d)"
    and dirs_view: "\<not> prefix d q \<Longrightarrow> keeps (\<lambda>w. view w q) (sys_create_dir (so_sys K) d)"
      "\<not> prefix d q \<Longrightarrow> keeps (\<lambda>w. view w q) (sys_remove_dir (so_sys K) d)"
    and ulid_name: "so_ulid K w = (u, w') \<Longrightarrow> u \<noteq> [] \<and> CHR ''/'' \<notin> set u"
    and beside:
      "keeps (\<lambda>w. (files w (meta_file (join_path root sid)), view w host)) (so_now K)"
      "keeps (\<lambda>w. (files w (meta_file (join_path root sid)), view w host)) (so_ulid K)"
      "keeps (\<lambda>w. (files w (meta_file (join_path root sid)), view w host)) (so_ensure_kernel K)"
      "keeps (\<lambda>w. (files w (meta_file (join_path root sid)), view w host)) (so_resolve_rootfs K oci_ref)"
      "keeps (\<lambda>w. (files w (meta_file (join_path root sid)), view w host)) (so_probe_firewall K)"
      "keeps (\<lambda>w. (files w (meta_file (join_path root sid)), view w host)) (so_new_encoder K x1 x2 rx)"
      "keeps (\<lambda>w. (files w (meta_file (join_path root sid)), view w host)) (so_emit K ty payload)"
      "keeps (\<lambda>w. (files w (meta_file (join_path root sid)), view w host)) (so_copy_history K x1 x2 x3)"
      "keeps (\<lambda>w. (files w (meta_file (join_path root sid)), view w host)) (so_supervisor K spec x1 x2)"
      "keeps (\<lambda>w. (files w (meta_file (join_path root sid)), view w host)) (so_sandbox K x1 x2 backend spec x3 x4 x5)"

lemma join_meta_neq: "join_path p ''meta.json.tmp'' \<noteq> meta_file p"
  by (simp add: join_path_def meta_file_def)

lemma stored_cong: "files w' (meta_file p) = files w (meta_file p) \<Longrightarrow> stored K files p w' = stored K files p w"
  by (simp add: stored_def)

lemma aio_cases:
  assumes "aio m w = (x, w')"
  obtains "x = Inr ()" "m w = (True, w')" | "x = Inl (SeIo IoOther)" "m w = (False, w')"
  using assms by (auto simp: aio_def split: prod.splits bool.splits)

context session_store
begin

lemma write_meta_spec:
  assumes "write_meta_atomic K p m w = (x, w')"
  shows "view w' = view w
    \<and> (x = Inr () \<longrightarrow> stored K files p w' = Some m)
    \<and> (x \<noteq> Inr () \<longrightarrow> stored K files p w' = stored K files p w \<and> x \<in> {Inl SeSerde, Inl (SeIo IoOther)})
    \<and> (\<forall>q. q \<noteq> meta_file p \<longrightarrow> q \<noteq> join_path p ''meta.json.tmp'' \<longrightarrow> files w' q = files w q)"
proof (cases "so_meta_text K m")
  case None
  then show ?thesis using assms by (auto simp: write_meta_atomic_def)
next
  case (Some t)
  let ?tmp = "join_path p ''meta.json.tmp''" and ?fin = "join_path p ''meta.json''"
  obtain y w1 where y: "aio (so_write_file K ?tmp t) w = (y, w1)" by fastforce
  from y show ?thesis
  proof (cases rule: aio_cases)
    case 2
    then have "x = Inl (SeIo IoOther)" "w' = w1" using assms y Some by (auto simp: write_meta_atomic_def abind_def)
    then show ?thesis using write_frame [OF 2(2)] join_meta_neq [of p] by (auto intro!: stored_cong)
  next
    case 1
    note wr = write_frame [OF 1(2)] write_done [OF 1(2)]
    have r: "aio (so_rename K ?tmp ?fin) w1 = (x, w')"
      using assms y Some 1 by (auto simp: write_meta_atomic_def abind_def)
    from r show ?thesis
    proof (cases rule: aio_cases)
      case 1
      then show ?thesis using rename_done [OF 1(2)] wr meta_roundtrip [OF Some] by (auto simp: stored_def meta_file_def)
    next
      case 2
      then show ?thesis using rename_failed [OF 2(2)] wr join_meta_neq [of p] by (auto intro!: stored_cong)
    qed
  qed
qed

end

section \<open>Commands of the Pool\<close>

lemma keeps_prod: "keeps f m \<Longrightarrow> keeps g m \<Longrightarrow> keeps (\<lambda>w. (f w, g w)) m"
  by (auto simp: keeps_def)

lemma keeps_fst: "keeps (\<lambda>w. (f w, g w)) m \<Longrightarrow> keeps f m"
  and keeps_snd: "keeps (\<lambda>w. (f w, g w)) m \<Longrightarrow> keeps g m"
  by (auto simp: keeps_def)

lemma keeps_run_git: "keeps f (sys_git S cwd args) \<Longrightarrow> keeps f (run_git S args cwd)"
  by (rule keepsI) (auto simp: run_git_def split: prod.splits git_result.splits if_splits dest: keepsD)

lemma keeps_verify:
  "keeps f (sys_git S (Some pool) [''show-ref'', ''--verify'', ''--quiet'', ''refs/heads/'' @ r]) \<Longrightarrow>
     keeps f (verify_pool_ref S pool r)"
  by (rule keepsI) (auto simp: verify_pool_ref_def split: prod.splits git_result.splits if_splits dest: keepsD)

lemma keeps_mat_git: "keeps f (sys_git S None args) \<Longrightarrow> keeps f (mat_git S args)"
  by (rule keepsI) (auto simp: mat_git_def split: prod.splits git_result.splits if_splits dest: keepsD)

lemma keeps_clear: "keeps f (sys_remove_dir S ws) \<Longrightarrow> keeps f (clear_workspace S ws)"
  by (rule keepsI) (auto simp: clear_workspace_def split: prod.splits bool.splits if_splits dest: keepsD)

lemma keeps_remove_if: "keeps f (sys_remove_dir (so_sys K) p) \<Longrightarrow> keeps f (remove_if_exists K p)"
  by (rule keepsI) (auto simp: remove_if_exists_def aio_def split: prod.splits bool.splits if_splits dest: keepsD)

lemma keeps_wipe: "keeps f (sys_remove_dir S p) \<Longrightarrow> keeps f (wipe S p)"
  by (rule keepsI) (auto simp: wipe_def split: prod.splits bool.splits if_splits dest: keepsD)

lemma not_abs_prefix: "prefix ''/'' p \<Longrightarrow> d \<noteq> [] \<Longrightarrow> hd d \<noteq> CHR ''/'' \<Longrightarrow> \<not> prefix d p"
  by (cases d; cases p) auto

text \<open>An observation that the commands of a push to \<open>h\<close> keep, the final push apart.\<close>

definition pool_quiet :: "('w \<Rightarrow> 'b) \<Rightarrow> 'w sysops \<Rightarrow> string \<Rightarrow> string \<Rightarrow> manifest_entry list \<Rightarrow> bool" where
  "pool_quiet f S pool h es \<longleftrightarrow>
     (\<forall>cwd args. git_reads args \<longrightarrow> keeps f (sys_git S cwd args)) \<and>
     (\<forall>e \<in> set es. \<forall>i. keeps f (sys_git S (Some pool)
        [''fetch'', ''--no-tags'', h, ''refs/heads/'' @ me_host_ref e @ '':'' @ temp_ref i])) \<and>
     (\<forall>i. keeps f (sys_git S (Some pool) [''update-ref'', ''-d'', temp_ref i]))"

lemma pool_quietD:
  assumes "pool_quiet f S pool h es"
  shows "git_reads args \<Longrightarrow> keeps f (sys_git S cwd args)"
    and "e \<in> set es \<Longrightarrow> keeps f (sys_git S (Some pool)
        [''fetch'', ''--no-tags'', h, ''refs/heads/'' @ me_host_ref e @ '':'' @ temp_ref i])"
    and "keeps f (sys_git S (Some pool) [''update-ref'', ''-d'', temp_ref i])"
  using assms unfolding pool_quiet_def by blast+

lemma keeps_resolve_entry:
  assumes "pool_quiet f S pool h es" "e \<in> set es"
  shows "keeps f (resolve_entry S pool h i e)"
  unfolding resolve_entry_def rev_parse_def ls_remote_def
  by (intro keeping keeps_run_git pool_quietD [OF assms(1)] assms(2)) (simp_all add: git_reads_def)

lemma resolve_entries_temps:
  "resolve_entries S pool h i es temps w = (x, temps', w') \<Longrightarrow> set temps \<subseteq> range temp_ref \<Longrightarrow>
     pool_quiet f S pool h es \<Longrightarrow> set temps' \<subseteq> range temp_ref \<and> f w' = f w"
proof (induction es arbitrary: i temps w x temps' w')
  case (Cons e es)
  obtain x1 w1 where 1: "resolve_entry S pool h i e w = (x1, w1)" by fastforce
  have f1: "f w1 = f w" using keepsD [OF keeps_resolve_entry [OF Cons.prems(3)] 1] by simp
  have q: "pool_quiet f S pool h es" using Cons.prems(3) by (simp add: pool_quiet_def)
  show ?case
  proof (cases x1)
    case (Inl err)
    then show ?thesis using Cons.prems 1 f1 by auto
  next
    case (Inr r)
    let ?t1 = "if re_host_sha r \<noteq> None then temps @ [temp_ref i] else temps"
    obtain x2 t2 w2 where 2: "resolve_entries S pool h (Suc i) es ?t1 w1 = (x2, t2, w2)"
      by (cases "resolve_entries S pool h (Suc i) es ?t1 w1")
    have "set ?t1 \<subseteq> range temp_ref" using Cons.prems(2) by auto
    from Cons.IH [OF 2 this q] show ?thesis
      using Cons.prems(1) 1 Inr 2 f1 by (auto split: sum.splits)
  qed
qed auto

lemma keeps_decide:
  "pool_quiet f S pool h es \<Longrightarrow> keeps f (decide_entries S pool rs)"
proof (induction rs)
  case (Cons r rs)
  then show ?case
    by (auto simp: is_ancestor_def git_reads_def intro!: keeping keeps_git_status pool_quietD(1)
      split: option.split)
qed (simp add: keeping)

lemma keeps_delete_temps:
  "pool_quiet f S pool h es \<Longrightarrow> set temps \<subseteq> range temp_ref \<Longrightarrow> f (delete_temps S pool temps w) = f w"
proof (induction temps arbitrary: w)
  case (Cons t ts)
  obtain y w1 where y: "run_git S [''update-ref'', ''-d'', t] (Some pool) w = (y, w1)" by fastforce
  obtain i where "t = temp_ref i" using Cons.prems(2) by auto
  then have "f w1 = f w" using keepsD [OF keeps_run_git [OF pool_quietD(3) [OF Cons.prems(1)]]] y by blast
  then show ?case using Cons y by simp
qed simp

lemma push_manifest_quiet:
  assumes "push_manifest S pool h m w = (x, w')" "pool_quiet f S pool h (kept_entries m)"
  obtains "f w' = f w" "x \<noteq> Inr ()"
  | "f w' = f w" "kept_entries m = []"
  | w2 g where "f w2 = f w" "kept_entries m \<noteq> []"
      "sys_git S (Some pool) ([''push'', ''--atomic'', h] @ map show_spec (map spec_of (kept_entries m))) w2 = (g, w')"
      "x = Inr () \<longleftrightarrow> (\<exists>out err. g = GitOut True out err)"
proof -
  let ?kept = "kept_entries m"
  obtain v temps w1 where 1: "validate_manifest S pool h ?kept w = (v, temps, w1)"
    by (cases "validate_manifest S pool h ?kept w")
  have q: "set temps \<subseteq> range temp_ref \<and> f w1 = f w"
  proof -
    obtain x1 t1 w0 where r: "resolve_entries S pool h 0 ?kept [] w = (x1, t1, w0)"
      by (cases "resolve_entries S pool h 0 ?kept [] w")
    have r0: "set t1 \<subseteq> range temp_ref \<and> f w0 = f w" using resolve_entries_temps [OF r _ assms(2)] by simp
    show ?thesis
    proof (cases x1)
      case (Inl e)
      then show ?thesis using 1 r r0 by (simp add: validate_manifest_def)
    next
      case (Inr rs)
      obtain y w9 where d: "decide_entries S pool rs w0 = (y, w9)" by fastforce
      then show ?thesis using 1 r r0 Inr keepsD [OF keeps_decide [OF assms(2)] d]
        by (simp add: validate_manifest_def)
    qed
  qed
  define w2 where "w2 = delete_temps S pool temps w1"
  have f2: "f w2 = f w" unfolding w2_def using keeps_delete_temps [OF assms(2)] q by simp
  consider e where "v = Inl e" | "v = Inr ()" "?kept = []" | "v = Inr ()" "?kept \<noteq> []"
    by (metis (full_types) old.unit.exhaust sum.exhaust)
  then show thesis
  proof cases
    case 1
    then show ?thesis using assms(1) \<open>validate_manifest S pool h ?kept w = (v, temps, w1)\<close> f2 that(1)
      by (auto simp: push_manifest_def w2_def)
  next
    case 2
    then show ?thesis using assms(1) 1 f2 that(2) by (auto simp: push_manifest_def w2_def)
  next
    case 3
    have sp: "map push_spec ?kept = map show_spec (map spec_of ?kept)" by (simp add: push_spec_show)
    obtain y w3 where y: "run_git S ([''push'', ''--atomic'', h] @ map push_spec ?kept) (Some pool) w2 = (y, w3)"
      by fastforce
    have w3: "w' = w3" "x = Inr () \<longleftrightarrow> (\<exists>z. y = Inr z)"
      using assms(1) 1 3 y by (auto simp: push_manifest_def Let_def w2_def abind_def split: sum.splits)
    from y show ?thesis unfolding sp
    proof (cases rule: run_git_cases)
      case (1 out err)
      show ?thesis by (rule that(3) [OF f2 3(2), of "GitOut True out err"]) (use 1 w3 in auto)
    next
      case (2 g e)
      show ?thesis by (rule that(3) [OF f2 3(2), of g]) (use 2 w3 in auto)
    qed
  qed
qed

section \<open>Closing\<close>

lemma join_session [simp]:
  "prefix ''/'' root \<Longrightarrow> \<not> suffix ''/'' root \<Longrightarrow> c \<noteq> [] \<Longrightarrow> CHR ''/'' \<notin> set c \<Longrightarrow> join_path root c = root @ ''/'' @ c"
  by (cases c) (auto simp: join_path_def)

context session_store
begin

lemma meta_path: "meta_file (join_path root sid) = root @ ''/'' @ sid @ ''/meta.json''"
  and pool_dir: "join_path (join_path root sid) ''pool'' = root @ ''/'' @ sid @ ''/pool''"
  and meta_abs: "prefix ''/'' (meta_file (join_path root sid))"
proof -
  have j: "join_path root sid = root @ ''/'' @ sid" using root_path by simp
  have "\<not> suffix ''/'' (root @ ''/'' @ sid)"
    using root_path(3,4) by (cases sid rule: rev_cases) (auto simp: suffix_def)
  then show "meta_file (join_path root sid) = root @ ''/'' @ sid @ ''/meta.json''"
    and "join_path (join_path root sid) ''pool'' = root @ ''/'' @ sid @ ''/pool''"
    using root_path(1) unfolding j by (auto simp: meta_file_def join_path_def prefix_def)
  then show "prefix ''/'' (meta_file (join_path root sid))" using root_path(1) by (auto simp: prefix_def)
qed

lemma pool_apart:
  "\<not> prefix (join_path (join_path root sid) ''pool'') (meta_file (join_path root sid))"
  "host \<noteq> join_path (join_path root sid) ''pool''"
proof -
  show "\<not> prefix (join_path (join_path root sid) ''pool'') (meta_file (join_path root sid))"
    unfolding meta_path pool_dir by simp
  show "host \<noteq> join_path (join_path root sid) ''pool''"
    using host_apart(2) unfolding pool_dir by auto
qed

lemma pool_quiet_meta:
  "pool_quiet (\<lambda>w. files w (meta_file (join_path root sid))) (so_sys K) (join_path (join_path root sid) ''pool'') host es"
proof -
  have rd: "keeps (\<lambda>w. files w (meta_file (join_path root sid))) (sys_git (so_sys K) cwd args)" if "git_reads args" for cwd args
    by (rule keeps_fst [OF git_reading [OF that]])
  have "apart (Some (join_path (join_path root sid) ''pool'')) [''fetch'', ''--no-tags'', host, ''refs/heads/'' @ n @ '':'' @ temp_ref i]
      (meta_file (join_path root sid))" for n i
    using pool_apart(1) host_apart(1) not_abs_prefix [OF meta_abs] by (simp add: apart_def)
  moreover have "apart (Some (join_path (join_path root sid) ''pool'')) [''update-ref'', ''-d'', temp_ref i]
      (meta_file (join_path root sid))" for i
    using pool_apart(1) not_abs_prefix [OF meta_abs] by (simp add: apart_def temp_ref_def)
  ultimately show ?thesis
    unfolding pool_quiet_def using rd git_files by blast
qed

lemma pool_quiet_host:
  assumes "\<forall>e \<in> set es. plain_entry e"
  shows "pool_quiet (\<lambda>w. view w host) (so_sys K) (join_path (join_path root sid) ''pool'') host es"
proof -
  let ?pool = "join_path (join_path root sid) ''pool''"
  have rd: "keeps (\<lambda>w. view w host) (sys_git (so_sys K) cwd args)" if "git_reads args" for cwd args
    by (rule keeps_snd [OF git_reading [OF that]])
  have "keeps (\<lambda>w. view w host) (sys_git (so_sys K) (Some ?pool)
      [''fetch'', ''--no-tags'', host, ''refs/heads/'' @ me_host_ref e @ '':'' @ temp_ref i])" if "e \<in> set es" for e i
  proof -
    let ?sp = "[(False, ''refs/heads/'' @ me_host_ref e, temp_ref i)]"
    have pl: "plain_specs ?sp"
      using assms that temp_ref_plain by (simp add: plain_specs_def plain_entry_def)
    show ?thesis
    proof (rule keepsI)
      fix w g w'
      assume "sys_git (so_sys K) (Some ?pool) [''fetch'', ''--no-tags'', host, ''refs/heads/'' @ me_host_ref e @ '':'' @ temp_ref i] w = (g, w')"
      then have f: "sys_git (so_sys K) (Some ?pool) ([''fetch'', ''--no-tags'', host] @ map show_spec ?sp) w = (g, w')" by simp
      show "view w' host = view w host"
        using git_store.fetch_frame [OF git f _ pl] pool_apart(2) by blast
    qed
  qed
  moreover have "keeps (\<lambda>w. view w host) (sys_git (so_sys K) (Some ?pool) [''update-ref'', ''-d'', temp_ref i])" for i
    using git_store.update_ref_frame [OF git] pool_apart(2) by (intro keepsI) blast
  ultimately show ?thesis unfolding pool_quiet_def using rd by blast
qed

lemma push_keeps:
  assumes "push_manifest (so_sys K) (join_path (join_path root sid) ''pool'') host m w = (x, w')"
    and "\<forall>e \<in> set (kept_entries m). plain_entry e"
  shows "stored K files (join_path root sid) w' = stored K files (join_path root sid) w"
    and "x \<noteq> Inr () \<Longrightarrow> refs (view w' host) = refs (view w host)"
proof -
  let ?pool = "join_path (join_path root sid) ''pool''" and ?sp = "map spec_of (kept_entries m)"
  have push_args: "apart (Some ?pool) ([''push'', ''--atomic'', host] @ map show_spec ?sp) (meta_file (join_path root sid))"
    using pool_apart(1) host_apart(1) not_abs_prefix [OF meta_abs]
    by (auto simp: apart_def spec_of_def)
  show "stored K files (join_path root sid) w' = stored K files (join_path root sid) w"
  proof (cases rule: push_manifest_quiet [OF assms(1) pool_quiet_meta])
    case (3 w2 g)
    then have "files w' (meta_file (join_path root sid)) = files w2 (meta_file (join_path root sid))"
      using keepsD [OF git_files [OF push_args]] by blast
    then show ?thesis using 3(1) by (intro stored_cong) simp
  qed (auto intro: stored_cong)
  show "refs (view w' host) = refs (view w host)" if "x \<noteq> Inr ()"
  proof (cases rule: push_manifest_quiet [OF assms(1) pool_quiet_host [OF assms(2)]])
    case (3 w2 g)
    have "plain_specs ?sp" using assms(2) 3(2) by (auto simp: plain_specs_def spec_of_def plain_entry_def)
    then show ?thesis
      using git_store.push_frame [OF git 3(3) pool_apart(2)] 3 that by auto
  qed auto
qed

text \<open>The ways a close can go, by how far it came.\<close>

lemma close_cases:
  assumes "close K m s w = (r, s', w')"
    and "s_path s = join_path root sid" "sm_host_repo (s_meta s) = host"
    and "\<forall>e \<in> set (kept_entries m). plain_entry e"
  defines "P \<equiv> join_path root sid" and "st \<equiv> sm_state (s_meta s)"
    and "s1 \<equiv> set_state Closing None s"
  obtains
    (refused) "st \<noteq> Open" "st \<noteq> FailedToClose" "r = Inl (SeTransition \<lparr> te_from = st, te_to = ''closing'' \<rparr>)"
      "s' = s" "w' = w"
  | (unstarted) "st = Open \<or> st = FailedToClose" "r \<in> {Inl SeSerde, Inl (SeIo IoOther)}" "s' = s1"
      "stored K files P w' = stored K files P w" "view w' = view w"
  | (unfinished) x w1 w2 where "st = Open \<or> st = FailedToClose" "r \<in> {Inl SeSerde, Inl (SeIo IoOther)}"
      "view w1 = view w" "push_manifest (so_sys K) (join_path P ''pool'') host m w1 = (x, w2)" "view w' = view w2"
      "stored K files P w' = Some (s_meta s1)"
  | (closed) w1 w2 where "st = Open \<or> st = FailedToClose" "r = Inr ()" "s' = set_state Closed None s1"
      "view w1 = view w" "push_manifest (so_sys K) (join_path P ''pool'') host m w1 = (Inr (), w2)" "view w' = view w2"
      "stored K files P w' = Some (s_meta s')"
  | (failed) e w1 w2 where "st = Open \<or> st = FailedToClose" "r = Inl (SePool e)"
      "s' = set_state FailedToClose (Some (show_pool_error K e)) s1"
      "view w1 = view w" "push_manifest (so_sys K) (join_path P ''pool'') host m w1 = (Inl e, w2)" "view w' = view w2"
      "stored K files P w' = Some (s_meta s')"
proof (cases "st = Open \<or> st = FailedToClose")
  case False
  then have "close_start st = Inl \<lparr> te_from = st, te_to = ''closing'' \<rparr>" by (simp add: close_start_def)
  then have "(r, s', w') = (Inl (SeTransition \<lparr> te_from = st, te_to = ''closing'' \<rparr>), s, w)"
    unfolding assms(1) [symmetric] close_def st_def by simp
  then show ?thesis using refused False by blast
next
  case True
  have path: "s_path s1 = P" "pool_path s1 = join_path P ''pool''" "sm_host_repo (s_meta s1) = host" "sm_state (s_meta s1) = Closing"
    "s_path (set_state a b s1) = P" for a b
    using assms(2,3) by (simp_all add: s1_def set_state_def pool_path_def P_def)
  obtain x1 w1 where 1: "write_meta_atomic K P (s_meta s1) w = (x1, w1)" by fastforce
  note v1 = write_meta_spec [OF 1]
  obtain x2 w2 where 2: "push_manifest (so_sys K) (join_path P ''pool'') host m w1 = (x2, w2)" by fastforce
  note v2 = push_keeps(1) [OF 2 [unfolded P_def] assms(4), folded P_def]
  have c: "(r, s', w') = (case x1 of Inl e \<Rightarrow> (Inl e, s1, w1) | Inr _ \<Rightarrow>
      (case x2 of
         Inr _ \<Rightarrow> (case write_meta_atomic K P (s_meta (set_state Closed None s1)) w2 of (q, w3) \<Rightarrow> (q, set_state Closed None s1, w3))
       | Inl e \<Rightarrow> (case write_meta_atomic K P (s_meta (set_state FailedToClose (Some (show_pool_error K e)) s1)) w2 of
            (Inl e', w3) \<Rightarrow> (Inl e', set_state FailedToClose (Some (show_pool_error K e)) s1, w3)
          | (Inr _, w3) \<Rightarrow> (Inl (SePool e), set_state FailedToClose (Some (show_pool_error K e)) s1, w3))))"
    unfolding assms(1) [symmetric] close_def
    using True 1 2 path
    by (auto simp: close_start_def close_complete_def close_failed_def st_def s1_def [symmetric] Let_def
        split: sum.splits)
  show ?thesis
  proof (cases x1)
    case (Inl e)
    then show ?thesis using c v1 True unstarted by auto
  next
    case (Inr u)
    show ?thesis
    proof (cases x2)
      case (Inl e)
      obtain x3 w3 where 3: "write_meta_atomic K P (s_meta (set_state FailedToClose (Some (show_pool_error K e)) s1)) w2 = (x3, w3)"
        by fastforce
      note v3 = write_meta_spec [OF 3]
      show ?thesis
      proof (cases x3)
        case (Inl e3)
        show ?thesis by (rule unfinished [of w1 x2 w2]) (use c 2 3 Inl \<open>x1 = _\<close> \<open>x2 = _\<close> v1 v2 v3 True in auto)
      next
        case (Inr u3)
        show ?thesis by (rule failed [of e w1 w2]) (use c 2 3 Inr \<open>x1 = _\<close> \<open>x2 = _\<close> v1 v3 True in auto)
      qed
    next
      case (Inr u2)
      obtain x3 w3 where 3: "write_meta_atomic K P (s_meta (set_state Closed None s1)) w2 = (x3, w3)"
        by fastforce
      note v3 = write_meta_spec [OF 3]
      show ?thesis
      proof (cases x3)
        case (Inl e3)
        show ?thesis by (rule unfinished [of w1 x2 w2]) (use c 2 3 Inl \<open>x1 = _\<close> \<open>x2 = _\<close> v1 v2 v3 True in auto)
      next
        case (Inr u3)
        show ?thesis by (rule closed [of w1 w2]) (use c 2 3 Inr \<open>x1 = _\<close> \<open>x2 = _\<close> v1 v3 True in auto)
      qed
    qed
  qed
qed

end

section \<open>Runs leave the metadata and the host repository alone\<close>

definition rel_name :: "string \<Rightarrow> bool" where
  "rel_name n \<longleftrightarrow> n \<noteq> [] \<and> \<not> prefix ''/'' n"

text \<open>The names of a specification that git gets as arguments are no absolute paths.\<close>

definition spec_names_ok :: "run_spec \<Rightarrow> bool" where
  "spec_names_ok spec \<longleftrightarrow>
     (case rs_strategy spec of StratNone \<Rightarrow> True | PoolClone base imports \<Rightarrow> rel_name base) \<and>
     (\<forall>b. rs_output_branch spec = Some b \<longrightarrow> rel_name b)"

lemma rel_name_no_prefix: "rel_name d \<Longrightarrow> prefix ''/'' p \<Longrightarrow> \<not> prefix d p"
  by (cases d; cases p) (auto simp: rel_name_def)

lemma file_name_no_slash: "CHR ''/'' \<notin> set (unwrap_or [] (file_name p))"
proof -
  have "CHR ''/'' \<notin> set c" if "c \<in> set (path_comps p)" for c
    using that split_by_pieces [of c "\<lambda>x. x = CHR ''/''" p "CHR ''/''"] by (auto simp: path_comps_def split_on_def)
  moreover have "c \<in> set (path_comps p)" if "file_name p = Some c" for c
    using that by (auto simp: file_name_def split: list.splits if_splits)
  ultimately show ?thesis by (cases "file_name p") auto
qed

context session_store
begin

lemma workspace_path:
  "\<exists>x. transient_workspace_path (join_path root sid) rid = root @ ''/.workspace/'' @ x \<and> CHR ''-'' \<in> set x"
proof -
  have r: "root \<noteq> []" using root_path(1) by auto
  have j: "join_path root sid = root @ CHR ''/'' # sid" using root_path by simp
  have "split_once (CHR ''/'') (rev sid @ CHR ''/'' # rev root) = Some (rev sid, rev root)"
    using root_path(4) by (intro split_once_append) simp
  then have "rsplit_once (CHR ''/'') (join_path root sid) = Some (root, sid)"
    unfolding j by (simp add: rsplit_once_def)
  then have p: "parent_path (join_path root sid) = root" using r by (simp add: parent_path_def)
  have w: "join_path root ''.workspace'' = root @ ''/.workspace''" using root_path(1,2) by simp
  have "\<not> suffix ''/'' (root @ ''/.workspace'')" by (simp add: suffix_def)
  moreover have "root @ ''/.workspace'' \<noteq> []" by simp
  moreover have "\<not> prefix ''/'' (unwrap_or [] (file_name (join_path root sid)) @ ''-'' @ rid)"
    using file_name_no_slash [of "join_path root sid"]
    by (cases "unwrap_or [] (file_name (join_path root sid))") auto
  ultimately have "transient_workspace_path (join_path root sid) rid =
      (root @ ''/.workspace'') @ ''/'' @ unwrap_or [] (file_name (join_path root sid)) @ ''-'' @ rid"
    unfolding transient_workspace_path_def p w by (simp only: join_path_def if_False simp_thms)
  then show ?thesis by (intro exI [of _ "unwrap_or [] (file_name (join_path root sid)) @ ''-'' @ rid"]) simp
qed

lemma workspace_apart:
  fixes rid :: string
  defines "ws \<equiv> transient_workspace_path (join_path root sid) rid"
  shows "\<not> prefix ws (meta_file (join_path root sid))" "\<not> prefix ws host" "prefix ''/'' ws" "ws \<noteq> []"
proof -
  obtain x where x: "ws = root @ ''/.workspace/'' @ x" "CHR ''-'' \<in> set x" using workspace_path ws_def by blast
  show "\<not> prefix ws (meta_file (join_path root sid))"
  proof
    assume "prefix ws (meta_file (join_path root sid))"
    then have "prefix (''.workspace/'' @ x) (sid @ ''/meta.json'')" unfolding x(1) meta_path by simp
    then obtain z where z: "sid @ CHR ''/'' # ''meta.json'' = ''.workspace'' @ CHR ''/'' # (x @ z)" by (auto simp: prefix_def)
    have tw: "u = u'" if "CHR ''/'' \<notin> set u" "CHR ''/'' \<notin> set u'" "u @ CHR ''/'' # v = u' @ CHR ''/'' # v'" for u u' v v'
      using that by (induction u arbitrary: u') (auto simp: Cons_eq_append_conv append_eq_Cons_conv)
    have "sid = ''.workspace''" using tw [OF root_path(4) _ z] by simp
    then have "x @ z = ''meta.json''" using z by simp
    then have "set x \<subseteq> set ''meta.json''" by (metis set_append sup_ge1)
    then show False using x(2) by auto
  qed
  show "\<not> prefix ws host" using host_apart(2) unfolding x(1) by (auto dest: append_prefixD)
  show "prefix ''/'' ws" "ws \<noteq> []" using root_path(1) unfolding x(1) by (auto simp: prefix_def)
qed

text \<open>The observation that a Run keeps.\<close>

lemma obs_reading:
  "git_reads args \<Longrightarrow> keeps (\<lambda>w. (files w (meta_file (join_path root sid)), view w host)) (sys_git (so_sys K) cwd args)"
  by (rule git_reading)

lemma obs_git:
  assumes "apart cwd args (meta_file (join_path root sid))" "apart cwd args host"
  shows "keeps (\<lambda>w. (files w (meta_file (join_path root sid)), view w host)) (sys_git (so_sys K) cwd args)"
  using assms by (intro keeps_prod git_files git_view)

lemma obs_write:
  "p \<noteq> meta_file (join_path root sid) \<Longrightarrow>
     keeps (\<lambda>w. (files w (meta_file (join_path root sid)), view w host)) (so_write_file K p t)"
  by (rule keepsI) (use write_frame in fastforce)

lemma obs_dirs:
  assumes "\<not> prefix d (meta_file (join_path root sid))" "\<not> prefix d host"
  shows "keeps (\<lambda>w. (files w (meta_file (join_path root sid)), view w host)) (sys_create_dir (so_sys K) d)"
    and "keeps (\<lambda>w. (files w (meta_file (join_path root sid)), view w host)) (sys_remove_dir (so_sys K) d)"
  using assms by (auto intro!: keeps_prod dirs_files dirs_view)

lemma obs_session_git:
  "keeps f (sys_git (so_sys K) (Some d) args) \<Longrightarrow> keeps f (session_git K d args c)"
  by (rule keepsI) (auto simp: session_git_def split: prod.splits git_result.splits if_splits dest: keepsD)

lemma apart_args:
  assumes "\<forall>d \<in> set args. rel_name d \<or> \<not> prefix d (meta_file (join_path root sid)) \<and> \<not> prefix d host"
    and "\<forall>d. cwd = Some d \<longrightarrow> \<not> prefix d (meta_file (join_path root sid)) \<and> \<not> prefix d host"
  shows "apart cwd args (meta_file (join_path root sid))" "apart cwd args host"
  using assms rel_name_no_prefix [OF _ meta_abs] rel_name_no_prefix [OF _ host_apart(3)]
  unfolding apart_def by (cases cwd; fastforce)+

lemma pool_apart_host: "\<not> prefix (join_path (join_path root sid) ''pool'') host"
  using host_apart(2) unfolding pool_dir by (auto dest: append_prefixD)

lemma obs_materialize:
  assumes "spec_names_ok spec"
  shows "keeps (\<lambda>w. (files w (meta_file (join_path root sid)), view w host))
    (materialize (so_sys K) (join_path (join_path root sid) ''pool'') (rs_strategy spec)
      (transient_workspace_path (join_path root sid) rid) rid' (rs_output_branch spec))"
proof -
  let ?pool = "join_path (join_path root sid) ''pool''" and ?ws = "transient_workspace_path (join_path root sid) rid"
  let ?obs = "\<lambda>w. (files w (meta_file (join_path root sid)), view w host)"
  note wa = workspace_apart [of rid]
  have ver: "keeps ?obs (verify_pool_ref (so_sys K) ?pool r)" for r
    by (rule keeps_verify [OF obs_reading]) (simp add: git_reads_def)
  have mg: "keeps ?obs (mat_git (so_sys K) args)"
    if "\<forall>d \<in> set args. rel_name d \<or> \<not> prefix d (meta_file (join_path root sid)) \<and> \<not> prefix d host" for args
    using that by (intro keeps_mat_git obs_git apart_args) auto
  have clr: "keeps ?obs (clear_workspace (so_sys K) ?ws)"
    by (rule keeps_clear [OF obs_dirs(2) [OF wa(1,2)]])
  show ?thesis
  proof (cases "rs_strategy spec")
    case StratNone
    then show ?thesis by (simp add: materialize_def keeping)
  next
    case (PoolClone base imps)
    have names: "rel_name base" "\<forall>b. rs_output_branch spec = Some b \<longrightarrow> rel_name b"
      using assms PoolClone by (auto simp: spec_names_ok_def)
    have lit: "rel_name ''clone''" "rel_name ''--single-branch''" "rel_name ''--branch''" "rel_name ''--no-local''"
      "rel_name ''-C''" "rel_name ''fetch''" "rel_name ''--no-tags''" "rel_name ''checkout''" "rel_name ''-b''"
      "rel_name (''runs/'' @ x)" "rel_name (''refs/heads/'' @ x)" for x
      by (simp_all add: rel_name_def)
    show ?thesis
      unfolding materialize_def PoolClone pool_clone_def branching_strategy.case
      by (intro keeping ver mg clr)
        (use names lit wa pool_apart(1) pool_apart_host in \<open>auto split: option.split\<close>)
  qed
qed

lemma obs_ws_git:
  fixes rid :: string
  defines "ws \<equiv> transient_workspace_path (join_path root sid) rid"
  shows "keeps (\<lambda>w. (files w (meta_file (join_path root sid)), view w host)) (ws_rev_parse K ws n)"
    and "keeps (\<lambda>w. (files w (meta_file (join_path root sid)), view w host)) (list_uncommitted K ws)"
proof -
  show "keeps (\<lambda>w. (files w (meta_file (join_path root sid)), view w host)) (ws_rev_parse K ws n)"
    unfolding ws_rev_parse_def by (intro keeping obs_session_git obs_reading) (simp add: git_reads_def)
  have "keeps (\<lambda>w. (files w (meta_file (join_path root sid)), view w host)) (sys_git (so_sys K) (Some ws) [''status'', ''--porcelain''])"
    using workspace_apart [of rid] by (intro obs_git apart_args) (auto simp: rel_name_def ws_def)
  then show "keeps (\<lambda>w. (files w (meta_file (join_path root sid)), view w host)) (list_uncommitted K ws)"
    unfolding list_uncommitted_def by (intro keeping obs_session_git)
qed

lemma run_paths:
  assumes "rid \<noteq> []" "CHR ''/'' \<notin> set rid"
  defines "d \<equiv> join_path (join_path (join_path root sid) ''runs'') rid"
  shows "\<not> prefix d (meta_file (join_path root sid))" "\<not> prefix d host"
    "join_path d ''spec.json'' \<noteq> meta_file (join_path root sid)"
    "join_path d ''meta.json'' \<noteq> meta_file (join_path root sid)"
proof -
  have s: "join_path root sid = root @ ''/'' @ sid" using root_path by simp
  have s2: "\<not> suffix ''/'' (root @ ''/'' @ sid)"
    using root_path(3,4) by (cases sid rule: rev_cases) (auto simp: suffix_def)
  have r: "join_path (root @ ''/'' @ sid) ''runs'' = root @ ''/'' @ sid @ ''/runs''"
    using s2 by (simp add: join_path_def)
  have "\<not> suffix ''/'' (root @ ''/'' @ sid @ ''/runs'')" by (simp add: suffix_def)
  then have d: "d = root @ ''/'' @ sid @ ''/runs/'' @ rid"
    using assms(1,2) unfolding d_def s r by (cases rid) (auto simp: join_path_def)
  then obtain z where j: "join_path d ''spec.json'' = root @ ''/'' @ sid @ ''/runs/'' @ z"
    by (cases "suffix ''/'' d") (auto simp: join_path_def)
  from d obtain z' where j': "join_path d ''meta.json'' = root @ ''/'' @ sid @ ''/runs/'' @ z'"
    by (cases "suffix ''/'' d") (auto simp: join_path_def)
  show "\<not> prefix d (meta_file (join_path root sid))" unfolding d meta_path by simp
  show "\<not> prefix d host" using host_apart(2) unfolding d by (auto dest: append_prefixD)
  show "join_path d ''spec.json'' \<noteq> meta_file (join_path root sid)" unfolding j meta_path by simp
  show "join_path d ''meta.json'' \<noteq> meta_file (join_path root sid)" unfolding j' meta_path by simp
qed

lemma obs_extract:
  assumes "s_path s = join_path root sid"
  shows "keeps (\<lambda>w. (files w (meta_file (join_path root sid)), view w host))
    (extract_run_output K s (transient_workspace_path (join_path root sid) rid) rid' spec hist)"
proof -
  let ?obs = "\<lambda>w. (files w (meta_file (join_path root sid)), view w host)"
  have em: "keeps ?obs (emit_event K ty p)" for ty p
    unfolding emit_event_def by (intro keeping beside)
  have fp: "keeps ?obs (fetch_pool_from_git_dir (so_host K) (pool_path s) src rid' ob uid)" for src ob uid
  proof (rule keeps_fetch_pool)
    show "keeps ?obs (sys_git (ho_sys (so_host K)) (Some (pool_path s)) [''show-ref'', ''--verify'', ''--quiet'', ''refs/heads/'' @ n])" for n
      using obs_reading unfolding so_sys_def by (simp add: git_reads_def)
    show "keeps ?obs (ho_spawn_git (so_host K) c)" if "sp_cwd c = pool_path s" for c
      using that assms pool_apart(1) pool_apart_host by (intro keeps_prod spawn_scope) (simp_all add: pool_path_def)
  qed
  show ?thesis
    unfolding extract_run_output_def extract_commits_def resolve_base_sha_for_strategy_def
    by (intro keeping beside em fp obs_ws_git; (cases "rs_strategy spec"; simp; intro obs_ws_git)?)
qed

lemma obs_run_agent:
  assumes "s_path s = join_path root sid"
    and "join_path d ''meta.json'' \<noteq> meta_file (join_path root sid)"
  shows "keeps (\<lambda>w. (files w (meta_file (join_path root sid)), view w host))
    (run_agent K spec backend inputs s rid d (transient_workspace_path (join_path root sid) rid) started)"
proof (rule keepsI)
  let ?obs = "\<lambda>w. (files w (meta_file (join_path root sid)), view w host)"
  let ?ws = "transient_workspace_path (join_path root sid) rid"
  fix w x w'
  assume r: "run_agent K spec backend inputs s rid d ?ws started w = (x, w')"
  obtain dd w1 where 1: "run_dispatch K backend inputs spec rid ?ws (agent_history_path d) w = (dd, w1)" by fastforce
  obtain sr ex w2 where 2: "after_dispatch K s ?ws rid spec (agent_history_path d) dd w1 = ((sr, ex), w2)"
    by (metis prod.exhaust)
  obtain e w3 where 3: "so_now K w2 = (e, w3)" by fastforce
  let ?m = "run_meta_of spec rid started (Some e) (Some (exit_reason_of sr ex))"
  obtain y4 w4 where 4: "run_dir_write_meta K d ?m w3 = (y4, w4)" by fastforce
  obtain y5 w5 where 5: "sys_remove_dir (so_sys K) ?ws w4 = (y5, w5)" by fastforce
  have "?obs w1 = ?obs w"
  proof (cases inputs)
    case None
    then show ?thesis using 1 keepsD [OF beside(9)]
      by (auto simp: run_dispatch_def split: prod.splits sum.splits)
  next
    case (Some kr)
    then show ?thesis using 1 keepsD [OF beside(10)]
      by (cases kr) (auto simp: run_dispatch_def split: prod.splits)
  qed
  moreover have "?obs w2 = ?obs w1"
  proof (cases dd)
    case (HostSubprocess sr')
    then have "extract_run_output K s ?ws rid spec (agent_history_path d) w1 = (ex, w2)"
      using 2 by (auto simp: after_dispatch_def split: prod.splits)
    then show ?thesis using keepsD [OF obs_extract [OF assms(1)]] by blast
  next
    case (SandboxRun sr')
    have k: "keeps ?obs (read_pool_ref_sha K s n)" for n
      unfolding read_pool_ref_sha_def by (intro keeping obs_session_git obs_reading) (simp add: git_reads_def)
    show ?thesis
    proof (cases sr')
      case (Inl e)
      then show ?thesis using 2 SandboxRun by (auto simp: after_dispatch_def)
    next
      case (Inr u)
      obtain y wx where "read_pool_ref_sha K s (''refs/heads/runs/'' @ rid) w1 = (y, wx)" by fastforce
      then show ?thesis using 2 SandboxRun Inr keepsD [OF k] by (auto simp: after_dispatch_def)
    qed
  qed
  moreover have "?obs w3 = ?obs w2" using keepsD [OF beside(1) 3] .
  moreover have "?obs w4 = ?obs w3"
    using 4 assms(2) keepsD [OF keeps_io(1) [OF obs_write]] unfolding run_dir_write_meta_def by blast
  moreover have "?obs w5 = ?obs w4" using keepsD [OF obs_dirs(2) [OF workspace_apart(1,2)] 5] .
  moreover have "w' = w5" using r 1 2 3 4 5 by (auto simp: run_agent_def split: sum.splits)
  ultimately show "?obs w' = ?obs w" by metis
qed

lemma obs_run:
  assumes "s_path s = join_path root sid" "spec_names_ok spec"
  shows "keeps (\<lambda>w. (files w (meta_file (join_path root sid)), view w host)) (run_with_backend K spec backend s)"
proof -
  let ?obs = "\<lambda>w. (files w (meta_file (join_path root sid)), view w host)"
  have em: "keeps ?obs (emit_event K ty p)" for ty p
    unfolding emit_event_def by (intro keeping beside)
  have rx: "keeps ?obs (build_redactor spec)"
    unfolding build_redactor_def by (intro keeping)
  have prep: "keeps ?obs (run_prepared K spec backend inputs s)" for inputs
    unfolding run_prepared_def
  proof (rule keeps_bind_when [where P = "\<lambda>rid. rid \<noteq> [] \<and> CHR ''/'' \<notin> set rid"])
    show "keeps ?obs (apure (so_ulid K))" by (intro keeping beside)
    show "a \<noteq> [] \<and> CHR ''/'' \<notin> set a" if "apure (so_ulid K) w = (Inr a, w')" for w a w'
      using that ulid_name by (auto simp: apure_def split: prod.splits)
  next
    fix rid :: string
    assume rid: "rid \<noteq> [] \<and> CHR ''/'' \<notin> set rid"
    let ?d = "join_path (join_path (join_path root sid) ''runs'') rid"
    note rp = run_paths [of rid, OF rid [THEN conjunct1] rid [THEN conjunct2]]
    show "keeps ?obs (abind (run_dir_create K (s_path s) rid) (\<lambda>run_dir.
     let ws = transient_workspace_path (s_path s) rid in
     abind (remove_if_exists K ws) (\<lambda>_.
     abind (aerr SeMaterialize (materialize (so_sys K) (pool_path s) (rs_strategy spec) ws rid
              (rs_output_branch spec))) (\<lambda>_.
     abind (aor () (run_dir_write_spec K run_dir (so_json_text K (serialize_run_spec_lite spec)))) (\<lambda>_.
     abind (apure (so_now K)) (\<lambda>started_at.
     abind (aor () (run_dir_write_meta K run_dir (run_meta_of spec rid started_at None None))) (\<lambda>_.
     abind (build_redactor spec) (\<lambda>rx.
     abind (aio (so_new_encoder K rid (transcript_path run_dir) rx)) (\<lambda>_.
     abind (emit_event K ''run_started'' (JObj (jmap_of
              [(''adapter'', JStr (rs_adapter spec)), (''session_id'', JStr (sm_id (s_meta s))),
               (''transcript_path'', JStr (transcript_path run_dir))]))) (\<lambda>_.
     run_agent K spec backend inputs s rid run_dir ws started_at))))))))))"
      unfolding Let_def assms(1) pool_path_def
    proof (rule keeps_bind_when [where P = "\<lambda>d. d = ?d"])
      show "keeps ?obs (run_dir_create K (join_path root sid) rid)"
        unfolding run_dir_create_def Let_def using rp by (intro keeping obs_dirs)
      show "a = ?d" if "run_dir_create K (join_path root sid) rid w = (Inr a, w')" for w a w'
        using that by (auto simp: run_dir_create_def Let_def abind_def split: prod.splits sum.splits)
    next
      fix d assume d: "d = ?d"
      show "keeps ?obs (abind (remove_if_exists K (transient_workspace_path (join_path root sid) rid)) (\<lambda>_.
       abind (aerr SeMaterialize (materialize (so_sys K) (join_path (join_path root sid) ''pool'') (rs_strategy spec)
          (transient_workspace_path (join_path root sid) rid) rid (rs_output_branch spec))) (\<lambda>_.
       abind (aor () (run_dir_write_spec K d (so_json_text K (serialize_run_spec_lite spec)))) (\<lambda>_.
       abind (apure (so_now K)) (\<lambda>started_at.
       abind (aor () (run_dir_write_meta K d (run_meta_of spec rid started_at None None))) (\<lambda>_.
       abind (build_redactor spec) (\<lambda>rx.
       abind (aio (so_new_encoder K rid (transcript_path d) rx)) (\<lambda>_.
       abind (emit_event K ''run_started'' (JObj (jmap_of
                [(''adapter'', JStr (rs_adapter spec)), (''session_id'', JStr (sm_id (s_meta s))),
                 (''transcript_path'', JStr (transcript_path d))]))) (\<lambda>_.
       run_agent K spec backend inputs s rid d (transient_workspace_path (join_path root sid) rid) started_at)))))))))"
        unfolding d run_dir_write_spec_def run_dir_write_meta_def
        using rp assms
        by (intro keeping keeps_remove_if obs_dirs workspace_apart obs_materialize obs_write beside rx em obs_run_agent)
    qed
  qed
  have res: "keeps ?obs (resolve_sandbox_inputs K backend spec)"
    unfolding resolve_sandbox_inputs_def by (intro keeping beside)
  show ?thesis
    unfolding run_with_backend_def Let_def
    by (intro keeping beside res prep)
qed

end

section \<open>The life of a Session\<close>

text \<open>A command of a new process: attach, then one operation. What it prints is left out.\<close>

datatype session_cmd =
    CmdLabel string
  | CmdClose "manifest_entry list"
  | CmdDiscard
  | CmdRun run_spec run_backend

definition exec_cmd :: "'w session_ops \<Rightarrow> string \<Rightarrow> string \<Rightarrow> session_cmd \<Rightarrow> 'w \<Rightarrow> 'w" where
  "exec_cmd K root sid c w =
     (case attach_in K root sid w of
        (Inl e, w1) \<Rightarrow> w1
      | (Inr s, w1) \<Rightarrow>
          (case c of
             CmdLabel l \<Rightarrow> snd (snd (label_session K l s w1))
           | CmdClose m \<Rightarrow> snd (snd (close K m s w1))
           | CmdDiscard \<Rightarrow> snd (discard K s w1)
           | CmdRun spec backend \<Rightarrow> snd (run_with_backend K spec backend s w1)))"

fun cmd_ok :: "session_cmd \<Rightarrow> bool" where
  "cmd_ok (CmdClose m) = (\<forall>e \<in> set (kept_entries m). plain_entry e)"
| "cmd_ok (CmdRun spec backend) = spec_names_ok spec"
| "cmd_ok c = True"

definition live :: "session_state \<Rightarrow> bool" where
  "live st \<longleftrightarrow> st = Open \<or> st = FailedToClose"

text \<open>The abstract step: the state of the metadata and the host's refs before and after.\<close>

definition life :: "session_meta \<Rightarrow> 'r \<Rightarrow> session_meta \<Rightarrow> 'r \<Rightarrow> bool" where
  "life m H m' H' \<longleftrightarrow>
     sm_host_repo m' = sm_host_repo m
     \<and> (sm_state m' = sm_state m \<or> (live (sm_state m) \<and> sm_state m' \<noteq> Open))
     \<and> (H' = H \<or> (live (sm_state m) \<and> sm_state m' \<in> {Closing, Closed}))"

lemma life_refl: "life m H m H"
  by (simp add: life_def)

lemma life_trans: "life m H m1 H1 \<Longrightarrow> life m1 H1 m2 H2 \<Longrightarrow> life m H m2 H2"
  by (auto simp: life_def live_def)

context session_store
begin

lemma attach_spec:
  assumes "attach_in K root sid w = (x, w')"
  shows "w' = w" and "x = Inr s \<Longrightarrow> stored K files (join_path root sid) w = Some (s_meta s) \<and> s_path s = join_path root sid
    \<and> sm_state (s_meta s) \<noteq> Discarded"
  using assms read_ok
  by (auto simp: attach_in_def Let_def read_meta_def pool_open_def abind_def aerr_def stored_def meta_file_def
      split: file_read.splits option.splits if_splits prod.splits sum.splits)

lemma obs_discard:
  assumes "s_path s = join_path root sid" "discard K s w = (x, w')" "stored K files (join_path root sid) w = Some (s_meta s)"
  shows "view w' host = view w host \<and> (stored K files (join_path root sid) w' = Some (s_meta s) \<or>
    live (sm_state (s_meta s)) \<and>
    (\<exists>m'. stored K files (join_path root sid) w' = Some m' \<and> sm_state m' = Discarded \<and> sm_host_repo m' = sm_host_repo (s_meta s)))"
proof (cases "live (sm_state (s_meta s))")
  case False
  then show ?thesis using assms by (simp add: discard_def discard_state_def live_def)
next
  case True
  let ?P = "join_path root sid"
  let ?obs = "\<lambda>w. (files w (meta_file ?P), view w host)"
  have runs: "\<not> prefix (join_path ?P ''runs'') (meta_file ?P)" "\<not> prefix (join_path ?P ''runs'') host"
  proof -
    have "\<not> suffix ''/'' (root @ ''/'' @ sid)"
      using root_path(3,4) by (cases sid rule: rev_cases) (auto simp: suffix_def)
    moreover have j: "join_path root sid = root @ ''/'' @ sid" using root_path by simp
    ultimately have "join_path ?P ''runs'' = root @ ''/'' @ sid @ ''/runs''"
      unfolding j by (simp add: join_path_def)
    then show "\<not> prefix (join_path ?P ''runs'') (meta_file ?P)" "\<not> prefix (join_path ?P ''runs'') host"
      using host_apart(2) unfolding meta_path by (auto dest: append_prefixD)
  qed
  have k1: "keeps ?obs (aerr SePool (wipe (so_sys K) (join_path ?P ''pool'')))"
    by (intro keeping keeps_wipe obs_dirs pool_apart(1) pool_apart_host)
  have k2: "keeps ?obs (remove_if_exists K (join_path ?P ''runs''))"
    by (intro keeps_remove_if obs_dirs runs)
  have k3: "keeps ?obs (apure (so_now K))" by (intro keeping beside)
  obtain x1 w1 where 1: "aerr SePool (wipe (so_sys K) (join_path ?P ''pool'')) w = (x1, w1)" by fastforce
  obtain x2 w2 where 2: "remove_if_exists K (join_path ?P ''runs'') w1 = (x2, w2)" by fastforce
  obtain x3 :: "session_error + string" and w3 where 3: "apure (so_now K) w2 = (x3, w3)" by fastforce
  have o: "?obs w1 = ?obs w" "?obs w2 = ?obs w" "?obs w3 = ?obs w"
    using keepsD [OF k1 1] keepsD [OF k2 2] keepsD [OF k3 3] by simp_all
  then have st: "stored K files ?P w1 = stored K files ?P w" "stored K files ?P w2 = stored K files ?P w"
    "stored K files ?P w3 = stored K files ?P w" by (auto intro!: stored_cong)
  obtain now where x3: "x3 = Inr now" using 3 by (auto simp: apure_def split: prod.splits)
  let ?m' = "(s_meta s)\<lparr> sm_state := Discarded, sm_discarded_at := Some now \<rparr>"
  obtain x4 w4 where 4: "write_meta_atomic K ?P ?m' w3 = (x4, w4)" by fastforce
  note v4 = write_meta_spec [OF 4]
  have "w' = w1 \<or> w' = w2 \<or> w' = w4"
    using assms(1,2) True 1 2 4 3 [unfolded x3]
    by (cases x1; cases x2) (auto simp: discard_def discard_state_def live_def abind_def pool_path_def)
  then show ?thesis
  proof (elim disjE)
    assume "w' = w4"
    then show ?thesis using v4 o st assms(3) True by (cases "x4 = Inr ()") auto
  qed (use o st assms(3) in auto)
qed

lemma exec_life:
  assumes "stored K files (join_path root sid) w = Some m" "sm_host_repo m = host" "cmd_ok c"
    and "exec_cmd K root sid c w = w'"
  shows "\<exists>m'. stored K files (join_path root sid) w' = Some m' \<and>
    life m (refs (view w host)) m' (refs (view w' host))"
proof -
  let ?P = "join_path root sid"
  obtain x w1 where a: "attach_in K root sid w = (x, w1)" by fastforce
  note w1 = attach_spec(1) [OF a]
  show ?thesis
  proof (cases x)
    case (Inl e)
    then show ?thesis using assms a w1 life_refl by (auto simp: exec_cmd_def)
  next
    case (Inr s)
    have s: "s_meta s = m" "s_path s = ?P" using attach_spec(2) [OF a Inr] assms(1) by auto
    show ?thesis
    proof (cases c)
      case (CmdLabel l)
      let ?m' = "m\<lparr> sm_labels := sm_labels m @ [l] \<rparr>"
      obtain y w2 where y: "write_meta_atomic K ?P ?m' w = (y, w2)" by fastforce
      have "w' = w2" using assms(4) a Inr CmdLabel y s w1 by (simp add: exec_cmd_def label_session_def)
      then show ?thesis using write_meta_spec [OF y] assms(1)
        by (cases "y = Inr ()") (auto simp: life_def)
    next
      case (CmdClose mf)
      obtain r s' w2 where c: "close K mf s w = (r, s', w2)" by (cases "close K mf s w")
      have w2: "w' = w2" using assms(4) a Inr CmdClose c w1 by (simp add: exec_cmd_def)
      have pe: "\<forall>e \<in> set (kept_entries mf). plain_entry e" using assms(3) CmdClose by simp
      have h: "sm_host_repo (s_meta s) = host" using s assms(2) by simp
      show ?thesis
      proof (cases rule: close_cases [OF c s(2) h pe])
        case 1
        then show ?thesis using assms(1) w2 life_refl by auto
      next
        case 2
        then show ?thesis using assms(1) w2 life_refl by auto
      next
        case (3 x w3 w4)
        then show ?thesis using s w2 by (auto simp: life_def live_def set_state_def)
      next
        case (4 w3 w4)
        then show ?thesis using s w2 by (auto simp: life_def live_def set_state_def)
      next
        case (5 e w3 w4)
        then have "refs (view w2 host) = refs (view w host)"
          using push_keeps(2) [OF 5(5) pe] by simp
        then show ?thesis using 5 s w2 by (auto simp: life_def live_def set_state_def)
      qed
    next
      case CmdDiscard
      obtain y w2 where y: "discard K s w = (y, w2)" by fastforce
      have "w' = w2" using assms(4) a Inr CmdDiscard y w1 by (simp add: exec_cmd_def)
      then show ?thesis using obs_discard [OF s(2) y] assms(1) s by (auto simp: life_def)
    next
      case (CmdRun spec backend)
      obtain y w2 where y: "run_with_backend K spec backend s w = (y, w2)" by fastforce
      have "w' = w2" using assms(4) a Inr CmdRun y w1 by (simp add: exec_cmd_def)
      moreover have "(files w2 (meta_file ?P), view w2 host) = (files w (meta_file ?P), view w host)"
        using keepsD [OF obs_run [OF s(2)] y] assms(3) CmdRun by simp
      moreover from this have "stored K files ?P w2 = stored K files ?P w" by (intro stored_cong) simp
      ultimately show ?thesis using assms(1) life_refl by auto
    qed
  qed
qed

end

end
