(* ===== verification/SessionLife.thy ===== *)
theory SessionLife
  imports SessionLaws
begin

text \<open>
  The locale \<open>session_store\<close> interpreted: files and refs as maps, the Sessions'
  metadata in a length-prefixed text. Then the properties of a Session over that contract: its
  life over any sequence of commands, the outcomes of \<open>close\<close>, and the gates of a Run.
\<close>

section \<open>A text form of the metadata\<close>

definition enc_list :: "('a \<Rightarrow> string) \<Rightarrow> 'a list \<Rightarrow> string" where
  "enc_list f xs = replicate (length xs) (CHR ''1'') @ CHR ''0'' # concat (map f xs)"

fun dec_many :: "(string \<Rightarrow> 'a \<times> string) \<Rightarrow> nat \<Rightarrow> string \<Rightarrow> 'a list \<times> string" where
  "dec_many d 0 t = ([], t)"
| "dec_many d (Suc n) t = (case d t of (x, t1) \<Rightarrow> (case dec_many d n t1 of (xs, t2) \<Rightarrow> (x # xs, t2)))"

definition dec_list :: "(string \<Rightarrow> 'a \<times> string) \<Rightarrow> string \<Rightarrow> 'a list \<times> string" where
  "dec_list d t = (let n = length (takeWhile (\<lambda>c. c = CHR ''1'') t) in dec_many d n (drop (Suc n) t))"

lemma dec_enc_list:
  assumes "\<And>x r. d (f x @ r) = (x, r)"
  shows "dec_list d (enc_list f xs @ r) = (xs, r)"
proof -
  have "dec_many d (length xs) (concat (map f xs) @ r) = (xs, r)"
    by (induction xs) (simp_all add: assms)
  moreover have "takeWhile (\<lambda>c. c = CHR ''1'') (replicate n (CHR ''1'') @ CHR ''0'' # t) = replicate n (CHR ''1'')" for n t
    by (induction n) simp_all
  ultimately show ?thesis by (simp add: dec_list_def enc_list_def Let_def)
qed

definition enc_fields :: "string list list \<Rightarrow> string" where
  "enc_fields = enc_list (enc_list (enc_list (\<lambda>c. [c])))"

definition dec_fields :: "string \<Rightarrow> string list list" where
  "dec_fields t = fst (dec_list (dec_list (dec_list (\<lambda>t. (hd t, tl t)))) t)"

lemma dec_enc_fields: "dec_fields (enc_fields fs) = fs"
proof -
  have "dec_list (dec_list (dec_list (\<lambda>t. (hd t, tl t)))) (enc_fields fs @ []) = (fs, [])"
    unfolding enc_fields_def by (intro dec_enc_list) simp
  then show ?thesis by (simp add: dec_fields_def)
qed

definition meta_fields :: "session_meta \<Rightarrow> string list list" where
  "meta_fields m =
     [[sm_id m],
      [case sm_state m of Open \<Rightarrow> ''o'' | Closing \<Rightarrow> ''g'' | Closed \<Rightarrow> ''c'' | FailedToClose \<Rightarrow> ''f'' | Discarded \<Rightarrow> ''d''],
      [sm_host_repo m], sm_mirror_refs m, sm_labels m, [sm_created_at m],
      (case sm_discarded_at m of None \<Rightarrow> [] | Some x \<Rightarrow> [x]),
      (case sm_last_close_failure m of None \<Rightarrow> [] | Some x \<Rightarrow> [x])]"

definition fields_meta :: "string list list \<Rightarrow> session_meta" where
  "fields_meta fs =
     \<lparr> sm_id = hd (fs ! 0),
       sm_state = (let s = hd (fs ! 1) in if s = ''o'' then Open else if s = ''g'' then Closing
         else if s = ''c'' then Closed else if s = ''f'' then FailedToClose else Discarded),
       sm_host_repo = hd (fs ! 2), sm_mirror_refs = fs ! 3, sm_labels = fs ! 4, sm_created_at = hd (fs ! 5),
       sm_discarded_at = (if fs ! 6 = [] then None else Some (hd (fs ! 6))),
       sm_last_close_failure = (if fs ! 7 = [] then None else Some (hd (fs ! 7))) \<rparr>"

lemma fields_meta_fields: "fields_meta (meta_fields m) = m"
  by (cases m)
    (auto simp: fields_meta_def meta_fields_def Let_def eval_nat_numeral split: session_state.splits option.splits)

section \<open>A small file system beside the small git\<close>

type_synonym sess_world = "(string \<Rightarrow> string option) \<times> sim_world"

definition lift_git :: "('c \<Rightarrow> sim_world \<Rightarrow> 'r \<times> sim_world) \<Rightarrow> 'c \<Rightarrow> sess_world \<Rightarrow> 'r \<times> sess_world" where
  "lift_git g c w = (case g c (snd w) of (r, u) \<Rightarrow> (r, fst w, u))"

definition sess_git ::
  "(string \<Rightarrow> string \<Rightarrow> bool) \<Rightarrow> string option \<Rightarrow> string list \<Rightarrow> sess_world \<Rightarrow> git_result \<times> sess_world" where
  "sess_git anc cwd args w =
     (if args = [''rev-parse'', ''HEAD''] then
        (case refs (sim_view (snd w) (join_path (unwrap_or [] cwd) ''.git'')) ''HEAD'' of
           None \<Rightarrow> GitOut False [] ''fatal'' | Some c \<Rightarrow> GitOut True (c @ [LF]) [], w)
      else if length args < 3 \<or> (cwd = None \<and> hd args \<noteq> ''ls-remote'') then (GitOut False [] ''usage'', w)
      else lift_git (sim_git anc cwd) args w)"

definition sim_session :: "(string \<Rightarrow> string \<Rightarrow> bool) \<Rightarrow> sess_world session_ops" where
  "sim_session anc =
     \<lparr> so_host = \<lparr> ho_sys = \<lparr> sys_git = sess_git anc, sys_create_dir = (\<lambda>p w. (True, w)),
           sys_exists = (\<lambda>p w. True),
           sys_remove_dir = (\<lambda>p w. (True, (\<lambda>q. if prefix p q then None else fst w q), snd w)) \<rparr>,
         ho_spawn_git = lift_git (sim_spawn anc), ho_debugfs = (\<lambda>args w. (GitOut True [] [], w)),
         ho_tempdir = (\<lambda>w. (Some ''/tmp'', w)),
         ho_fs = (\<lambda>w. NDir 0 []), ho_set_fs = (\<lambda>fs w. w), ho_euid = 0 \<rparr>,
       so_linux = True, so_uid = 1000, so_username = ''user'', so_debug = (\<lambda>s. s), so_io_text = ''io'',
       so_meta_text = (\<lambda>m. Some (enc_fields (meta_fields m))),
       so_meta_parse = (\<lambda>t. Some (fields_meta (dec_fields t))),
       so_run_meta_text = (\<lambda>m. mj_run_id m), so_json_text = (\<lambda>j. []),
       so_read_file = (\<lambda>p w. case fst w p of None \<Rightarrow> ReadFailed IoNotFound | Some t \<Rightarrow> ReadOk t),
       so_write_file = (\<lambda>p t w. (True, (fst w)(p \<mapsto> t), snd w)),
       so_rename = (\<lambda>a b w. if fst w a = None then (False, w) else (True, (fst w)(a := None, b := fst w a), snd w)),
       so_read_dir = (\<lambda>p w. Some []), so_is_dir = (\<lambda>p w. True),
       so_now = (\<lambda>w. (''2026-01-01T00:00:00Z'', w)), so_ulid = (\<lambda>w. (''01RN'', w)),
       so_ensure_kernel = (\<lambda>w. (Inr ''/vmlinux'', w)), so_resolve_rootfs = (\<lambda>i w. (Inr ''/rootfs'', w)),
       so_probe_firewall = (\<lambda>w. (Inr None, w)), so_new_encoder = (\<lambda>r p x w. (True, w)),
       so_emit = (\<lambda>t j w. (True, w)), so_copy_history = (\<lambda>a p d w. (True, w)),
       so_supervisor = (\<lambda>s r p w. (Inr (), w)), so_sandbox = (\<lambda>k f b s r p d w. (Inr (), w)) \<rparr>"

definition sess_view :: "sess_world \<Rightarrow> string \<Rightarrow> git_repo" where
  "sess_view w = sim_view (snd w)"

definition sess_files :: "sess_world \<Rightarrow> string \<Rightarrow> string option" where
  "sess_files w = fst w"

lemma sim_session_ops [simp]:
  "sys_git (so_sys (sim_session anc)) = sess_git anc"
  "sys_create_dir (so_sys (sim_session anc)) p w = (True, w)"
  "sys_remove_dir (so_sys (sim_session anc)) p w = (True, (\<lambda>q. if prefix p q then None else fst w q), snd w)"
  "ho_spawn_git (so_host (sim_session anc)) = lift_git (sim_spawn anc)"
  by (simp_all add: sim_session_def so_sys_def)

lemma sess_git_cases:
  assumes "sess_git anc cwd args w = (g, w')"
  obtains "w' = w"
  | "sim_git anc cwd args (snd w) = (g, snd w')" "fst w' = fst w" "3 \<le> length args"
      "cwd \<noteq> None \<or> hd args = ''ls-remote''"
  using assms by (auto simp: sess_git_def lift_git_def split: if_splits prod.splits)

lemma sess_git_sim:
  "sess_git anc cwd args w = (g, w') \<Longrightarrow> 3 \<le> length args \<Longrightarrow> cwd \<noteq> None \<or> hd args = ''ls-remote'' \<Longrightarrow>
     sim_git anc cwd args (snd w) = (g, snd w')"
  by (auto simp: sess_git_def lift_git_def split: if_splits prod.splits)

interpretation sessgit: git_store "so_sys (sim_session anc)" sess_view anc
  apply (unfold_locales, unfold sess_view_def sim_session_ops)
  subgoal by (rule simgit.tip_obj)
  subgoal by (drule sess_git_sim) (simp_all add: simgit.rev_parse_view [unfolded sim_ops_git])
  subgoal by (drule sess_git_sim) (simp_all add: simgit.rev_parse_out [unfolded sim_ops_git])
  subgoal by (drule sess_git_sim) (simp_all add: simgit.ls_remote_view [unfolded sim_ops_git])
  subgoal by (drule sess_git_sim) (simp_all add: simgit.ls_remote_out [unfolded sim_ops_git])
  subgoal by (drule sess_git_sim) (simp_all add: simgit.show_ref_view [unfolded sim_ops_git])
  subgoal by (drule sess_git_sim) (simp, simp, erule simgit.show_ref_status [unfolded sim_ops_git])
  subgoal by (drule sess_git_sim) (simp_all add: simgit.merge_base_view [unfolded sim_ops_git])
  subgoal by (drule sess_git_sim) (simp, simp, erule (2) simgit.merge_base_status [unfolded sim_ops_git])
  subgoal by (drule sess_git_sim) (simp, simp, erule simgit.update_ref_frame [unfolded sim_ops_git])
  subgoal by (drule sess_git_sim) (simp, simp, erule simgit.update_ref_done [unfolded sim_ops_git])
  subgoal by (drule sess_git_sim) (simp, simp, erule (2) simgit.fetch_frame [unfolded sim_ops_git])
  subgoal by (drule sess_git_sim) (simp, simp, erule (2) simgit.fetch_done [unfolded sim_ops_git])
  subgoal by (drule sess_git_sim) (simp, simp, erule (2) simgit.push_frame [unfolded sim_ops_git])
  subgoal by (drule sess_git_sim) (simp, simp, erule (2) simgit.push_done [unfolded sim_ops_git])
  done

lemma sim_git_reads:
  "git_reads args \<Longrightarrow> snd (sim_git anc cwd args w) = w"
  by (cases args) (auto simp: git_reads_def sim_git_def Let_def)

lemma sim_git_apart:
  assumes "apart cwd args q" "3 \<le> length args" "cwd \<noteq> None \<or> hd args = ''ls-remote''"
  shows "sim_view (snd (sim_git anc cwd args w)) q = sim_view w q"
proof -
  have ne: "q \<noteq> d" if "cwd = Some d" for d using assms(1) that by (auto simp: apart_def)
  have "args ! 2 \<in> set args" using assms(2) by (intro nth_mem) simp
  then have a2: "q \<noteq> args ! 2" using assms(1) by (auto simp: apart_def)
  have mv: "sim_view (snd (sim_move anc a b sp w)) q = sim_view w q" if "q \<noteq> b" for a b sp
    using sim_move_frame(1) [OF _ that] by (metis prod.collapse)
  show ?thesis
  proof (cases cwd)
    case None
    then have "args ! 0 = ''ls-remote''" using assms(2,3) by (cases args) auto
    then show ?thesis using None by (simp add: sim_git_def Let_def)
  next
    case (Some d)
    then show ?thesis using ne [OF Some] a2
      by (auto simp: sim_git_def Let_def mv sim_view_upd_other)
  qed
qed

lemma keeps_sess_git:
  assumes "\<And>w. 3 \<le> length args \<Longrightarrow> cwd \<noteq> None \<or> hd args = ''ls-remote'' \<Longrightarrow>
      f (fst w, snd (sim_git anc cwd args (snd w))) = f w"
  shows "keeps f (sess_git anc cwd args)"
proof (rule keepsI)
  fix w x w'
  assume "sess_git anc cwd args w = (x, w')"
  then show "f w' = f w"
  proof (cases rule: sess_git_cases)
    case 2
    then have "w' = (fst w, snd (sim_git anc cwd args (snd w)))" by (cases w') simp
    then show ?thesis using assms [OF 2(3,4)] by simp
  qed simp
qed

lemma keeps_lift_spawn:
  "keeps (\<lambda>w. sess_files w p) (lift_git (sim_spawn anc) c)"
  "q \<noteq> sp_cwd c \<Longrightarrow> keeps (\<lambda>w. sess_view w q) (lift_git (sim_spawn anc) c)"
  by (rule keepsI,
    auto simp: lift_git_def sim_spawn_def sess_files_def sess_view_def sim_move_frame(1) split: prod.splits if_splits)+

lemma keeps_same: "(\<And>w. snd (m w) = w) \<Longrightarrow> keeps f m"
  by (rule keepsI) (metis snd_conv)

interpretation sess: session_store "sim_session anc" sess_view anc sess_files "''/s''" "''01AB''" "''/host''"
proof (unfold_locales, unfold sim_session_ops(1,4))
  show "prefix ''/'' ''/s''" "\<not> suffix ''/'' ''/s''" "''01AB'' \<noteq> []" "CHR ''/'' \<notin> set ''01AB''"
    "\<not> prefix ''/host'' (meta_file (join_path ''/s'' ''01AB''))" "\<not> prefix ''/s'' ''/host''" "prefix ''/'' ''/host''"
    by (simp_all add: suffix_def meta_file_def join_path_def)
  show "so_meta_parse (sim_session anc) t = Some m" if "so_meta_text (sim_session anc) m = Some t" for m t
    using that by (auto simp: sim_session_def dec_enc_fields fields_meta_fields)
  show "sess_files w p = Some t" if "so_read_file (sim_session anc) p w = ReadOk t" for p w t
    using that by (auto simp: sim_session_def sess_files_def split: option.splits)
  show "sess_view w' = sess_view w \<and> (\<forall>q. q \<noteq> p \<longrightarrow> sess_files w' q = sess_files w q)"
    if "so_write_file (sim_session anc) p t w = (ok, w')" for p t w ok w'
    using that by (auto simp: sim_session_def sess_files_def sess_view_def)
  show "sess_files w' p = Some t" if "so_write_file (sim_session anc) p t w = (True, w')" for p t w w'
    using that by (auto simp: sim_session_def sess_files_def)
  show "sess_view w' = sess_view w \<and> sess_files w' b = sess_files w a \<and>
      (\<forall>q. q \<noteq> a \<longrightarrow> q \<noteq> b \<longrightarrow> sess_files w' q = sess_files w q)"
    if "so_rename (sim_session anc) a b w = (True, w')" for a b w w'
    using that by (auto simp: sim_session_def sess_files_def sess_view_def split: if_splits)
  show "sess_view w' = sess_view w \<and> sess_files w' = sess_files w"
    if "so_rename (sim_session anc) a b w = (False, w')" for a b w w'
    using that by (auto simp: sim_session_def split: if_splits)
  show "keeps (\<lambda>w. (sess_files w p, sess_view w q)) (sess_git anc cwd args)" if "git_reads args" for args p q cwd
    by (rule keeps_sess_git) (simp add: sess_files_def sess_view_def sim_git_reads [OF that])
  show "keeps (\<lambda>w. sess_files w p) (sess_git anc cwd args)" for cwd args p
    by (rule keeps_sess_git) (simp add: sess_files_def)
  show "keeps (\<lambda>w. sess_view w q) (sess_git anc cwd args)" if "apart cwd args q" for cwd args q
    by (rule keeps_sess_git) (simp add: sess_view_def sim_git_apart [OF that])
  show "keeps (\<lambda>w. sess_files w p) (lift_git (sim_spawn anc) c)" for c p
    by (rule keeps_lift_spawn)
  show "keeps (\<lambda>w. sess_view w q) (lift_git (sim_spawn anc) c)" if "\<not> prefix (sp_cwd c) q" for c q
    using that by (intro keeps_lift_spawn) auto
  show "keeps (\<lambda>w. sess_files w p) (sys_create_dir (so_sys (sim_session anc)) d)" for d p
    by (intro keepsI) simp
  show "keeps (\<lambda>w. sess_view w q) (sys_create_dir (so_sys (sim_session anc)) d)" for d q
    by (intro keepsI) simp
  show "keeps (\<lambda>w. sess_files w p) (sys_remove_dir (so_sys (sim_session anc)) d)" if "\<not> prefix d p" for d p
    using that by (intro keepsI) (auto simp: sess_files_def)
  show "keeps (\<lambda>w. sess_view w q) (sys_remove_dir (so_sys (sim_session anc)) d)" for d q
    by (intro keepsI) (auto simp: sess_view_def)
  show "u \<noteq> [] \<and> CHR ''/'' \<notin> set u" if "so_ulid (sim_session anc) w = (u, w')" for w u w'
    using that by (auto simp: sim_session_def)
qed (rule keeps_same, simp add: sim_session_def)+

section \<open>Properties\<close>

definition run_cmds :: "'w session_ops \<Rightarrow> string \<Rightarrow> string \<Rightarrow> session_cmd list \<Rightarrow> 'w \<Rightarrow> 'w" where
  "run_cmds K root sid cs w = foldl (\<lambda>w c. exec_cmd K root sid c w) w cs"

lemma run_cmds_life:
  assumes "session_store K view anc files root sid host"
  shows "stored K files (join_path root sid) w = Some m \<Longrightarrow> sm_host_repo m = host \<Longrightarrow> list_all cmd_ok cs \<Longrightarrow>
    \<exists>m'. stored K files (join_path root sid) (run_cmds K root sid cs w) = Some m' \<and>
      life m (refs (view w host)) m' (refs (view (run_cmds K root sid cs w) host))"
proof (induction cs arbitrary: w m)
  case Nil
  then show ?case using life_refl by (auto simp: run_cmds_def)
next
  case (Cons c cs)
  let ?w1 = "exec_cmd K root sid c w"
  have "cmd_ok c" "list_all cmd_ok cs" using Cons.prems(3) by simp_all
  then obtain m1 where m1: "stored K files (join_path root sid) ?w1 = Some m1"
      "life m (refs (view w host)) m1 (refs (view ?w1 host))"
    using session_store.exec_life [OF assms Cons.prems(1,2)] by blast
  have "sm_host_repo m1 = host" using m1(2) Cons.prems(2) by (simp add: life_def)
  from Cons.IH [OF m1(1) this \<open>list_all cmd_ok cs\<close>] show ?case
    using life_trans [OF m1(2)] by (auto simp: run_cmds_def)
qed


definition meta0 :: session_meta where
  "meta0 = \<lparr> sm_id = ''01AB'', sm_state = Open, sm_host_repo = ''/host'', sm_mirror_refs = [''main''],
     sm_labels = [], sm_created_at = ''t'', sm_discarded_at = None, sm_last_close_failure = None \<rparr>"

definition world0 :: sess_world where
  "world0 = ([meta_file (join_path ''/s'' ''01AB'') \<mapsto> enc_fields (meta_fields meta0)],
     \<lambda>r. if r = ''/host'' then \<lparr> refs = [''refs/heads/main'' \<mapsto> ''a1''], objs = {} \<rparr>
          else \<lparr> refs = [''refs/heads/work'' \<mapsto> ''b2''], objs = {} \<rparr>)"

lemma stored_world0: "stored (sim_session anc) sess_files (join_path ''/s'' ''01AB'') world0 = Some meta0"
  by (simp add: stored_def sess_files_def world0_def sim_session_def dec_enc_fields fields_meta_fields)


text \<open>C10: what \<open>close\<close> reports is what it did. On success the Session is stored as closed and
  every entry outside \<open>runs/\<close> is on the host; on an error of the Pool it is stored as
  failed-to-close with the reason and the host's refs are as before; a Session that is neither
  open nor failed-to-close is refused and nothing changes; and whenever the host's refs have
  changed, the stored state is closing or closed.\<close>

theorem close_reports_what_it_did:
  assumes "session_store K view anc files root sid host"
    and "s_path s = join_path root sid" and "sm_host_repo (s_meta s) = host"
    and "\<forall>e \<in> set (kept_entries m). plain_entry e"
    and "plain_repo (view w (pool_path s))" and "plain_repo (view w host)"
    and "close K m s w = (r, s', w')"
  shows "(r = Inr () \<longrightarrow> sm_state (s_meta s') = Closed \<and> stored K files (s_path s) w' = Some (s_meta s') \<and>
      (\<forall>e \<in> set m. \<not> prefix ''runs/'' (me_pool_ref e) \<longrightarrow>
        refs (view w' host) (''refs/heads/'' @ me_host_ref e) = refs (view w (pool_path s)) (''refs/heads/'' @ me_pool_ref e)))
    \<and> (\<forall>e. r = Inl (SePool e) \<longrightarrow> sm_state (s_meta s') = FailedToClose \<and>
        sm_last_close_failure (s_meta s') = Some (show_pool_error K e) \<and>
        stored K files (s_path s) w' = Some (s_meta s') \<and> refs (view w' host) = refs (view w host))
    \<and> (sm_state (s_meta s) \<notin> {Open, FailedToClose} \<longrightarrow> (\<exists>t. r = Inl (SeTransition t)) \<and> s' = s \<and> w' = w)
    \<and> (refs (view w' host) \<noteq> refs (view w host) \<longrightarrow>
        (\<exists>m'. stored K files (s_path s) w' = Some m' \<and> sm_state m' \<in> {Closing, Closed}))"
proof (cases rule: session_store.close_cases [OF assms(1,7,2,3,4)])
  case 1
  then show ?thesis by auto
next
  case 2
  then show ?thesis by auto
next
  case (3 x w1 w2)
  then show ?thesis using assms(2) by (auto simp: set_state_def)
next
  case (4 w1 w2)
  have git: "git_store (so_sys K) view anc" using assms(1) by (simp add: session_store_def)
  have pool: "pool_path s = join_path (join_path root sid) ''pool''" by (simp add: pool_path_def assms(2))
  have "\<forall>e \<in> set m. \<not> prefix ''runs/'' (me_pool_ref e) \<longrightarrow>
      refs (view w2 host) (''refs/heads/'' @ me_host_ref e) = refs (view w1 (pool_path s)) (''refs/heads/'' @ me_pool_ref e)"
    using git_store.push_manifest_spec [OF git 4(5) session_store.pool_apart(2) [OF assms(1)] assms(4)]
      assms(5,6) 4(4) pool by (auto simp: kept_entries_def RESERVED_RUNS_def)
  then show ?thesis using 4 assms(2) by (auto simp: set_state_def)
next
  case (5 e w1 w2)
  then show ?thesis using session_store.push_keeps(2) [OF assms(1) 5(5) assms(4)] assms(2)
    by (auto simp: set_state_def)
qed

theorem close_reports_what_it_did_witness:
  "\<exists>r s' w'. close (sim_session (\<lambda>a b. a = ''a1'' \<and> b = ''b2''))
      [\<lparr> me_pool_ref = ''work'', me_host_ref = ''main'', me_force = False \<rparr>]
      \<lparr> s_path = join_path ''/s'' ''01AB'', s_meta = meta0 \<rparr> world0 = (r, s', w')
    \<and> (r = Inr () \<longrightarrow> refs (sess_view w' ''/host'') ''refs/heads/main'' = Some ''b2'')"
proof -
  let ?K = "sim_session (\<lambda>a b. a = ''a1'' \<and> b = ''b2'')"
  let ?e = "\<lparr> me_pool_ref = ''work'', me_host_ref = ''main'', me_force = False \<rparr>"
  let ?s = "\<lparr> s_path = join_path ''/s'' ''01AB'', s_meta = meta0 \<rparr>"
  obtain r s' w' where c: "close ?K [?e] ?s world0 = (r, s', w')" by (metis prod.exhaust)
  have "plain_entry ?e" by code_simp
  then have pe: "\<forall>e \<in> set (kept_entries [?e]). plain_entry e" by (simp add: kept_entries_def)
  have "\<not> contains ''refs/heads/work'' ''/refs/heads/''" "\<not> contains ''refs/heads/main'' ''/refs/heads/''"
    "is_sha ''b2''" by code_simp+
  then have w: "plain_repo (sess_view world0 (pool_path ?s))" "plain_repo (sess_view world0 ''/host'')"
    "refs (sess_view world0 (pool_path ?s)) ''refs/heads/work'' = Some ''b2''"
    by (auto simp: plain_repo_def sim_view_def sess_view_def world0_def pool_path_def join_path_def suffix_def Let_def
        split: if_splits)
  have h: "sm_host_repo (s_meta ?s) = ''/host''" by (simp add: meta0_def)
  from close_reports_what_it_did [OF sess.session_store_axioms _ h pe w(1,2) c] c w(3)
  show ?thesis by fastforce
qed

lemma abind_step:
  "m w = (Inr a, w1) \<Longrightarrow> abind m g w = g a w1" "m w = (Inl e, w1) \<Longrightarrow> abind m g w = (Inl e, w1)"
  by (simp_all add: abind_def)

text \<open>A Run that is refused, because the Session is neither open nor failed-to-close, because
  the platform has no sandbox, or because the host's firewall would drop the guest's traffic,
  fails and writes nothing: what is left of it is at most a downloaded kernel or image.\<close>

theorem refused_run_writes_nothing:
  assumes "keeps f (so_ensure_kernel K)" and "\<forall>i. keeps f (so_resolve_rootfs K i)" and "keeps f (so_probe_firewall K)"
    and "sandboxed = (requests_sandbox backend \<or> rs_oci_image spec \<noteq> None)"
    and "sm_state (s_meta s) \<notin> {Open, FailedToClose} \<or> (sandboxed \<and> \<not> so_linux K) \<or>
      (sandboxed \<and> (\<forall>w. \<exists>msg. enforce_host_firewall_policy (rb_manage_firewall backend) (fst (so_probe_firewall K w)) = Inl msg))"
    and "run_with_backend K spec backend s w = (x, w')"
  shows "(\<exists>e. x = Inl e) \<and> f w' = f w"
proof -
  let ?gate = "if sandboxed then abind (apure (so_probe_firewall K)) (\<lambda>probe.
      case enforce_host_firewall_policy (rb_manage_firewall backend) probe of
        Inl message \<Rightarrow> afail (SeHostFirewallBlocked message) | Inr _ \<Rightarrow> aret ()) else aret ()"
  let ?res = "if sandboxed then abind (resolve_sandbox_inputs K backend spec) (\<lambda>i. aret (Some i)) else aret None"
  have res: "keeps f ?res"
    unfolding resolve_sandbox_inputs_def using assms(1,2) by (intro keeping) auto
  have gate: "keeps f ?gate" by (intro keeping assms(3))
  show ?thesis
  proof (cases "sandboxed \<and> \<not> so_linux K")
    case True
    then show ?thesis using assms(4,6) by (auto simp: run_with_backend_def Let_def)
  next
    case False
    obtain i w1 where i: "?res w = (i, w1)" by fastforce
    obtain g w2 where g: "?gate w1 = (g, w2)" by fastforce
    have f: "f w1 = f w" "f w2 = f w" using keepsD [OF res i] keepsD [OF gate g] by simp_all
    have run: "(x, w') = (case i of Inl e \<Rightarrow> (Inl e, w1) | Inr inputs \<Rightarrow>
        (case g of Inl e \<Rightarrow> (Inl e, w2) | Inr _ \<Rightarrow>
          (case accept_new_run (sm_state (s_meta s)) of
             Inl e \<Rightarrow> afail (SeTransition e) | Inr _ \<Rightarrow> run_prepared K spec backend inputs s) w2))"
      using assms(6) False i g unfolding run_with_backend_def Let_def assms(4) [symmetric]
      by (cases i; cases g) (simp_all add: abind_step)
    have "sm_state (s_meta s) \<notin> {Open, FailedToClose} \<or> (\<exists>e. g = Inl e)"
      using assms(5) False g by (auto simp: abind_def apure_def split: prod.splits sum.splits if_splits) (metis fst_conv sum.distinct(1))+
    then show ?thesis using run f by (auto simp: accept_new_run_def split: sum.splits)
  qed
qed

theorem refused_run_writes_nothing_witness:
  "\<exists>x w'. run_with_backend (sim_session (\<lambda>a b. a = b))
      \<lparr> rs_adapter = ''none'', rs_cmd = [], rs_env = [], rs_secrets = [], rs_strategy = StratNone,
        rs_output_branch = None, rs_stop_grace = 1, rs_wall_clock = 1, rs_memory_mb = 1, rs_vcpus = 1,
        rs_disk_mb = 1, rs_oci_image = None, rs_egress = [] \<rparr>
      \<lparr> rb_kernel = Some ''/k'', rb_rootfs = Some ''/r'', rb_firecracker_bin = None, rb_manage_firewall = False \<rparr>
      \<lparr> s_path = ''/s/01AB'', s_meta = meta0\<lparr> sm_state := Closed \<rparr> \<rparr> world0 = (x, w') \<and> (\<exists>e. x = Inl e) \<and> w' = world0"
proof -
  let ?K = "sim_session (\<lambda>a b. a = b)"
  have k: "keeps (\<lambda>w. w) (so_ensure_kernel ?K)" "\<forall>i. keeps (\<lambda>w. w) (so_resolve_rootfs ?K i)"
    "keeps (\<lambda>w. w) (so_probe_firewall ?K)"
    by (auto intro!: keepsI simp: sim_session_def)
  let ?spec = "\<lparr> rs_adapter = ''none'', rs_cmd = [], rs_env = [], rs_secrets = [], rs_strategy = StratNone,
        rs_output_branch = None, rs_stop_grace = 1, rs_wall_clock = 1, rs_memory_mb = 1, rs_vcpus = 1,
        rs_disk_mb = 1, rs_oci_image = None, rs_egress = [] \<rparr>"
  let ?b = "\<lparr> rb_kernel = Some ''/k'', rb_rootfs = Some ''/r'', rb_firecracker_bin = None, rb_manage_firewall = False \<rparr>"
  let ?s = "\<lparr> s_path = ''/s/01AB'', s_meta = meta0\<lparr> sm_state := Closed \<rparr> \<rparr>"
  obtain x w' where p: "run_with_backend ?K ?spec ?b ?s world0 = (x, w')" by (rule prod.exhaust)
  have "sm_state (s_meta ?s) \<notin> {Open, FailedToClose}" by simp
  then have "(\<exists>e. x = Inl e) \<and> w' = world0"
    by (intro refused_run_writes_nothing [OF k refl _ p] disjI1)
  then show ?thesis using p by blast
qed

lemma abind_InrE:
  assumes "abind m g w = (x, w')"
  obtains e where "m w = (Inl e, w')" "x = Inl e" | a w1 where "m w = (Inr a, w1)" "g a w1 = (x, w')"
  using assms by (auto simp: abind_def split: prod.splits sum.splits)

text \<open>What the Run reports of its output, over any git with the hardening whose reading commands
  leave the refs alone, as do the copy of the history and the encoder.\<close>

definition quiet_extraction :: "'w session_ops \<Rightarrow> ('w \<Rightarrow> string \<Rightarrow> git_repo) \<Rightarrow> string \<Rightarrow> bool" where
  "quiet_extraction K view ws \<longleftrightarrow>
     (\<forall>a p d. keeps view (so_copy_history K a p d)) \<and> (\<forall>t j. keeps view (so_emit K t j)) \<and>
     (\<forall>args. hd args = ''rev-parse'' \<or> hd args = ''status'' \<longrightarrow> keeps view (sys_git (so_sys K) (Some ws) args)) \<and>
     (\<forall>w out err w'. sys_git (so_sys K) (Some ws) [''rev-parse'', ''HEAD''] w = (GitOut True out err, w') \<longrightarrow>
        refs (view w (join_path ws ''.git'')) ''HEAD'' = Some (trim out))"

lemma quiet_extractionD:
  assumes "quiet_extraction K view ws"
  shows "keeps view (so_copy_history K a p d)" and "keeps view (emit_event K t j)"
    and "keeps view (ws_rev_parse K ws n)" and "keeps view (list_uncommitted K ws)"
    and "keeps view (resolve_base_sha_for_strategy K ws st)"
    and "ws_rev_parse K ws ''HEAD'' w = (Inr c, w') \<Longrightarrow> refs (view w (join_path ws ''.git'')) ''HEAD'' = Some c"
proof -
  show "keeps view (so_copy_history K a p d)" using assms by (simp add: quiet_extraction_def)
  show "keeps view (emit_event K t j)"
    using assms unfolding emit_event_def by (intro keeping) (simp add: quiet_extraction_def)
  have rd: "keeps view (sys_git (so_sys K) (Some ws) (''rev-parse'' # args))"
    "keeps view (sys_git (so_sys K) (Some ws) (''status'' # args))" for args
    using assms by (simp_all add: quiet_extraction_def)
  have sg: "keeps view (session_git K d args c)" if "keeps view (sys_git (so_sys K) (Some d) args)" for d args c
    using that by (intro keepsI) (auto simp: session_git_def split: prod.splits git_result.splits if_splits dest: keepsD)
  show rp: "keeps view (ws_rev_parse K ws n)" for n
    unfolding ws_rev_parse_def by (intro keeping sg rd)
  show "keeps view (list_uncommitted K ws)"
    unfolding list_uncommitted_def by (intro keeping sg rd)
  show "keeps view (resolve_base_sha_for_strategy K ws st)"
    unfolding resolve_base_sha_for_strategy_def by (cases st) (simp_all add: rp)
  show "refs (view w (join_path ws ''.git'')) ''HEAD'' = Some c" if "ws_rev_parse K ws ''HEAD'' w = (Inr c, w')"
    using that assms unfolding quiet_extraction_def
    by (auto simp: ws_rev_parse_def session_git_def abind_def split: prod.splits git_result.splits if_splits)
qed

lemma extract_commits_spec:
  assumes q: "quiet_extraction K view ws"
    and git: "hardened_git (so_sys K) view anc (ho_spawn_git (so_host K))"
    and ne: "join_path ws ''.git'' \<noteq> pool_path s"
    and pl: "plain_name (''refs/heads/runs/'' @ rid)" "\<forall>b. rs_output_branch spec = Some b \<longrightarrow> plain_name (''refs/heads/'' @ b)"
    and run: "extract_commits K s ws rid spec w = (x, w')"
  shows "(\<forall>n. n \<notin> output_refs rid (rs_output_branch spec) \<longrightarrow> refs (view w' (pool_path s)) n = refs (view w (pool_path s)) n)
    \<and> (\<forall>r. x = Inr r \<longrightarrow> (rr_pool_sha r = None \<longrightarrow> view w' = view w \<and> rr_output_branch_pushed r = None)
        \<and> (\<forall>c. rr_pool_sha r = Some c \<longrightarrow> rr_output_branch_pushed r = rs_output_branch spec
             \<and> target_free (refs (view w (pool_path s))) rid (rs_output_branch spec)
             \<and> refs (view w (join_path ws ''.git'')) ''HEAD'' = Some c
             \<and> (\<forall>n \<in> output_refs rid (rs_output_branch spec). refs (view w' (pool_path s)) n = Some c)))"
proof -
  note Q = quiet_extractionD [OF q]
  from run show ?thesis
    unfolding extract_commits_def
  proof (cases rule: abind_InrE)
    case (1 e)
    then show ?thesis using keepsD [OF Q(3) 1(1)] by simp
  next
    case (2 head w1)
    note v1 = keepsD [OF Q(3) 2(1)] and hd = Q(6) [OF 2(1)]
    from 2(2) show ?thesis
    proof (cases rule: abind_InrE)
      case (1 e)
      then show ?thesis by (auto simp: aor_def split: prod.splits sum.splits)
    next
      case (2 base w2)
      note v2 = keepsD [OF keeps_wrap(2) [OF Q(5)] 2(1)]
      from 2(2) show ?thesis
      proof (cases rule: abind_InrE)
        case (1 e)
        then show ?thesis by (auto simp: aor_def split: prod.splits sum.splits)
      next
        case (2 unc w3)
        note v3 = keepsD [OF keeps_wrap(2) [OF Q(4)] 2(1)]
        from 2(2) show ?thesis
        proof (cases rule: abind_InrE)
          case (1 e)
          then have "view w' = view w3" by (intro keepsD [OF keeps_if [OF Q(2) keeps_simple(1)]])
          then show ?thesis using v1 v2 v3 1 by simp
        next
          case (2 u w4)
          have "view w4 = view w3" by (rule keepsD [OF keeps_if [OF Q(2) keeps_simple(1)] 2(1)])
          then have v4: "view w4 = view w" using v1 v2 v3 by simp
          show ?thesis
          proof (cases "head = base")
            case True
            with 2(2) have e: "abind (emit_event K ''run_warning'' (warning [(''reason'', JStr ''no_commits''),
                (''detail'', JStr ''agent produced no commits; no Pool ref written'')])) (\<lambda>_.
              aret \<lparr> rr_run_id = rid, rr_pool_sha = None, rr_output_branch_pushed = None,
                 rr_uncommitted_paths = unc \<rparr>) w4 = (x, w')" by simp
            then have "view w' = view w" using v4 keepsD [OF keeps_bind [OF Q(2) keeps_simple(1)] e] by simp
            moreover have "x = Inr r \<Longrightarrow> rr_pool_sha r = None \<and> rr_output_branch_pushed r = None" for r
              using e by (cases rule: abind_InrE) auto
            ultimately show ?thesis by auto
          next
            case False
            obtain y w5 where f: "fetch_pool_from_git_dir (so_host K) (pool_path s) (join_path ws ''.git'') rid
                (rs_output_branch spec) (so_uid K) w4 = (y, w5)" by fastforce
            have x: "w' = w5" "x = Inr r \<Longrightarrow> y = Inr () \<and> rr_pool_sha r = Some head
                \<and> rr_output_branch_pushed r = rs_output_branch spec" for r
              using 2(2) False f by (auto simp: abind_def aerr_def split: sum.splits)
            note sp = hardened_git.fetch_pool_spec [OF git f _ refl ne pl]
            show ?thesis using sp x v4 hd v1 by (auto simp: so_sys_def)
          qed
        qed
      qed
    qed
  qed
qed


lemma sim_quiet_extraction: "quiet_extraction (sim_session anc) sess_view ws"
proof -
  have "keeps sess_view (sess_git anc (Some ws) args)" if "hd args = ''rev-parse'' \<or> hd args = ''status''" for args
  proof (rule keeps_sess_git)
    fix w :: sess_world
    assume "3 \<le> length args"
    then have "args ! 0 = hd args" by (cases args) simp_all
    then have "args ! 0 = ''rev-parse'' \<or> args ! 0 = ''status''" using that by simp
    then have "snd (sim_git anc (Some ws) args (snd w)) = snd w" by (auto simp: sim_git_def Let_def)
    then show "sess_view (fst w, snd (sim_git anc (Some ws) args (snd w))) = sess_view w" by (simp add: sess_view_def)
  qed
  moreover have "refs (sess_view w (join_path ws ''.git'')) ''HEAD'' = Some (trim out)"
    if "sess_git anc (Some ws) [''rev-parse'', ''HEAD''] w = (GitOut True out err, w')" for w out err w'
    using that sim_view_tip trim_sha_line by (auto simp: sess_git_def sess_view_def split: option.splits)
  moreover have "keeps sess_view (so_copy_history (sim_session anc) a p d)" "keeps sess_view (so_emit (sim_session anc) t j)" for a p d t j
    by (auto intro!: keepsI simp: sim_session_def)
  ultimately show ?thesis by (simp add: quiet_extraction_def)
qed

lemma lift_spawn_sim: "lift_git (sim_spawn anc) c w = (g, w') \<Longrightarrow> sim_spawn anc c (snd w) = (g, snd w')"
  by (auto simp: lift_git_def split: prod.splits)

interpretation sesshard: hardened_git "so_sys (sim_session anc)" sess_view anc "ho_spawn_git (so_host (sim_session anc))"
  apply (unfold_locales, unfold sess_view_def sim_session_ops(4))
  subgoal by (drule lift_spawn_sim) (erule (2) simhard.spawn_frame)
  subgoal by (drule lift_spawn_sim) (erule (2) simhard.spawn_done)
  done


end
