(* ===== verification/TargetUser.thy ===== *)
theory TargetUser
  imports Session
begin

text \<open>
  \<open>bunsen-core/src/target_user.rs\<close> and \<open>bunsen_paths.rs\<close>: which account a command acts
  for, the environment of that account, and the drop of the privileges. The passwd database is
  the parameter \<open>system_context\<close>, the system calls on the process's ids are the parameter
  \<open>proc_ops\<close>, whose documented behaviour is the locale \<open>posix_ids\<close>; the environment
  is a map. The texts of the errors are left out.
\<close>

record passwd_entry =
  pw_uid :: u32
  pw_gid :: u32
  pw_name :: string
  pw_home :: string

record resolution_inputs =
  ri_as_user :: "string option"
  ri_euid :: u32
  ri_ruid :: u32
  ri_sudo_uid :: "u32 option"
  ri_sudo_gid :: "u32 option"
  ri_sudo_user :: "string option"

record resolved_user =
  ru_uid :: u32
  ru_gid :: u32
  ru_name :: string
  ru_home :: string
  ru_groups :: "u32 list"

datatype resolution_outcome = Drop resolved_user | NoDrop

datatype resolution_error =
    RootWithoutContext
  | DropToRoot string
  | HomeMissing string
  | UserNotFound string

record system_context =
  lookup_user_by_uid :: "u32 \<Rightarrow> passwd_entry option"
  lookup_user_by_name :: "string \<Rightarrow> passwd_entry option"
  get_supplementary_groups :: "string \<Rightarrow> u32 \<Rightarrow> u32 list"
  home_exists :: "string \<Rightarrow> bool"

text \<open>\<open>RealSystemContext\<close> over the passwd database, the group list and the file system, where a failed
  lookup is no entry.\<close>

definition real_system_context ::
  "(u32 \<Rightarrow> passwd_entry option) \<Rightarrow> (string \<Rightarrow> passwd_entry option) \<Rightarrow> (string \<Rightarrow> u32 \<Rightarrow> u32 list option)
     \<Rightarrow> (string \<Rightarrow> bool) \<Rightarrow> system_context" where
  "real_system_context getpwuid getpwnam getgrouplist is_dir =
     \<lparr> lookup_user_by_uid = getpwuid, lookup_user_by_name = getpwnam,
       get_supplementary_groups = (\<lambda>name primary_gid.
         if CHR 0x00 \<in> set name then [primary_gid] else unwrap_or [primary_gid] (getgrouplist name primary_gid)),
       home_exists = is_dir \<rparr>"

section \<open>Resolution\<close>

definition parse_u32 :: "string \<Rightarrow> u32 option" where
  "parse_u32 s = map_option word_of_nat (parse_uint (2 ^ 32) s)"

definition ok_or :: "'e \<Rightarrow> 'a option \<Rightarrow> 'e + 'a" where
  "ok_or e x = (case x of None \<Rightarrow> Inl e | Some a \<Rightarrow> Inr a)"

definition finalize ::
  "system_context \<Rightarrow> passwd_entry \<Rightarrow> u32 option \<Rightarrow> resolution_error + resolution_outcome" where
  "finalize ctx entry override_gid =
     (if pw_uid entry = 0 then Inl (DropToRoot (pw_name entry))
      else if \<not> home_exists ctx (pw_home entry) then Inl (HomeMissing (pw_home entry))
      else let gid = unwrap_or (pw_gid entry) override_gid in
        Inr (Drop \<lparr> ru_uid = pw_uid entry, ru_gid = gid, ru_name = pw_name entry, ru_home = pw_home entry,
                    ru_groups = get_supplementary_groups ctx (pw_name entry) gid \<rparr>))"

definition resolve_user :: "system_context \<Rightarrow> resolution_inputs \<Rightarrow> resolution_error + resolution_outcome" where
  "resolve_user ctx inputs =
     (if ri_euid inputs \<noteq> 0 then Inr NoDrop
      else case ri_as_user inputs of
        Some as_user \<Rightarrow>
          rbind (ok_or (UserNotFound as_user)
            (case parse_u32 as_user of
               Some uid \<Rightarrow> lookup_user_by_uid ctx uid
             | None \<Rightarrow> lookup_user_by_name ctx as_user)) (\<lambda>entry.
          finalize ctx entry None)
      | None \<Rightarrow>
          (case ri_sudo_uid inputs of
             Some sudo_uid \<Rightarrow>
               rbind (ok_or (UserNotFound (unwrap_or (show_nat (unat sudo_uid)) (ri_sudo_user inputs)))
                 (case ri_sudo_user inputs of
                    Some sudo_user \<Rightarrow> lookup_user_by_name ctx sudo_user
                  | None \<Rightarrow> lookup_user_by_uid ctx sudo_uid)) (\<lambda>entry.
               finalize ctx entry (ri_sudo_gid inputs))
           | None \<Rightarrow>
               if ri_ruid inputs \<noteq> 0
               then rbind (ok_or (UserNotFound (show_nat (unat (ri_ruid inputs))))
                      (lookup_user_by_uid ctx (ri_ruid inputs))) (\<lambda>entry.
                    finalize ctx entry None)
               else Inl RootWithoutContext))"

section \<open>Environment and paths\<close>

type_synonym environment = "string \<Rightarrow> string option"

definition apply_env_fixup :: "resolved_user \<Rightarrow> environment \<Rightarrow> environment" where
  "apply_env_fixup user env =
     env(''HOME'' \<mapsto> ru_home user, ''USER'' \<mapsto> ru_name user, ''LOGNAME'' \<mapsto> ru_name user,
         ''XDG_DATA_HOME'' \<mapsto> join_path (join_path (ru_home user) ''.local'') ''share'',
         ''XDG_CACHE_HOME'' \<mapsto> join_path (ru_home user) ''.cache'',
         ''XDG_RUNTIME_DIR'' \<mapsto> ''/run/user/'' @ show_nat (unat (ru_uid user)))"

definition data_home :: "environment \<Rightarrow> string" where
  "data_home env =
     (case env ''XDG_DATA_HOME'' of
        Some v \<Rightarrow> v
      | None \<Rightarrow> join_path (join_path (unwrap_or ''/tmp'' (env ''HOME'')) ''.local'') ''share'')"

definition cache_home :: "environment \<Rightarrow> string" where
  "cache_home env =
     (case env ''XDG_CACHE_HOME'' of
        Some v \<Rightarrow> v
      | None \<Rightarrow> join_path (unwrap_or ''/tmp'' (env ''HOME'')) ''.cache'')"

definition sessions_root :: "environment \<Rightarrow> string" where
  "sessions_root env = join_path (join_path (data_home env) ''bunsen'') ''sessions''"

definition kernel_cache :: "environment \<Rightarrow> string" where
  "kernel_cache env = join_path (join_path (cache_home env) ''bunsen'') ''kernel''"

definition rootfs_cache :: "environment \<Rightarrow> string" where
  "rootfs_cache env = join_path (join_path (cache_home env) ''bunsen'') ''rootfs''"

definition inputs_from_process :: "string option \<Rightarrow> environment \<Rightarrow> u32 \<Rightarrow> u32 \<Rightarrow> resolution_inputs" where
  "inputs_from_process as_user env euid ruid =
     \<lparr> ri_as_user = as_user, ri_euid = euid, ri_ruid = ruid,
       ri_sudo_uid = Option.bind (env ''SUDO_UID'') parse_u32,
       ri_sudo_gid = Option.bind (env ''SUDO_GID'') parse_u32,
       ri_sudo_user = env ''SUDO_USER'' \<rparr>"

section \<open>The drop\<close>

record 'w proc_ops =
  pr_geteuid :: "'w \<Rightarrow> u32"
  pr_getuid :: "'w \<Rightarrow> u32"
  pr_initgroups :: "string \<Rightarrow> u32 \<Rightarrow> 'w \<Rightarrow> bool \<times> 'w"
  pr_setresgid :: "u32 \<Rightarrow> u32 \<Rightarrow> u32 \<Rightarrow> 'w \<Rightarrow> bool \<times> 'w"
  pr_setresuid :: "u32 \<Rightarrow> u32 \<Rightarrow> u32 \<Rightarrow> 'w \<Rightarrow> bool \<times> 'w"

datatype drop_error =
    DeResolve resolution_error
  | DeUsername
  | DeInitgroups
  | DeSetresgid
  | DeSetresuid

definition proc_call :: "drop_error \<Rightarrow> ('w \<Rightarrow> bool \<times> 'w) \<Rightarrow> ('w, drop_error, unit) act" where
  "proc_call e call w = (case call w of (True, w') \<Rightarrow> (Inr (), w') | (False, w') \<Rightarrow> (Inl e, w'))"

definition drop_privileges :: "'w proc_ops \<Rightarrow> resolved_user \<Rightarrow> ('w, drop_error, unit) act" where
  "drop_privileges P user =
     (if CHR 0x00 \<in> set (ru_name user) then afail DeUsername
      else abind (proc_call DeInitgroups (pr_initgroups P (ru_name user) (ru_gid user))) (\<lambda>_.
           abind (proc_call DeSetresgid (pr_setresgid P (ru_gid user) (ru_gid user) (ru_gid user))) (\<lambda>_.
           abind (proc_call DeSetresuid (pr_setresuid P (ru_uid user) (ru_uid user) (ru_uid user))) (\<lambda>_.
           aret ()))))"

definition resolve_and_drop ::
  "bool \<Rightarrow> 'w proc_ops \<Rightarrow> system_context \<Rightarrow> string option \<Rightarrow> environment \<Rightarrow> 'w
     \<Rightarrow> (drop_error + resolution_outcome) \<times> environment \<times> 'w" where
  "resolve_and_drop linux P ctx as_user env w =
     (case resolve_user ctx (inputs_from_process as_user env (pr_geteuid P w) (pr_getuid P w)) of
        Inl e \<Rightarrow> (Inl (DeResolve e), env, w)
      | Inr NoDrop \<Rightarrow> (Inr NoDrop, env, w)
      | Inr (Drop user) \<Rightarrow>
          (let env' = apply_env_fixup user env in
           if \<not> linux then (Inr (Drop user), env', w)
           else (case drop_privileges P user w of
               (Inl e, w') \<Rightarrow> (Inl e, env', w')
             | (Inr _, w') \<Rightarrow> (Inr (Drop user), env', w'))))"

section \<open>The ids of a process\<close>

record creds =
  c_ruid :: u32
  c_euid :: u32
  c_suid :: u32
  c_rgid :: u32
  c_egid :: u32
  c_sgid :: u32
  c_groups :: "u32 set"

locale posix_ids =
  fixes P :: "'w proc_ops" and ids :: "'w \<Rightarrow> creds" and groups_of :: "string \<Rightarrow> u32 \<Rightarrow> u32 set"
  assumes geteuid: "pr_geteuid P w = c_euid (ids w)"
    and getuid: "pr_getuid P w = c_ruid (ids w)"
    and initgroups_done: "pr_initgroups P n g w = (True, w') \<Longrightarrow> ids w' = (ids w)\<lparr> c_groups := groups_of n g \<rparr>"
    and initgroups_failed: "pr_initgroups P n g w = (False, w') \<Longrightarrow> ids w' = ids w"
    and setresgid_done: "pr_setresgid P r e s w = (True, w') \<Longrightarrow>
        ids w' = (ids w)\<lparr> c_rgid := r, c_egid := e, c_sgid := s \<rparr>"
    and setresgid_failed: "pr_setresgid P r e s w = (False, w') \<Longrightarrow> ids w' = ids w"
    and setresuid_done: "pr_setresuid P r e s w = (True, w') \<Longrightarrow>
        ids w' = (ids w)\<lparr> c_ruid := r, c_euid := e, c_suid := s \<rparr>"
    and setresuid_failed: "pr_setresuid P r e s w = (False, w') \<Longrightarrow> ids w' = ids w"

text \<open>Every call that a process with effective uid 0 makes succeeds.\<close>

definition root_may :: "'w proc_ops \<Rightarrow> ('w \<Rightarrow> creds) \<Rightarrow> bool" where
  "root_may P ids \<longleftrightarrow> (\<forall>w. c_euid (ids w) = 0 \<longrightarrow>
     (\<forall>n g. fst (pr_initgroups P n g w)) \<and> (\<forall>r e s. fst (pr_setresgid P r e s w)) \<and>
     (\<forall>r e s. fst (pr_setresuid P r e s w)))"

definition user_creds :: "(string \<Rightarrow> u32 \<Rightarrow> u32 set) \<Rightarrow> resolved_user \<Rightarrow> creds" where
  "user_creds groups_of u =
     \<lparr> c_ruid = ru_uid u, c_euid = ru_uid u, c_suid = ru_uid u,
       c_rgid = ru_gid u, c_egid = ru_gid u, c_sgid = ru_gid u, c_groups = groups_of (ru_name u) (ru_gid u) \<rparr>"

lemma proc_call_cases:
  assumes "proc_call e c w = (x, w')"
  obtains "x = Inr ()" "c w = (True, w')" | "x = Inl e" "c w = (False, w')"
  using assms by (auto simp: proc_call_def split: prod.splits bool.splits)

context posix_ids
begin

lemma drop_privileges_spec:
  assumes "drop_privileges P u w = (x, w')"
  shows "x = Inr () \<Longrightarrow> ids w' = user_creds groups_of u"
    and "c_euid (ids w) = 0 \<Longrightarrow> root_may P ids \<Longrightarrow> CHR 0x00 \<notin> set (ru_name u) \<Longrightarrow> x = Inr ()"
proof -
  obtain x1 w1 where 1: "proc_call DeInitgroups (pr_initgroups P (ru_name u) (ru_gid u)) w = (x1, w1)" by fastforce
  obtain x2 w2 where 2: "proc_call DeSetresgid (pr_setresgid P (ru_gid u) (ru_gid u) (ru_gid u)) w1 = (x2, w2)" by fastforce
  obtain x3 w3 where 3: "proc_call DeSetresuid (pr_setresuid P (ru_uid u) (ru_uid u) (ru_uid u)) w2 = (x3, w3)" by fastforce
  have run: "(x, w') = (if CHR 0x00 \<in> set (ru_name u) then (Inl DeUsername, w) else
      case x1 of Inl e \<Rightarrow> (Inl e, w1) | Inr _ \<Rightarrow>
        (case x2 of Inl e \<Rightarrow> (Inl e, w2) | Inr _ \<Rightarrow> (case x3 of Inl e \<Rightarrow> (Inl e, w3) | Inr _ \<Rightarrow> (Inr (), w3))))"
    using assms 1 2 3 by (auto simp: drop_privileges_def abind_def split: sum.splits)
  have i1: "x1 = Inr () \<Longrightarrow> ids w1 = (ids w)\<lparr> c_groups := groups_of (ru_name u) (ru_gid u) \<rparr>"
    using 1 by (cases rule: proc_call_cases) (auto dest: initgroups_done)
  have i2: "x2 = Inr () \<Longrightarrow> ids w2 = (ids w1)\<lparr> c_rgid := ru_gid u, c_egid := ru_gid u, c_sgid := ru_gid u \<rparr>"
    using 2 by (cases rule: proc_call_cases) (auto dest: setresgid_done)
  have i3: "x3 = Inr () \<Longrightarrow> ids w3 = (ids w2)\<lparr> c_ruid := ru_uid u, c_euid := ru_uid u, c_suid := ru_uid u \<rparr>"
    using 3 by (cases rule: proc_call_cases) (auto dest: setresuid_done)
  show "ids w' = user_creds groups_of u" if "x = Inr ()"
    using that run i1 i2 i3 by (auto simp: user_creds_def split: sum.splits if_splits)
  show "x = Inr ()" if root: "c_euid (ids w) = 0" "root_may P ids" "CHR 0x00 \<notin> set (ru_name u)"
  proof -
    have may: "fst (pr_initgroups P n g v)" "fst (pr_setresgid P r e s v)" "fst (pr_setresuid P r e s v)"
      if "c_euid (ids v) = 0" for n g r e s v
      using root(2) that by (simp_all add: root_may_def)
    have x1: "x1 = Inr ()" using 1 may(1) [OF root(1)] by (cases rule: proc_call_cases) (auto, metis fst_conv)
    then have e1: "c_euid (ids w1) = 0" using i1 root(1) by simp
    have x2: "x2 = Inr ()" using 2 may(2) [OF e1] by (cases rule: proc_call_cases) (auto, metis fst_conv)
    then have e2: "c_euid (ids w2) = 0" using i2 e1 by simp
    have x3: "x3 = Inr ()" using 3 may(3) [OF e2] by (cases rule: proc_call_cases) (auto, metis fst_conv)
    show ?thesis using run x1 x2 x3 root(3) by simp
  qed
qed

end

section \<open>A small kernel\<close>

definition proc_ids :: "creds proc_ops" where
  "proc_ids =
     \<lparr> pr_geteuid = c_euid, pr_getuid = c_ruid,
       pr_initgroups = (\<lambda>n g c. if c_euid c = 0 then (True, c\<lparr> c_groups := {g} \<rparr>) else (False, c)),
       pr_setresgid = (\<lambda>r e s c.
         if c_euid c = 0 \<or> {r, e, s} \<subseteq> {c_rgid c, c_egid c, c_sgid c}
         then (True, c\<lparr> c_rgid := r, c_egid := e, c_sgid := s \<rparr>) else (False, c)),
       pr_setresuid = (\<lambda>r e s c.
         if c_euid c = 0 \<or> {r, e, s} \<subseteq> {c_ruid c, c_euid c, c_suid c}
         then (True, c\<lparr> c_ruid := r, c_euid := e, c_suid := s \<rparr>) else (False, c)) \<rparr>"

interpretation kernel_ids: posix_ids proc_ids "\<lambda>c. c" "\<lambda>n g. {g}"
  by unfold_locales (auto simp: proc_ids_def split: if_splits)

section \<open>Properties\<close>

lemma resolve_user_Drop:
  assumes "resolve_user ctx inputs = Inr (Drop u)"
  shows "ri_euid inputs = 0 \<and> ru_uid u \<noteq> 0 \<and> home_exists ctx (ru_home u)"
proof -
  have "ru_uid u \<noteq> 0 \<and> home_exists ctx (ru_home u)" if "finalize ctx e g = Inr (Drop u)" for e g
    using that by (auto simp: finalize_def Let_def split: if_splits)
  then show ?thesis using assms
    by (auto simp: resolve_user_def rbind_Inr_iff split: if_splits option.splits)
qed

lemma finalize_not_NoDrop: "finalize ctx e g \<noteq> Inr NoDrop"
  by (simp add: finalize_def Let_def)

lemma resolve_user_NoDrop: "resolve_user ctx inputs = Inr NoDrop \<longleftrightarrow> ri_euid inputs \<noteq> 0"
  by (simp add: resolve_user_def rbind_Inr_iff finalize_not_NoDrop split: option.split)

text \<open>C20: a command that goes on after \<open>resolve_and_drop\<close> is never root: either it was not
  root before and nothing has changed, or all its uids are those of a user other than root whose
  home exists, all its gids and its groups are that user's, and its Sessions are below that home;
  and as long as root's own calls succeed, only the resolution and a username with a zero byte
  can make it fail.\<close>

theorem no_command_runs_as_root:
  assumes "posix_ids P ids groups_of" and "resolve_and_drop True P ctx as_user env w = (x, env', w')"
  shows "(x = Inr NoDrop \<longrightarrow> c_euid (ids w) \<noteq> 0 \<and> env' = env \<and> w' = w)
    \<and> (\<forall>u. x = Inr (Drop u) \<longrightarrow> ru_uid u \<noteq> 0 \<and> home_exists ctx (ru_home u) \<and> ids w' = user_creds groups_of u
        \<and> sessions_root env' =
            join_path (join_path (join_path (join_path (ru_home u) ''.local'') ''share'') ''bunsen'') ''sessions'')
    \<and> (root_may P ids \<longrightarrow> (\<forall>e. x = Inl e \<longrightarrow> e = DeUsername \<or> (\<exists>r. e = DeResolve r)))"
proof -
  let ?in = "inputs_from_process as_user env (pr_geteuid P w) (pr_getuid P w)"
  have eu: "ri_euid ?in = c_euid (ids w)"
    using posix_ids.geteuid [OF assms(1)] by (simp add: inputs_from_process_def)
  show ?thesis
  proof (cases "resolve_user ctx ?in")
    case (Inl e)
    then show ?thesis using assms(2) by (auto simp: resolve_and_drop_def)
  next
    case (Inr oc)
    show ?thesis
    proof (cases oc)
      case NoDrop
      then show ?thesis using assms(2) Inr resolve_user_NoDrop [of ctx ?in] eu by (auto simp: resolve_and_drop_def)
    next
      case (Drop u)
      note r = resolve_user_Drop [OF Inr [unfolded Drop]]
      obtain y w1 where d: "drop_privileges P u w = (y, w1)" by fastforce
      note sp = posix_ids.drop_privileges_spec [OF assms(1) d]
      have run: "w' = w1" "env' = apply_env_fixup u env" "x = (case y of Inl e \<Rightarrow> Inl e | Inr _ \<Rightarrow> Inr (Drop u))"
        using assms(2) Inr Drop d by (auto simp: resolve_and_drop_def Let_def split: sum.splits)
      have root: "sessions_root env' =
          join_path (join_path (join_path (join_path (ru_home u) ''.local'') ''share'') ''bunsen'') ''sessions''"
        unfolding run(2) by (simp add: sessions_root_def data_home_def apply_env_fixup_def)
      have nul: "y = Inl DeUsername" if "CHR 0x00 \<in> set (ru_name u)"
        using d that by (simp add: drop_privileges_def)
      show ?thesis
        using sp run(1,3) root r eu nul by (cases y; cases "CHR 0x00 \<in> set (ru_name u)") auto
    qed
  qed
qed

theorem no_command_runs_as_root_witness:
  "\<exists>x env' c. resolve_and_drop True proc_ids
      \<lparr> lookup_user_by_uid = (\<lambda>u. None),
        lookup_user_by_name = [''ann'' \<mapsto> \<lparr> pw_uid = 1000, pw_gid = 100, pw_name = ''ann'', pw_home = ''/home/ann'' \<rparr>],
        get_supplementary_groups = (\<lambda>n g. [g]), home_exists = (\<lambda>p. p = ''/home/ann'') \<rparr>
      (Some ''ann'') Map.empty
      \<lparr> c_ruid = 0, c_euid = 0, c_suid = 0, c_rgid = 0, c_egid = 0, c_sgid = 0, c_groups = {0} \<rparr> = (x, env', c)
    \<and> (x = Inr NoDrop \<longrightarrow> False)"
proof -
  let ?ctx = "\<lparr> lookup_user_by_uid = (\<lambda>u. None),
        lookup_user_by_name = [''ann'' \<mapsto> \<lparr> pw_uid = 1000, pw_gid = 100, pw_name = ''ann'', pw_home = ''/home/ann'' \<rparr>],
        get_supplementary_groups = (\<lambda>n g. [g]), home_exists = (\<lambda>p. p = ''/home/ann'') \<rparr>"
  let ?c = "\<lparr> c_ruid = 0, c_euid = 0, c_suid = 0, c_rgid = 0, c_egid = 0, c_sgid = 0, c_groups = {0} \<rparr>"
  obtain x env' c where p: "resolve_and_drop True proc_ids ?ctx (Some ''ann'') Map.empty ?c = (x, env', c)"
    by (metis prod.exhaust)
  show ?thesis using no_command_runs_as_root [OF kernel_ids.posix_ids_axioms p] p by auto
qed

text \<open>A \<open>SUDO_GID\<close> of zero is taken over: the command then keeps root's group.\<close>

lemma sudo_gid_zero_is_kept:
  "\<exists>u. resolve_user
      \<lparr> lookup_user_by_uid = (\<lambda>u. None),
        lookup_user_by_name = (\<lambda>n. Some \<lparr> pw_uid = 1000, pw_gid = 100, pw_name = n, pw_home = ''/home/ann'' \<rparr>),
        get_supplementary_groups = (\<lambda>n g. [g]), home_exists = (\<lambda>p. True) \<rparr>
      \<lparr> ri_as_user = None, ri_euid = 0, ri_ruid = 0, ri_sudo_uid = Some 1000, ri_sudo_gid = Some 0,
        ri_sudo_user = Some ''ann'' \<rparr> = Inr (Drop u) \<and> ru_uid u = 1000 \<and> ru_gid u = 0"
  by (simp add: resolve_user_def ok_or_def finalize_def rbind_def Let_def unwrap_or_def)

end
