(* ===== verification/SessionCli.thy ===== *)
theory SessionCli
  imports SessionLife TargetUser
begin

text \<open>
  \<open>bunsen-core/src/session_cli.rs\<close> and the Session branch of \<open>run_main\<close> in
  \<open>main.rs\<close>: the commands of the Session's command line. A command's outcome is its exit
  code, the JSON it prints on stdout and the message on stderr, here as a value in place of its
  text. The argument parser (clap) is not modelled.
\<close>

datatype cli_message =
    NotFoundMsg string
  | FailedMsg string session_error
  | DropMsg drop_error

record cli_out =
  exit_code :: int
  stdout_json :: "json option"
  stderr_msg :: "cli_message option"

definition cli_ok :: "json \<Rightarrow> cli_out" where
  "cli_ok j = \<lparr> exit_code = 0, stdout_json = Some j, stderr_msg = None \<rparr>"

definition cli_fail :: "cli_message \<Rightarrow> cli_out" where
  "cli_fail m = \<lparr> exit_code = 1, stdout_json = None, stderr_msg = Some m \<rparr>"

section \<open>Arguments\<close>

text \<open>\<open>splitn(3, ':')\<close>: at most three pieces, the last one unsplit.\<close>

fun splitn :: "nat \<Rightarrow> char \<Rightarrow> string \<Rightarrow> string list" where
  "splitn 0 c s = []"
| "splitn (Suc 0) c s = [s]"
| "splitn (Suc (Suc n)) c s = (case split_once c s of None \<Rightarrow> [s] | Some (a, b) \<Rightarrow> a # splitn (Suc n) c b)"

definition parse_pair :: "string \<Rightarrow> string + manifest_entry" where
  "parse_pair s =
     (let parts = splitn 3 (CHR '':'') s in
      if length parts < 2 then Inl ''expected pool:host[:force]''
      else if parts ! 0 = [] \<or> parts ! 1 = [] then Inl ''pool and host refs must be non-empty''
      else if length parts = 3 \<and> parts ! 2 \<noteq> ''force''
      then Inl (''third component must be the literal '' @ [CHR 0x27] @ ''force'' @ [CHR 0x27])
      else Inr \<lparr> me_pool_ref = parts ! 0, me_host_ref = parts ! 1, me_force = (length parts = 3) \<rparr>)"

fun state_str :: "session_state \<Rightarrow> string" where
  "state_str Open = ''open''"
| "state_str Closing = ''closing''"
| "state_str Closed = ''closed''"
| "state_str FailedToClose = ''failed_to_close''"
| "state_str Discarded = ''discarded''"

definition summary_json :: "session \<Rightarrow> json" where
  "summary_json s = JObj (jmap_of
     [(''id'', JStr (sm_id (s_meta s))),
      (''state'', JStr (state_str (sm_state (s_meta s)))),
      (''host_repo'', JStr (sm_host_repo (s_meta s))),
      (''mirror_refs'', jstrs (sm_mirror_refs (s_meta s))),
      (''labels'', jstrs (sm_labels (s_meta s))),
      (''path'', JStr (s_path s)),
      (''last_close_failure'', jopt_str (sm_last_close_failure (s_meta s)))])"

definition list_item_json :: "session_summary \<Rightarrow> json" where
  "list_item_json s = JObj (jmap_of
     [(''id'', JStr (su_id s)), (''state'', JStr (state_str (su_state s))), (''host_repo'', JStr (su_host_repo s)),
      (''labels'', jstrs (su_labels s)), (''created_at'', JStr (su_created_at s))])"

definition id_state_json :: "string \<Rightarrow> string \<Rightarrow> json" where
  "id_state_json sid st = JObj (jmap_of [(''id'', JStr sid), (''state'', JStr st)])"

section \<open>Commands\<close>

definition cmd_open ::
  "'w session_ops \<Rightarrow> string \<Rightarrow> string \<Rightarrow> string list \<Rightarrow> string option \<Rightarrow> 'w \<Rightarrow> cli_out \<times> 'w" where
  "cmd_open K root host_repo mirror lbl w =
     (case open_in K root host_repo mirror lbl w of
        (Inr s, w') \<Rightarrow> (cli_ok (JObj (jmap_of [(''id'', JStr (sm_id (s_meta s))), (''path'', JStr (s_path s))])), w')
      | (Inl e, w') \<Rightarrow> (cli_fail (FailedMsg ''open'' e), w'))"

definition attach_failed :: "string \<Rightarrow> session_error \<Rightarrow> cli_out" where
  "attach_failed verb e =
     (case e of SeNotFound sid \<Rightarrow> cli_fail (NotFoundMsg sid) | _ \<Rightarrow> cli_fail (FailedMsg verb e))"

definition cmd_attach :: "'w session_ops \<Rightarrow> string \<Rightarrow> string \<Rightarrow> 'w \<Rightarrow> cli_out \<times> 'w" where
  "cmd_attach K root sid w =
     (case attach_in K root sid w of
        (Inr s, w') \<Rightarrow> (cli_ok (summary_json s), w')
      | (Inl e, w') \<Rightarrow> (attach_failed ''attach'' e, w'))"

definition cmd_show :: "'w session_ops \<Rightarrow> string \<Rightarrow> string \<Rightarrow> 'w \<Rightarrow> cli_out \<times> 'w" where
  "cmd_show K root sid w =
     (case attach_in K root sid w of
        (Inr s, w') \<Rightarrow> (cli_ok (summary_json s), w')
      | (Inl e, w') \<Rightarrow> (attach_failed ''show'' e, w'))"

definition cmd_list :: "'w session_ops \<Rightarrow> string \<Rightarrow> bool \<Rightarrow> bool \<Rightarrow> 'w \<Rightarrow> cli_out \<times> 'w" where
  "cmd_list K root all_flag with_tombstones w =
     (case list_in K root \<lparr> include_closed = all_flag, include_tombstones = with_tombstones \<rparr> w of
        (Inr items, w') \<Rightarrow> (cli_ok (JArr (map list_item_json items)), w')
      | (Inl e, w') \<Rightarrow> (cli_fail (FailedMsg ''list'' e), w'))"

definition cmd_close ::
  "'w session_ops \<Rightarrow> string \<Rightarrow> string \<Rightarrow> manifest_entry list \<Rightarrow> 'w \<Rightarrow> cli_out \<times> 'w" where
  "cmd_close K root sid pairs w =
     (case attach_in K root sid w of
        (Inl e, w1) \<Rightarrow> (attach_failed ''close'' e, w1)
      | (Inr s, w1) \<Rightarrow>
          (case close K pairs s w1 of
             (Inr _, s', w') \<Rightarrow> (cli_ok (id_state_json (sm_id (s_meta s')) ''closed''), w')
           | (Inl e, s', w') \<Rightarrow> (cli_fail (FailedMsg ''close'' e), w')))"

definition cmd_discard :: "'w session_ops \<Rightarrow> string \<Rightarrow> string \<Rightarrow> 'w \<Rightarrow> cli_out \<times> 'w" where
  "cmd_discard K root sid w =
     (case attach_in K root sid w of
        (Inl e, w1) \<Rightarrow> (attach_failed ''discard'' e, w1)
      | (Inr s, w1) \<Rightarrow>
          (case discard K s w1 of
             (Inr _, w') \<Rightarrow> (cli_ok (id_state_json sid ''discarded''), w')
           | (Inl e, w') \<Rightarrow> (cli_fail (FailedMsg ''discard'' e), w')))"

definition cmd_label :: "'w session_ops \<Rightarrow> string \<Rightarrow> string \<Rightarrow> string \<Rightarrow> 'w \<Rightarrow> cli_out \<times> 'w" where
  "cmd_label K root sid lbl w =
     (case attach_in K root sid w of
        (Inl e, w1) \<Rightarrow> (attach_failed ''label'' e, w1)
      | (Inr s, w1) \<Rightarrow>
          (case label_session K lbl s w1 of
             (Inr _, s', w') \<Rightarrow> (cli_ok (JObj (jmap_of
                [(''id'', JStr (sm_id (s_meta s'))), (''labels'', jstrs (sm_labels (s_meta s')))])), w')
           | (Inl e, s', w') \<Rightarrow> (cli_fail (FailedMsg ''label'' e), w')))"

definition cmd_purge :: "'w session_ops \<Rightarrow> string \<Rightarrow> string \<Rightarrow> 'w \<Rightarrow> cli_out \<times> 'w" where
  "cmd_purge K root sid w =
     (case attach_in K root sid w of
        (Inl e, w1) \<Rightarrow> (attach_failed ''purge'' e, w1)
      | (Inr s, w1) \<Rightarrow>
          (case purge K s w1 of
             (Inr _, w') \<Rightarrow> (cli_ok (id_state_json sid ''purged''), w')
           | (Inl e, w') \<Rightarrow> (cli_fail (FailedMsg ''purge'' e), w')))"

text \<open>\<open>run\<close>: the drop of the privileges first, then the verb, below the Sessions' directory
  of the environment that the drop leaves.\<close>

datatype cli_cmd =
    CliOpen string "string list" "string option"
  | CliAttach string
  | CliList bool bool
  | CliShow string
  | CliClose string "manifest_entry list"
  | CliDiscard string
  | CliLabel string string
  | CliPurge string

definition cli_dispatch :: "'w session_ops \<Rightarrow> string \<Rightarrow> cli_cmd \<Rightarrow> 'w \<Rightarrow> cli_out \<times> 'w" where
  "cli_dispatch K root c w =
     (case c of
        CliOpen host_repo mirror lbl \<Rightarrow> cmd_open K root host_repo mirror lbl w
      | CliAttach sid \<Rightarrow> cmd_attach K root sid w
      | CliList a t \<Rightarrow> cmd_list K root a t w
      | CliShow sid \<Rightarrow> cmd_show K root sid w
      | CliClose sid pairs \<Rightarrow> cmd_close K root sid pairs w
      | CliDiscard sid \<Rightarrow> cmd_discard K root sid w
      | CliLabel sid lbl \<Rightarrow> cmd_label K root sid lbl w
      | CliPurge sid \<Rightarrow> cmd_purge K root sid w)"

definition cli_run ::
  "'w session_ops \<Rightarrow> 'w proc_ops \<Rightarrow> system_context \<Rightarrow> environment \<Rightarrow> string option \<Rightarrow> cli_cmd \<Rightarrow> 'w
     \<Rightarrow> cli_out \<times> 'w" where
  "cli_run K P ctx env as_user c w =
     (case resolve_and_drop (so_linux K) P ctx as_user env w of
        (Inl e, env', w') \<Rightarrow> (cli_fail (DropMsg e), w')
      | (Inr _, env', w') \<Rightarrow> cli_dispatch K (sessions_root env') c w')"

text \<open>The Run of a Session from \<open>main.rs\<close>: the environment is that of the account, but
  the privileges stay.\<close>

definition run_result_json :: "run_result \<Rightarrow> json" where
  "run_result_json r = JObj (jmap_of
     [(''run_id'', JStr (rr_run_id r)), (''pool_sha'', jopt_str (rr_pool_sha r)),
      (''output_branch_pushed'', jopt_str (rr_output_branch_pushed r)),
      (''uncommitted_paths'', jstrs (rr_uncommitted_paths r))])"

datatype run_main_message = BadSpec run_spec_error | BadUser resolution_error | BadAttach session_error | BadRun session_error

text \<open>What both kinds of Run begin with: the specification, and the environment of the target user.\<close>

definition run_main_inputs ::
  "'w proc_ops \<Rightarrow> system_context \<Rightarrow> environment \<Rightarrow> spec_parser \<Rightarrow> string option \<Rightarrow> string \<Rightarrow> 'w
     \<Rightarrow> run_main_message + run_spec \<times> environment" where
  "run_main_inputs P ctx env parse as_user spec_json w =
     (case from_json parse spec_json of
        Inl e \<Rightarrow> Inl (BadSpec e)
      | Inr spec \<Rightarrow>
          (case resolve_user ctx (inputs_from_process as_user env (pr_geteuid P w) (pr_getuid P w)) of
             Inl e \<Rightarrow> Inl (BadUser e)
           | Inr oc \<Rightarrow> Inr (spec, case oc of Drop user \<Rightarrow> apply_env_fixup user env | NoDrop \<Rightarrow> env)))"

definition run_main_session ::
  "'w session_ops \<Rightarrow> run_spec \<Rightarrow> environment \<Rightarrow> run_backend \<Rightarrow> string \<Rightarrow> ('w, run_main_message, json) act" where
  "run_main_session K spec env backend sid =
     abind (aerr BadAttach (attach_in K (sessions_root env) sid)) (\<lambda>s.
     abind (aerr BadRun (run_with_backend K spec backend s)) (\<lambda>r. aret (run_result_json r)))"

section \<open>Properties\<close>

definition show_pair :: "manifest_entry \<Rightarrow> string" where
  "show_pair e = me_pool_ref e @ '':'' @ me_host_ref e @ (if me_force e then '':force'' else [])"

lemma split_once_None: "split_once c s = None \<longleftrightarrow> c \<notin> set s"
  by (auto simp: split_once_def dest: set_takeWhileD split: if_splits)

lemma splitn_3:
  "splitn 3 c s = (case split_once c s of None \<Rightarrow> [s]
     | Some (a, r) \<Rightarrow> (case split_once c r of None \<Rightarrow> [a, r] | Some (b, t) \<Rightarrow> [a, b, t]))"
  by (simp add: eval_nat_numeral split: option.split)

text \<open>The pairs of \<open>close\<close> are read exactly: an argument is accepted if and only if it
  is the text of an entry with nonempty refs without a colon, and the entry read is that one. So
  an entry is forced only when the third component says so.\<close>

theorem pairs_are_read_exactly:
  "parse_pair s = Inr e \<longleftrightarrow> s = show_pair e \<and> me_pool_ref e \<noteq> [] \<and> me_host_ref e \<noteq> []
     \<and> CHR '':'' \<notin> set (me_pool_ref e) \<and> CHR '':'' \<notin> set (me_host_ref e)"
proof
  assume p: "parse_pair s = Inr e"
  show "s = show_pair e \<and> me_pool_ref e \<noteq> [] \<and> me_host_ref e \<noteq> []
     \<and> CHR '':'' \<notin> set (me_pool_ref e) \<and> CHR '':'' \<notin> set (me_host_ref e)"
    using p split_once_Some [of "CHR '':''"] split_once_None [of "CHR '':''"]
    unfolding parse_pair_def Let_def splitn_3
    by (cases "split_once (CHR '':'') s") (force simp: show_pair_def split: option.splits if_splits prod.splits)+
next
  assume e: "s = show_pair e \<and> me_pool_ref e \<noteq> [] \<and> me_host_ref e \<noteq> []
     \<and> CHR '':'' \<notin> set (me_pool_ref e) \<and> CHR '':'' \<notin> set (me_host_ref e)"
  then have "split_once (CHR '':'') s = Some (me_pool_ref e, me_host_ref e @ (if me_force e then '':force'' else []))"
    by (simp add: show_pair_def split_once_append)
  moreover have "split_once (CHR '':'') (me_host_ref e @ '':'' @ ''force'') = Some (me_host_ref e, ''force'')"
    "split_once (CHR '':'') (me_host_ref e) = None"
    using e split_once_append [of "CHR '':''" "me_host_ref e" "''force''"] by (simp_all add: split_once_None)
  ultimately show "parse_pair s = Inr e"
    using e unfolding parse_pair_def Let_def splitn_3 by (cases "me_force e") simp_all
qed

lemma discard_done:
  assumes "session_store K view anc files root sid host" and "discard K s w = (Inr (), w')"
  shows "\<exists>m'. stored K files (s_path s) w' = Some m' \<and> sm_state m' = Discarded"
proof -
  obtain now w1 where "write_meta_atomic K (s_path s) ((s_meta s)\<lparr> sm_state := Discarded, sm_discarded_at := Some now \<rparr>) w1 = (Inr (), w')"
    using assms(2)
    by (auto simp: discard_def discard_state_def abind_def aerr_def apure_def split: sum.splits prod.splits if_splits)
  from session_store.write_meta_spec [OF assms(1) this] show ?thesis by auto
qed

lemma attach_failed_code: "exit_code (attach_failed verb e) = 1"
  by (simp add: attach_failed_def cli_fail_def split: session_error.split)

text \<open>A command that exits with code zero has told the truth about the stored Session:
  \<open>close\<close>, \<open>discard\<close> and \<open>label\<close> leave on disk the state and the labels that they
  print, \<open>attach\<close> and \<open>show\<close> print what is stored and change nothing.\<close>

theorem cli_reports_the_stored_state:
  assumes "session_store K view anc files root sid host"
    and "stored K files (join_path root sid) w = Some m" and "sm_host_repo m = host"
    and "cli_dispatch K root c w = (out, w')" and "exit_code out = 0"
  shows "(\<forall>ps. c = CliClose sid ps \<and> (\<forall>e \<in> set (kept_entries ps). plain_entry e) \<longrightarrow>
        (\<exists>m'. stored K files (join_path root sid) w' = Some m' \<and>
           stdout_json out = Some (id_state_json (sm_id m) (state_str (sm_state m')))))
    \<and> (c = CliDiscard sid \<longrightarrow>
        (\<exists>m'. stored K files (join_path root sid) w' = Some m' \<and>
           stdout_json out = Some (id_state_json sid (state_str (sm_state m')))))
    \<and> (\<forall>l. c = CliLabel sid l \<longrightarrow>
        stored K files (join_path root sid) w' = Some (m\<lparr> sm_labels := sm_labels m @ [l] \<rparr>) \<and>
        stdout_json out = Some (JObj (jmap_of [(''id'', JStr (sm_id m)), (''labels'', jstrs (sm_labels m @ [l]))])))
    \<and> (c \<in> {CliAttach sid, CliShow sid} \<longrightarrow> w' = w \<and>
        stdout_json out = Some (summary_json \<lparr> s_path = join_path root sid, s_meta = m \<rparr>))"
proof -
  let ?P = "join_path root sid"
  obtain x w1 where a: "attach_in K root sid w = (x, w1)" by fastforce
  note w1 = session_store.attach_spec(1) [OF assms(1) a]
  have at: "s = \<lparr> s_path = ?P, s_meta = m \<rparr>" if "x = Inr s" for s
    using session_store.attach_spec(2) [OF assms(1) a that] assms(2) by (cases s) auto
  have nz: "exit_code (cli_fail msg) \<noteq> 0" for msg by (simp add: cli_fail_def)
  show ?thesis
  proof (intro conjI allI impI)
    fix ps
    assume c: "c = CliClose sid ps \<and> (\<forall>e \<in> set (kept_entries ps). plain_entry e)"
    obtain s where s: "x = Inr s"
      using assms(4,5) a c attach_failed_code by (cases x) (auto simp: cli_dispatch_def cmd_close_def)
    obtain r s' w2 where r: "close K ps s w = (r, s', w2)" by (metis prod.exhaust)
    have r0: "r = Inr ()" "w' = w2" "stdout_json out = Some (id_state_json (sm_id (s_meta s')) ''closed'')"
      using assms(4,5) a c s r w1 nz by (auto simp: cli_dispatch_def cmd_close_def cli_ok_def split: sum.splits)
    have sp: "s_path s = ?P" "sm_host_repo (s_meta s) = host" using at [OF s] assms(3) by simp_all
    show "\<exists>m'. stored K files ?P w' = Some m' \<and> stdout_json out = Some (id_state_json (sm_id m) (state_str (sm_state m')))"
      using session_store.close_cases [OF assms(1) r sp c [THEN conjunct2]] r0 at [OF s]
      by cases (auto simp: set_state_def)
  next
    assume c: "c = CliDiscard sid"
    obtain s where s: "x = Inr s"
      using assms(4,5) a c attach_failed_code by (cases x) (auto simp: cli_dispatch_def cmd_discard_def)
    obtain r w2 where r: "discard K s w = (r, w2)" by fastforce
    have r0: "r = Inr ()" "w' = w2" "stdout_json out = Some (id_state_json sid ''discarded'')"
      using assms(4,5) a c s r w1 nz by (auto simp: cli_dispatch_def cmd_discard_def cli_ok_def split: sum.splits)
    show "\<exists>m'. stored K files ?P w' = Some m' \<and> stdout_json out = Some (id_state_json sid (state_str (sm_state m')))"
      using discard_done [OF assms(1) r [unfolded r0(1)]] r0 at [OF s] by auto
  next
    fix l
    assume c: "c = CliLabel sid l"
    obtain s where s: "x = Inr s"
      using assms(4,5) a c attach_failed_code by (cases x) (auto simp: cli_dispatch_def cmd_label_def)
    let ?m' = "m\<lparr> sm_labels := sm_labels m @ [l] \<rparr>"
    obtain r w2 where r: "write_meta_atomic K ?P ?m' w = (r, w2)" by fastforce
    have r0: "r = Inr () \<and> w' = w2 \<and>
        stdout_json out = Some (JObj (jmap_of [(''id'', JStr (sm_id m)), (''labels'', jstrs (sm_labels m @ [l]))]))"
      using assms(4,5) a c s r w1 nz at [OF s]
      by (auto simp: cli_dispatch_def cmd_label_def cli_ok_def label_session_def split: sum.splits)
    then show "stored K files ?P w' = Some ?m'"
      and "stdout_json out = Some (JObj (jmap_of [(''id'', JStr (sm_id m)), (''labels'', jstrs (sm_labels m @ [l]))]))"
      using session_store.write_meta_spec [OF assms(1) r] by auto
  next
    assume c: "c \<in> {CliAttach sid, CliShow sid}"
    obtain s where s: "x = Inr s"
      using assms(4,5) a c attach_failed_code by (cases x) (auto simp: cli_dispatch_def cmd_attach_def cmd_show_def)
    then show "w' = w" and "stdout_json out = Some (summary_json \<lparr> s_path = ?P, s_meta = m \<rparr>)"
      using assms(4) a c w1 at [OF s] by (auto simp: cli_dispatch_def cmd_attach_def cmd_show_def cli_ok_def)
  qed
qed

theorem cli_reports_the_stored_state_witness:
  "\<exists>out w'. cli_dispatch (sim_session (\<lambda>a b. a = b)) ''/s'' (CliShow ''01AB'') world0 = (out, w') \<and>
     (exit_code out = 0 \<longrightarrow> w' = world0 \<and>
        stdout_json out = Some (summary_json \<lparr> s_path = join_path ''/s'' ''01AB'', s_meta = meta0 \<rparr>))"
proof -
  obtain out w' where c: "cli_dispatch (sim_session (\<lambda>a b. a = b)) ''/s'' (CliShow ''01AB'') world0 = (out, w')"
    by (rule prod.exhaust)
  have "sm_host_repo meta0 = ''/host''" by (simp add: meta0_def)
  from cli_reports_the_stored_state [OF sess.session_store_axioms stored_world0 this c] show ?thesis
    using c by blast
qed

end
