(* ===== verification/SandboxNft.thy ===== *)
theory SandboxNft
  imports SandboxNet Egress
begin

text \<open>
  \<open>bunsen-core/src/sandbox_nft.rs\<close>: the nftables ruleset of a Run, the name of its table,
  and the reader that turns the kernel's log of dropped packets into denial events. The lines of
  the log are the argument of the reader, and whether the receiver still takes an event is a
  parameter.
\<close>

definition table_char :: "char \<Rightarrow> char" where
  "table_char c = (if is_alnum c \<or> c = CHR ''-'' \<or> c = CHR ''_'' then c else CHR ''_'')"

text \<open>The slice of the first bytes of the Run id panics, here \<open>None\<close>, inside a character.\<close>

definition derive_table_name :: "string \<Rightarrow> string option" where
  "derive_table_name run_id =
     (let suffix_len = min (length (str_bytes run_id)) 16
      in map_option (\<lambda>(pre, _). ''bunsen-'' @ map table_char pre) (split_at_byte suffix_len run_id))"

definition drop_log_prefix :: "string \<Rightarrow> string" where
  "drop_log_prefix table_name = ''bunsen-egress-drop['' @ table_name @ '']: ''"

definition quoted :: "string \<Rightarrow> string" where
  "quoted s = [CHR 0x22] @ s @ [CHR 0x22]"

definition build_ruleset :: "string \<Rightarrow> string \<Rightarrow> ipv4 \<Rightarrow> u16 \<Rightarrow> u16 option \<Rightarrow> string" where
  "build_ruleset table_name tap proxy_host proxy_port dns_port =
     (let dns_rule = (case dns_port of
          Some p \<Rightarrow> ''        ip daddr '' @ show_ipv4 proxy_host @ '' udp dport '' @ show_nat (unat p) @ '' accept'' @ [LF]
        | None \<Rightarrow> [])
      in ''table inet '' @ table_name @ '' {'' @ [LF]
         @ ''    chain input {'' @ [LF]
         @ ''        type filter hook input priority filter; policy accept;'' @ [LF]
         @ ''        iifname '' @ quoted tap @ '' jump from-guest'' @ [LF]
         @ ''    }'' @ [LF]
         @ ''    chain forward {'' @ [LF]
         @ ''        type filter hook forward priority filter; policy accept;'' @ [LF]
         @ ''        iifname '' @ quoted tap @ '' jump from-guest'' @ [LF]
         @ ''    }'' @ [LF]
         @ ''    chain from-guest {'' @ [LF]
         @ ''        ip daddr '' @ show_ipv4 proxy_host @ '' tcp dport '' @ show_nat (unat proxy_port) @ '' accept'' @ [LF]
         @ dns_rule
         @ ''        log prefix '' @ quoted (drop_log_prefix table_name) @ '' level info'' @ [LF]
         @ ''        counter drop'' @ [LF]
         @ ''    }'' @ [LF]
         @ ''}'' @ [LF])"

record drop_event =
  dr_table :: string
  dr_destination :: string
  dr_protocol :: protocol
  dr_l4_proto :: string

definition MARKER :: string where "MARKER = ''bunsen-egress-drop[''"

fun drop_field ::
  "string option \<times> string option \<times> string option \<Rightarrow> string
     \<Rightarrow> string option \<times> string option \<times> string option" where
  "drop_field (dst, dpt, l4) tok =
     (case strip_prefix ''DST='' tok of
        Some v \<Rightarrow> (Some v, dpt, l4)
      | None \<Rightarrow>
          (case strip_prefix ''DPT='' tok of
             Some v \<Rightarrow> (dst, Some v, l4)
           | None \<Rightarrow>
               (case strip_prefix ''PROTO='' tok of
                  Some v \<Rightarrow> (dst, dpt, Some v)
                | None \<Rightarrow> (dst, dpt, l4))))"

definition drop_event_of :: "string \<Rightarrow> string option \<times> string option \<times> string option \<Rightarrow> drop_event option" where
  "drop_event_of table fs =
     (case fs of (dst, dpt, l4) \<Rightarrow>
        (case dst of
           None \<Rightarrow> None
         | Some d \<Rightarrow>
             if d = [] then None
             else Some \<lparr> dr_table = table,
               dr_destination = (case dpt of Some p \<Rightarrow> if p \<noteq> [] then d @ '':'' @ p else d | None \<Rightarrow> d),
               dr_protocol = RawTcp,
               dr_l4_proto = unwrap_or ''UNKNOWN'' l4 \<rparr>))"

definition parse_drop_log_line :: "string \<Rightarrow> drop_event option" where
  "parse_drop_log_line line =
     (case find_sub MARKER line of
        None \<Rightarrow> None
      | Some start \<Rightarrow>
          (case split_once (CHR '']'') (drop (start + length MARKER) line) of
             None \<Rightarrow> None
           | Some (table, rest) \<Rightarrow>
               if table = [] then None
               else let rest = (case strip_prefix '':'' rest of Some r \<Rightarrow> r | None \<Rightarrow> rest);
                        rest = trim_start rest
                    in drop_event_of table (foldl drop_field (None, None, None) (split_ascii_whitespace rest))))"

definition drop_event_reason :: "drop_event \<Rightarrow> string" where
  "drop_event_reason ev = ''L3 drop (proto='' @ dr_l4_proto ev @ '')''"

text \<open>The pump: a line of the log or a read error at a time; the events sent, and whether it
  ended without an error.\<close>

datatype log_read = LogLine string | LogErr

definition drop_denial :: "drop_event \<Rightarrow> denial_event" where
  "drop_denial ev = \<lparr> den_destination = dr_destination ev, den_protocol = dr_protocol ev,
     den_reason = drop_event_reason ev \<rparr>"

fun pump_drop_log_lines ::
  "string \<Rightarrow> (nat \<Rightarrow> bool) \<Rightarrow> log_read list \<Rightarrow> denial_event list \<Rightarrow> denial_event list \<times> bool" where
  "pump_drop_log_lines own_table receiver_open [] sent = (sent, True)"
| "pump_drop_log_lines own_table receiver_open (LogErr # reads) sent = (sent, False)"
| "pump_drop_log_lines own_table receiver_open (LogLine line # reads) sent =
     (case parse_drop_log_line line of
        None \<Rightarrow> pump_drop_log_lines own_table receiver_open reads sent
      | Some ev \<Rightarrow>
          if dr_table ev \<noteq> own_table then pump_drop_log_lines own_table receiver_open reads sent
          else if \<not> receiver_open (length sent) then (sent, True)
          else pump_drop_log_lines own_table receiver_open reads (sent @ [drop_denial ev]))"

section \<open>Reading back what the kernel writes\<close>

text \<open>The value of a key in the words of a line: the last one counts.\<close>

definition last_field :: "string \<Rightarrow> string list \<Rightarrow> string option" where
  "last_field k ws = (case filter (prefix k) ws of [] \<Rightarrow> None | xs \<Rightarrow> Some (drop (length k) (last xs)))"

definition words_of :: "string list \<Rightarrow> string" where
  "words_of ws = concat (map (\<lambda>v. '' '' @ v) ws)"

lemma last_field_snoc:
  "last_field k (ws @ [v]) = (case strip_prefix k v of Some x \<Rightarrow> Some x | None \<Rightarrow> last_field k ws)"
proof (cases "prefix k v")
  case True
  have "filter (prefix k) (ws @ [v]) = filter (prefix k) ws @ [v]" using True by simp
  then have "last_field k (ws @ [v]) = Some (drop (length k) v)"
    unfolding last_field_def by (cases "filter (prefix k) ws") simp_all
  then show ?thesis using True by (simp add: strip_prefix_def)
qed (simp add: last_field_def strip_prefix_def)

lemma keys_disjoint:
  "prefix ''DST='' v \<Longrightarrow> \<not> prefix ''DPT='' v \<and> \<not> prefix ''PROTO='' v"
  "prefix ''DPT='' v \<Longrightarrow> \<not> prefix ''PROTO='' v"
  by (auto simp: prefix_def)

lemma drop_fields:
  "foldl drop_field (None, None, None) ws = (last_field ''DST='' ws, last_field ''DPT='' ws, last_field ''PROTO='' ws)"
proof (induction ws rule: rev_induct)
  case Nil
  then show ?case by (simp add: last_field_def)
next
  case (snoc v ws)
  then show ?case
    using keys_disjoint [of v] by (auto simp: last_field_snoc strip_prefix_def split: option.splits)
qed

lemma is_ws_ascii: "is_ascii_ws c \<Longrightarrow> is_ws c"
  by (auto simp: is_ascii_ws_def is_ws_def)

lemma is_ws_space: "is_ws (CHR '' '')" "is_ascii_ws (CHR '' '')"
  by code_simp+

lemma words_of_simps: "words_of [] = []" "words_of (v # ws) = CHR '' '' # v @ words_of ws"
  by (simp_all add: words_of_def)

definition word_ok :: "string \<Rightarrow> bool" where
  "word_ok v \<longleftrightarrow> v \<noteq> [] \<and> (\<forall>c \<in> set v. \<not> is_ws c)"

lemma split_words:
  assumes "list_all word_ok ws"
  shows "split_ascii_whitespace (trim_start (words_of ws)) = ws"
proof -
  have *: "filter (\<lambda>w. w \<noteq> []) (split_by is_ascii_ws (v @ words_of vs)) = v # vs"
    if "list_all word_ok (v # vs)" for v vs
    using that
  proof (induction vs arbitrary: v)
    case Nil
    then have "\<forall>c \<in> set v. \<not> is_ascii_ws c" "v \<noteq> []" using is_ws_ascii by (auto simp: word_ok_def)
    then show ?case by (simp add: words_of_simps split_by_none)
  next
    case (Cons u vs)
    then have "\<forall>c \<in> set v. \<not> is_ascii_ws c" "v \<noteq> []" using is_ws_ascii by (auto simp: word_ok_def)
    then show ?case using Cons by (simp add: words_of_simps split_by_append_sep is_ws_space)
  qed
  show ?thesis
  proof (cases ws)
    case Nil
    then show ?thesis by (simp add: words_of_simps trim_start_def split_ascii_whitespace_def)
  next
    case (Cons v vs)
    then have v: "v \<noteq> []" "\<not> is_ws (hd v)" using assms by (auto simp: word_ok_def)
    then have "trim_start (words_of ws) = v @ words_of vs"
      unfolding Cons words_of_simps trim_start_def by (cases v) (simp_all add: is_ws_space)
    then show ?thesis using * [of v vs] assms Cons by (simp add: split_ascii_whitespace_def)
  qed
qed

lemma find_first:
  "\<forall>i < length a. \<not> prefix p (drop i (a @ p @ b)) \<Longrightarrow> find_sub p (a @ p @ b) = Some (length a)"
proof (induction a)
  case Nil
  then show ?case by (simp add: find_sub_prefix)
next
  case (Cons c a)
  have "\<not> prefix p (c # a @ p @ b)" using Cons.prems by force
  moreover have "find_sub p (a @ p @ b) = Some (length a)" using Cons by force
  ultimately show ?case by simp
qed

lemma find_marker:
  assumes "\<not> sublist MARKER pre"
  shows "find_sub MARKER (pre @ MARKER @ b) = Some (length pre)"
proof (rule find_first, intro allI impI notI)
  fix i
  assume i: "i < length pre" and p: "prefix MARKER (drop i (pre @ MARKER @ b))"
  have m: "length MARKER = 19" "MARKER ! 18 = CHR ''[''" "\<forall>j \<in> set [0..<18]. MARKER ! j \<noteq> CHR ''[''"
    by code_simp+
  obtain z where z: "drop i (pre @ MARKER @ b) = MARKER @ z" using p by (auto simp: prefix_def)
  show False
  proof (cases "i + 19 \<le> length pre")
    case True
    then have "drop i pre @ MARKER @ b = MARKER @ z" using z by simp
    moreover have "19 \<le> length (drop i pre)" using True by simp
    ultimately have "take 19 (drop i pre) = take 19 (MARKER @ z)"
      by (metis append_take_drop_id take_append take_all_iff diff_is_0_eq append_Nil2 take_0)
    then have "take 19 (drop i pre) = MARKER" using m(1) by simp
    then have "pre = take i pre @ MARKER @ drop 19 (drop i pre)" by (metis append_take_drop_id)
    then have "sublist MARKER pre" unfolding sublist_def by blast
    then show False using assms by simp
  next
    case False
    have "(drop i (pre @ MARKER @ b)) ! 18 = CHR ''[''" unfolding z using m(1,2) by (simp add: nth_append)
    moreover have "drop i (pre @ MARKER @ b) ! 18 = (pre @ MARKER @ b) ! (i + 18)"
      by (rule nth_drop) (use i in simp)
    ultimately have "(pre @ MARKER @ b) ! (i + 18) = CHR ''[''" by simp
    moreover have "\<not> i + 18 < length pre" using False by simp
    ultimately have "(MARKER @ b) ! (i + 18 - length pre) = CHR ''[''" by (simp add: nth_append)
    moreover have "i + 18 - length pre < 18" using i by simp
    ultimately show False using m(1,3) by (simp add: nth_append)
  qed
qed

lemma table_char_safe: "is_alnum (table_char c) \<or> table_char c \<in> {CHR ''-'', CHR ''_''}"
  by (simp add: table_char_def)

lemma split_at_byte_length: "split_at_byte n s = Some (a, b) \<Longrightarrow> length a \<le> n"
  by (induction n s arbitrary: a b rule: split_at_byte.induct) (force split: if_splits nat.splits)+

lemma table_name_shape:
  assumes "derive_table_name run_id = Some table"
  shows "\<exists>suf. table = ''bunsen-'' @ suf \<and> length suf \<le> 16 \<and>
    (\<forall>c \<in> set suf. is_alnum c \<or> c \<in> {CHR ''-'', CHR ''_''})"
proof -
  obtain a b where s: "split_at_byte (min (length (str_bytes run_id)) 16) run_id = Some (a, b)"
    and t: "table = ''bunsen-'' @ map table_char a"
    using assms by (auto simp: derive_table_name_def Let_def)
  have "length a \<le> 16" using split_at_byte_length [OF s] by simp
  moreover have "\<forall>c \<in> set (map table_char a). is_alnum c \<or> c \<in> {CHR ''-'', CHR ''_''}"
    using table_char_safe by fastforce
  ultimately show ?thesis using t by (metis length_map)
qed

lemma table_name_no_bracket:
  assumes "derive_table_name run_id = Some table"
  shows "CHR '']'' \<notin> set table" "table \<noteq> []"
proof -
  obtain suf where t: "table = ''bunsen-'' @ suf" "\<forall>c \<in> set suf. is_alnum c \<or> c \<in> {CHR ''-'', CHR ''_''}"
    using table_name_shape [OF assms] by blast
  have "\<not> is_alnum (CHR '']'')" by code_simp
  then show "CHR '']'' \<notin> set table" using t by auto
  show "table \<noteq> []" using t by simp
qed

lemma parse_own_line:
  assumes "CHR '']'' \<notin> set table" "table \<noteq> []" "\<not> sublist MARKER pre" "list_all word_ok ws"
  shows "parse_drop_log_line (pre @ drop_log_prefix table @ words_of ws) =
    drop_event_of table (last_field ''DST='' ws, last_field ''DPT='' ws, last_field ''PROTO='' ws)"
proof -
  let ?rest = "table @ CHR '']'' # '': '' @ words_of ws"
  have line: "pre @ drop_log_prefix table @ words_of ws = pre @ MARKER @ ?rest"
    by (simp add: drop_log_prefix_def MARKER_def)
  have "split_once (CHR '']'') ?rest = Some (table, '': '' @ words_of ws)"
    using assms(1) by (rule split_once_append)
  moreover have "drop (length pre + length MARKER) (pre @ MARKER @ ?rest) = ?rest" by simp
  moreover have "trim_start ('' '' @ words_of ws) = trim_start (words_of ws)"
    by (simp add: trim_start_def is_ws_space)
  moreover have "strip_prefix '':'' ('': '' @ words_of ws) = Some ('' '' @ words_of ws)"
    by (simp add: strip_prefix_def)
  ultimately show ?thesis
    unfolding parse_drop_log_line_def line find_marker [OF assms(3)] Let_def
    using assms(2) by (simp only: option.case prod.case if_False split_words [OF assms(4)] drop_fields)
qed

section \<open>Property\<close>

text \<open>A line of the kernel's log for a drop of a Run: what is before the prefix, the Run, and
  the words after it. The denial it stands for.\<close>

type_synonym drop_line = "string \<times> string \<times> string list"

definition drop_line_ok :: "drop_line \<Rightarrow> bool" where
  "drop_line_ok l = (case l of (pre, run_id, ws) \<Rightarrow>
     derive_table_name run_id \<noteq> None \<and> \<not> contains pre MARKER \<and> list_all word_ok ws)"

definition drop_line_text :: "drop_line \<Rightarrow> string" where
  "drop_line_text l = (case l of (pre, run_id, ws) \<Rightarrow>
     pre @ drop_log_prefix (the (derive_table_name run_id)) @ words_of ws)"

definition line_denials :: "string \<Rightarrow> drop_line \<Rightarrow> denial_event list" where
  "line_denials own l = (case l of (pre, run_id, ws) \<Rightarrow>
     if derive_table_name run_id \<noteq> Some own then []
     else case last_field ''DST='' ws of
       None \<Rightarrow> []
     | Some d \<Rightarrow> if d = [] then []
         else [\<lparr> den_destination =
                   (case last_field ''DPT='' ws of Some p \<Rightarrow> if p \<noteq> [] then d @ '':'' @ p else d | None \<Rightarrow> d),
                 den_protocol = RawTcp,
                 den_reason = ''L3 drop (proto='' @ unwrap_or ''UNKNOWN'' (last_field ''PROTO='' ws) @ '')'' \<rparr>])"

lemma parse_drop_line:
  assumes "drop_line_ok l"
  shows "(case parse_drop_log_line (drop_line_text l) of None \<Rightarrow> []
    | Some ev \<Rightarrow> if dr_table ev = own then [drop_denial ev] else []) = line_denials own l"
proof -
  obtain pre run_id ws where l: "l = (pre, run_id, ws)" by (cases l)
  obtain table where t: "derive_table_name run_id = Some table" using assms by (auto simp: drop_line_ok_def l)
  have ok: "\<not> sublist MARKER pre" "list_all word_ok ws" using assms by (simp_all add: drop_line_ok_def l contains_iff)
  have "parse_drop_log_line (drop_line_text l) =
      drop_event_of table (last_field ''DST='' ws, last_field ''DPT='' ws, last_field ''PROTO='' ws)"
    unfolding drop_line_text_def l prod.case t option.sel by (rule parse_own_line [OF table_name_no_bracket [OF t] ok])
  then show ?thesis
    by (simp add: l line_denials_def t drop_event_of_def drop_denial_def drop_event_reason_def split: option.split)
qed



end
