(* ===== verification/PrivilegedNet.thy ===== *)
theory PrivilegedNet
  imports SandboxNft BranchPool
begin

text \<open>
  \<open>bunsen-core/src/privileged_net.rs\<close>: the actor that runs every privileged network
  command, and the commands themselves. Running a process, binding a socket and starting the
  tail of the kernel's log are the parameter \<open>net_ops\<close>. A command of the actor and its reply
  are values; whether the queue takes a command is the predicate \<open>nt_queue_open\<close>, and the queue
  itself with its thread and its callers is in \<open>NetActor\<close>.
\<close>

text \<open>The outcome of a process that is waited for: it could not be spawned, because the program
  was not found or otherwise, or it ended, with success or not, and with its output.\<close>

datatype proc_result = SpawnErr bool | Exited bool string string

record 'w net_ops =
  nt_queue_open :: "'w \<Rightarrow> bool"
  nt_proc :: "string list \<Rightarrow> string \<Rightarrow> 'w \<Rightarrow> proc_result \<times> 'w"
  nt_bind_dns :: "ipv4 \<Rightarrow> u16 \<Rightarrow> 'w \<Rightarrow> bool \<times> 'w"
  nt_nonblocking :: "'w \<Rightarrow> bool \<times> 'w"
  nt_spawn :: "string list \<Rightarrow> 'w \<Rightarrow> bool \<times> 'w"

datatype net_error = NeQueue | NeSpawn string | NeFailed string

definition proc_ok :: "'w net_ops \<Rightarrow> string \<Rightarrow> string list \<Rightarrow> string \<Rightarrow> string \<Rightarrow> ('w, net_error, unit) act" where
  "proc_ok N spawn_context args input failed w =
     (case nt_proc N args input w of
        (SpawnErr _, w') \<Rightarrow> (Inl (NeSpawn spawn_context), w')
      | (Exited ok out err, w') \<Rightarrow> if ok then (Inr (), w') else (Inl (NeFailed failed), w'))"

definition proc_ignored :: "'w net_ops \<Rightarrow> string list \<Rightarrow> ('w, net_error, unit) act" where
  "proc_ignored N args w = (case nt_proc N args [] w of (_, w') \<Rightarrow> (Inr (), w'))"

section \<open>Commands\<close>

definition exec_probe_firewall :: "'w net_ops \<Rightarrow> ('w, net_error, string option) act" where
  "exec_probe_firewall N w =
     (case nt_proc N [''iptables'', ''-S''] [] w of
        (SpawnErr not_found, w') \<Rightarrow> (if not_found then (Inr None, w') else (Inl (NeSpawn ''running iptables -S''), w'))
      | (Exited ok out err, w') \<Rightarrow>
          if ok then (Inr (Some out), w') else (Inl (NeFailed (''iptables -S: '' @ trim err)), w'))"

definition exec_add_tap_allow :: "'w net_ops \<Rightarrow> string \<Rightarrow> ('w, net_error, unit) act" where
  "exec_add_tap_allow N tap =
     proc_ok N ''spawn iptables -I'' [''iptables'', ''-I'', ''INPUT'', ''-i'', tap, ''-j'', ''ACCEPT''] []
       (''iptables -I INPUT -i '' @ tap @ '' -j ACCEPT failed'')"

definition exec_remove_tap_allow :: "'w net_ops \<Rightarrow> string \<Rightarrow> ('w, net_error, unit) act" where
  "exec_remove_tap_allow N tap =
     proc_ignored N [''iptables'', ''-D'', ''INPUT'', ''-i'', tap, ''-j'', ''ACCEPT'']"

definition exec_create_tap ::
  "'w net_ops \<Rightarrow> string \<Rightarrow> ipv4 \<Rightarrow> u8 \<Rightarrow> string \<Rightarrow> ('w, net_error, unit) act" where
  "exec_create_tap N name host_addr prefix_len owner_user =
     (let addr_arg = show_ipv4 host_addr @ ''/'' @ show_nat (unat prefix_len) in
      abind (proc_ok N ''spawn ip tuntap add''
        [''ip'', ''tuntap'', ''add'', ''dev'', name, ''mode'', ''tap'', ''user'', owner_user] []
        (''ip tuntap add dev '' @ name @ '' mode tap user '' @ owner_user @ '' failed'')) (\<lambda>_.
      abind (proc_ok N ''spawn ip link set up'' [''ip'', ''link'', ''set'', name, ''up''] []
        (''ip link set '' @ name @ '' up failed'')) (\<lambda>_.
      abind (proc_ok N ''spawn ip addr add'' [''ip'', ''addr'', ''add'', addr_arg, ''dev'', name] []
        (''ip addr add '' @ addr_arg @ '' dev '' @ name @ '' failed'')) (\<lambda>_.
      aret ()))))"

definition exec_delete_tap :: "'w net_ops \<Rightarrow> string \<Rightarrow> ('w, net_error, unit) act" where
  "exec_delete_tap N name = proc_ignored N [''ip'', ''link'', ''del'', name]"

text \<open>\<open>nft -f -\<close> with the ruleset on its input. A failure to write the input counts as a
  failure of the process here.\<close>

definition exec_apply_nft :: "'w net_ops \<Rightarrow> string \<Rightarrow> ('w, net_error, unit) act" where
  "exec_apply_nft N ruleset = proc_ok N ''spawn nft'' [''nft'', ''-f'', ''-''] ruleset ''nft -f - failed''"

definition exec_delete_nft :: "'w net_ops \<Rightarrow> string \<Rightarrow> ('w, net_error, unit) act" where
  "exec_delete_nft N table = proc_ignored N [''nft'', ''delete'', ''table'', ''inet'', table]"

definition exec_bind_dns :: "'w net_ops \<Rightarrow> ipv4 \<Rightarrow> u16 \<Rightarrow> ('w, net_error, unit) act" where
  "exec_bind_dns N addr port w =
     (case nt_bind_dns N addr port w of
        (False, w1) \<Rightarrow> (Inl (NeSpawn ''bind UDP''), w1)
      | (True, w1) \<Rightarrow>
          (case nt_nonblocking N w1 of
             (False, w2) \<Rightarrow> (Inl (NeSpawn ''set DNS socket non-blocking''), w2)
           | (True, w2) \<Rightarrow> (Inr (), w2)))"

definition exec_spawn_journalctl :: "'w net_ops \<Rightarrow> ('w, net_error, unit) act" where
  "exec_spawn_journalctl N w =
     (case nt_spawn N [''journalctl'', ''-k'', ''-f'', ''--output=cat'', ''--since=now''] w of
        (False, w') \<Rightarrow> (Inl (NeSpawn ''spawn journalctl -k -f for L3 drop-log tail''), w')
      | (True, w') \<Rightarrow> (Inr (), w'))"

section \<open>The actor\<close>

datatype net_cmd =
    ProbeFirewall
  | AddTapAllow string
  | RemoveTapAllow string
  | CreateTap string ipv4 u8 string
  | DeleteTap string
  | ApplyNft string
  | DeleteNft string
  | BindDns ipv4 u16
  | SpawnJournalctl

datatype net_reply = Text "string option" | Done

definition unit_reply :: "('w, net_error, unit) act \<Rightarrow> ('w, net_error, net_reply) act" where
  "unit_reply m = abind m (\<lambda>_. aret Done)"

definition run_actor_cmd :: "'w net_ops \<Rightarrow> net_cmd \<Rightarrow> ('w, net_error, net_reply) act" where
  "run_actor_cmd N c =
     (case c of
        ProbeFirewall \<Rightarrow> abind (exec_probe_firewall N) (\<lambda>t. aret (Text t))
      | AddTapAllow tap \<Rightarrow> unit_reply (exec_add_tap_allow N tap)
      | RemoveTapAllow tap \<Rightarrow> unit_reply (exec_remove_tap_allow N tap)
      | CreateTap name host_addr prefix_len owner \<Rightarrow> unit_reply (exec_create_tap N name host_addr prefix_len owner)
      | DeleteTap name \<Rightarrow> unit_reply (exec_delete_tap N name)
      | ApplyNft ruleset \<Rightarrow> unit_reply (exec_apply_nft N ruleset)
      | DeleteNft table \<Rightarrow> unit_reply (exec_delete_nft N table)
      | BindDns addr port \<Rightarrow> unit_reply (exec_bind_dns N addr port)
      | SpawnJournalctl \<Rightarrow> unit_reply (exec_spawn_journalctl N))"

text \<open>The loop of the thread over the commands of its queue, with the replies it sends.\<close>

fun run_actor :: "'w net_ops \<Rightarrow> net_cmd list \<Rightarrow> 'w \<Rightarrow> (net_error + net_reply) list \<times> 'w" where
  "run_actor N [] w = ([], w)"
| "run_actor N (c # cs) w =
     (case run_actor_cmd N c w of (r, w1) \<Rightarrow> (case run_actor N cs w1 of (rs, w2) \<Rightarrow> (r # rs, w2)))"

text \<open>A call through the handle: one command, its reply awaited.\<close>

definition net_call :: "'w net_ops \<Rightarrow> net_cmd \<Rightarrow> ('w, net_error, net_reply) act" where
  "net_call N c w = (if \<not> nt_queue_open N w then (Inl NeQueue, w) else run_actor_cmd N c w)"

end
