(* ===== verification/Sandbox.thy ===== *)
theory Sandbox
  imports SandboxNet RunSpec Json
begin

text \<open>
  \<open>bunsen-core/src/sandbox.rs\<close> and the reading side in \<open>bunsen-init\<close>
  (\<open>cmdline.rs\<close>, \<open>network.rs\<close>, the specification of \<open>init_linux.rs\<close>): the
  configuration of the VM, the specification that the host sends to the guest and the guest's
  view of it. An environment is a map, and its JSON object has the keys in order, as
  \<open>BTreeMap\<close> and \<open>serde_json\<close> keep them.
\<close>

definition VSOCK_STDOUT_PORT :: u32 where "VSOCK_STDOUT_PORT = 5001"
definition VSOCK_STDERR_PORT :: u32 where "VSOCK_STDERR_PORT = 5002"
definition VSOCK_CONTROL_PORT :: u32 where "VSOCK_CONTROL_PORT = 5003"
definition VSOCK_SPEC_PORT :: u32 where "VSOCK_SPEC_PORT = 5000"

record sandbox_config =
  sc_kernel_path :: string
  sc_rootfs_path :: string
  sc_workspace_host_path :: string
  sc_spec_json :: json
  sc_vcpus :: u32
  sc_mem_mib :: u32
  sc_workspace_disk_mib :: u32
  sc_run_id :: string
  sc_tap_name :: string

section \<open>The kernel's command line\<close>

definition build_boot_args :: "string option \<Rightarrow> string" where
  "build_boot_args init_debug =
     ''console=ttyS0 reboot=k panic=1 pci=off nomodule '' @ ''root=/dev/vda rw init=/sbin/bunsen-init''
     @ (if init_debug = Some ''1'' then '' bunsen_init_debug=1'' else [])"

definition debug_enabled :: "string \<Rightarrow> bool" where
  "debug_enabled cmdline = list_ex (\<lambda>t. t = ''bunsen_init_debug=1'') (split_whitespace cmdline)"

section \<open>The specification for the guest\<close>

type_synonym env_map = "(string \<times> string) list"

definition env_insert :: "string \<Rightarrow> string \<Rightarrow> env_map \<Rightarrow> env_map" where
  "env_insert k v m = (k, v) # filter (\<lambda>(x, _). x \<noteq> k) m"

definition env_or_insert :: "string \<Rightarrow> string \<Rightarrow> env_map \<Rightarrow> env_map" where
  "env_or_insert k v m = (if map_of m k = None then env_insert k v m else m)"

definition PROXY_VARS :: "string list" where
  "PROXY_VARS = [''HTTP_PROXY'', ''HTTPS_PROXY'', ''http_proxy'', ''https_proxy'']"

definition sandbox_env :: "run_spec \<Rightarrow> (ipv4 \<times> u16) option \<Rightarrow> env_map" where
  "sandbox_env spec proxy_addr =
     (let env1 = foldl (\<lambda>m (k, v). env_insert k v m) (rs_env spec) (rs_secrets spec);
          env2 = (if rs_adapter spec = ''pi'' then env_or_insert ''PI_CODING_AGENT_DIR'' ''/workspace/.pi'' env1 else env1)
      in case proxy_addr of
           None \<Rightarrow> env2
         | Some (ip, port) \<Rightarrow>
             let url = ''http://'' @ show_ipv4 ip @ '':'' @ show_nat (unat port);
                 env3 = foldl (\<lambda>m k. env_insert k url m) env2 PROXY_VARS
             in foldl (\<lambda>m k. env_or_insert k ''localhost,127.0.0.1'' m) env3 [''NO_PROXY'', ''no_proxy''])"

definition env_json :: "env_map \<Rightarrow> json" where
  "env_json m = JObj (jmap_of (map (\<lambda>(k, v). (k, JStr v)) m))"

definition network_json :: "run_network \<Rightarrow> json" where
  "network_json n = JObj (jmap_of
     [(''guest-ip'', JStr (show_ipv4 (net_guest n))), (''host-ip'', JStr (show_ipv4 (net_host n))),
      (''prefix-len'', ju64 (ucast (net_prefix_len n)))])"

definition build_sandbox_spec_json ::
  "run_spec \<Rightarrow> (ipv4 \<times> u16) option \<Rightarrow> run_network option \<Rightarrow> json" where
  "build_sandbox_spec_json spec proxy_addr net =
     JObj (opt_insert ''network'' (map_option network_json net) (jmap_of
       [(''cmd'', JArr (map JStr (rs_cmd spec))),
        (''env'', env_json (sandbox_env spec proxy_addr)),
        (''stop-grace-seconds'', ju64 (rs_stop_grace spec))]))"

text \<open>\<open>vsock_socket_path\<close>: the port is appended to the file name.\<close>

definition vsock_socket_path :: "string \<Rightarrow> u32 \<Rightarrow> string" where
  "vsock_socket_path base port =
     (case rsplit_once (CHR ''/'') base of
        None \<Rightarrow> base @ ''_'' @ show_nat (unat port)
      | Some (d, f) \<Rightarrow> d @ ''/'' @ f @ ''_'' @ show_nat (unat port))"

section \<open>The environment of the agent\<close>

definition proxy_url :: "ipv4 \<times> u16 \<Rightarrow> string" where
  "proxy_url a = ''http://'' @ show_ipv4 (fst a) @ '':'' @ show_nat (unat (snd a))"

lemma map_of_env_insert [simp]: "map_of (env_insert k v m) = (map_of m)(k \<mapsto> v)"
proof
  fix x
  show "map_of (env_insert k v m) x = ((map_of m)(k \<mapsto> v)) x"
    by (induction m) (auto simp: env_insert_def)
qed

lemma distinct_env_insert: "distinct (map fst m) \<Longrightarrow> distinct (map fst (env_insert k v m))"
  by (induction m) (auto simp: env_insert_def)

lemma map_of_env_or_insert [simp]:
  "map_of (env_or_insert k v m) = (if map_of m k = None then (map_of m)(k \<mapsto> v) else map_of m)"
  by (simp add: env_or_insert_def)

lemma distinct_env_or_insert: "distinct (map fst m) \<Longrightarrow> distinct (map fst (env_or_insert k v m))"
  by (simp add: env_or_insert_def distinct_env_insert)

lemma foldl_env_insert:
  "map_of (foldl (\<lambda>m (k, v). env_insert k v m) m kvs) k =
     (case map_of (rev kvs) k of Some v \<Rightarrow> Some v | None \<Rightarrow> map_of m k)"
  by (induction kvs arbitrary: m) (auto simp: map_of_append map_add_def split: option.splits)

lemma foldl_env_const:
  "map_of (foldl (\<lambda>m k. env_insert k v m) m ks) k = (if k \<in> set ks then Some v else map_of m k)"
  by (induction ks arbitrary: m) auto

lemma foldl_env_or_const:
  "map_of (foldl (\<lambda>m k. env_or_insert k v m) m ks) k =
     (case map_of m k of Some x \<Rightarrow> Some x | None \<Rightarrow> if k \<in> set ks then Some v else None)"
  by (induction ks arbitrary: m) (auto split: option.splits)

lemma foldl_env_distinct:
  "distinct (map fst m) \<Longrightarrow> distinct (map fst (foldl (\<lambda>m (k, v). env_insert k v m) m kvs))"
  by (induction kvs arbitrary: m) (auto simp: distinct_env_insert)

text \<open>What an agent finds in its environment without a proxy: a secret, else the user's
  variable, else the default of the adapter.\<close>

definition user_env :: "run_spec \<Rightarrow> string \<Rightarrow> string option" where
  "user_env spec k =
     (case map_of (rev (rs_secrets spec)) k of
        Some v \<Rightarrow> Some v
      | None \<Rightarrow>
          (case map_of (rs_env spec) k of
             Some v \<Rightarrow> Some v
           | None \<Rightarrow> if rs_adapter spec = ''pi'' \<and> k = ''PI_CODING_AGENT_DIR'' then Some ''/workspace/.pi'' else None))"

definition agent_env :: "run_spec \<Rightarrow> (ipv4 \<times> u16) option \<Rightarrow> string \<Rightarrow> string option" where
  "agent_env spec proxy_addr k =
     (case proxy_addr of
        None \<Rightarrow> user_env spec k
      | Some a \<Rightarrow>
          if k \<in> set PROXY_VARS then Some (proxy_url a)
          else case user_env spec k of
            Some v \<Rightarrow> Some v
          | None \<Rightarrow> if k \<in> {''NO_PROXY'', ''no_proxy''} then Some ''localhost,127.0.0.1'' else None)"

lemma map_of_sandbox_env: "map_of (sandbox_env spec proxy_addr) k = agent_env spec proxy_addr k"
proof -
  define env2 where "env2 = (let env1 = foldl (\<lambda>m (k, v). env_insert k v m) (rs_env spec) (rs_secrets spec)
      in if rs_adapter spec = ''pi'' then env_or_insert ''PI_CODING_AGENT_DIR'' ''/workspace/.pi'' env1 else env1)"
  have e2: "map_of env2 x = user_env spec x" for x
    by (auto simp: env2_def Let_def foldl_env_insert user_env_def split: option.splits)
  show ?thesis
  proof (cases proxy_addr)
    case None
    then show ?thesis using e2 by (simp add: sandbox_env_def agent_env_def env2_def Let_def)
  next
    case (Some a)
    have s: "sandbox_env spec (Some a) = foldl (\<lambda>m k. env_or_insert k ''localhost,127.0.0.1'' m)
        (foldl (\<lambda>m k. env_insert k (proxy_url a) m) env2 PROXY_VARS) [''NO_PROXY'', ''no_proxy'']"
      by (cases a) (simp add: sandbox_env_def env2_def Let_def proxy_url_def)
    have ns: "set [''NO_PROXY'', ''no_proxy''] = {''NO_PROXY'', ''no_proxy''}" by simp
    show ?thesis
      unfolding Some s agent_env_def option.case foldl_env_or_const foldl_env_const e2 ns
      by (cases "user_env spec k") simp_all
  qed
qed

lemma distinct_sandbox_env:
  "distinct (map fst (rs_env spec)) \<Longrightarrow> distinct (map fst (sandbox_env spec proxy_addr))"
  by (auto simp: sandbox_env_def Let_def PROXY_VARS_def split: option.split
      intro!: distinct_env_insert distinct_env_or_insert foldl_env_distinct)

end
