(* ===== verification/GuestInit.thy ===== *)
theory GuestInit
  imports Sandbox SandboxSupervisor
begin

text \<open>
  \<open>bunsen-init\<close>, the first process of the guest: its specification, the network and
  resolver configuration, the environment of the agent, the control channel and the reaping of
  children. System calls are left out: a control command's effect is the signal it sends, and
  the results of \<open>waitpid\<close> and of the reads are arguments. The JSON parser is a parameter.
\<close>

section \<open>The specification\<close>

record guest_network =
  gn_guest_ip :: ipv4
  gn_host_ip :: ipv4
  gn_prefix_len :: u8

record init_spec =
  is_cmd :: "string list"
  is_env :: "(string \<times> string) list"
  is_grace :: u64
  is_network :: "guest_network option"

definition default_grace :: u64 where "default_grace = 10"

fun opt_list :: "('a \<Rightarrow> 'b option) \<Rightarrow> 'a list \<Rightarrow> 'b list option" where
  "opt_list f [] = Some []"
| "opt_list f (x # xs) = Option.bind (f x) (\<lambda>y. map_option (Cons y) (opt_list f xs))"

definition json_strings :: "json \<Rightarrow> string list option" where
  "json_strings j = Option.bind (as_array j) (opt_list as_str)"

definition json_string_map :: "json \<Rightarrow> (string \<times> string) list option" where
  "json_string_map j = Option.bind (as_object j) (opt_list (\<lambda>(k, v). map_option (Pair k) (as_str v)))"

text \<open>The fields have the names that serde derives: \<open>GuestNetwork\<close> is renamed to kebab
  case, \<open>InitSpec\<close> is not.\<close>

definition guest_network_of_json :: "json \<Rightarrow> guest_network option" where
  "guest_network_of_json j =
     Option.bind (Option.bind (get_str ''guest-ip'' j) parse_ipv4) (\<lambda>g.
     Option.bind (Option.bind (get_str ''host-ip'' j) parse_ipv4) (\<lambda>h.
     Option.bind (get_u64 ''prefix-len'' j) (\<lambda>p.
     if p < 256 then Some \<lparr> gn_guest_ip = g, gn_host_ip = h, gn_prefix_len = ucast p \<rparr> else None)))"

definition field_or :: "'a \<Rightarrow> (json \<Rightarrow> 'a option) \<Rightarrow> string \<Rightarrow> json \<Rightarrow> 'a option" where
  "field_or d f k j = (case jget k j of None \<Rightarrow> Some d | Some v \<Rightarrow> f v)"

definition init_spec_of_json :: "json \<Rightarrow> init_spec option" where
  "init_spec_of_json j =
     Option.bind (Option.bind (jget ''cmd'' j) json_strings) (\<lambda>cmd.
     Option.bind (field_or [] json_string_map ''env'' j) (\<lambda>env.
     Option.bind (field_or default_grace as_u64 ''stop_grace_seconds'' j) (\<lambda>grace.
     Option.bind (field_or None (\<lambda>v. if v = JNull then Some None else map_option Some (guest_network_of_json v))
        ''network'' j) (\<lambda>net.
     Some \<lparr> is_cmd = cmd, is_env = env, is_grace = grace, is_network = net \<rparr>))))"

section \<open>Network\<close>

definition format_resolv_conf :: "ipv4 \<Rightarrow> string" where
  "format_resolv_conf host_ip = ''nameserver '' @ show_ipv4 host_ip @ [LF]"

definition prefix_len_to_netmask :: "u8 \<Rightarrow> u32" where
  "prefix_len_to_netmask prefix_len =
     (let bits = min (unat prefix_len) 32 in if bits = 0 then 0 else push_bit (32 - bits) (NOT 0))"

section \<open>The environment of the agent\<close>

text \<open>The specification's variables, then bunsen's default, then what the process inherits
  without bunsen's own; the first of a key counts.\<close>

definition env_step :: "(string \<times> string) list \<Rightarrow> string \<times> string \<Rightarrow> (string \<times> string) list" where
  "env_step pairs kv = (if fst kv \<in> set (map fst pairs) then pairs else pairs @ [kv])"

definition env_pairs :: "(string \<times> string) list \<Rightarrow> (string \<times> string) list \<Rightarrow> (string \<times> string) list" where
  "env_pairs spec_env inherited =
     foldl env_step (foldl env_step (foldl env_step [] spec_env) [(''HOME'', ''/root'')])
       (filter (\<lambda>(k, v). \<not> prefix ''bunsen_'' k) inherited)"

section \<open>Control\<close>

datatype guest_signal = SigTerm | SigKill | SigStop | SigCont

datatype guest_action = SignalGroup guest_signal | KillAfter u64

definition dispatch_control :: "(string \<Rightarrow> json option) \<Rightarrow> u64 \<Rightarrow> string \<Rightarrow> guest_action list" where
  "dispatch_control parse grace_secs line =
     (case parse line of
        None \<Rightarrow> []
      | Some v \<Rightarrow>
          (case get_str ''op'' v of
             None \<Rightarrow> []
           | Some oper \<Rightarrow>
               if oper = ''stop'' then [SignalGroup SigTerm, KillAfter grace_secs]
               else if oper = ''kill'' then [SignalGroup SigKill]
               else if oper = ''pause'' then [SignalGroup SigStop]
               else if oper = ''resume'' then [SignalGroup SigCont]
               else []))"

text \<open>The lines that the buffer holds complete, and what stays in it.\<close>

function drain_lines :: "string \<Rightarrow> string list \<times> string" where
  "drain_lines buf =
     (case split_once LF buf of
        None \<Rightarrow> ([], buf)
      | Some (line, rest) \<Rightarrow> (case drain_lines rest of (ls, left) \<Rightarrow> (trim line # ls, left)))"
  by pat_completeness auto
termination by (relation "measure length") (auto simp: split_once_Some)

declare drain_lines.simps [simp del]

datatype ctl_read = Chunk bytes | ReadEnd

fun control_loop ::
  "(string \<Rightarrow> json option) \<Rightarrow> u64 \<Rightarrow> ctl_read list \<Rightarrow> string \<Rightarrow> guest_action list" where
  "control_loop parse grace_secs [] buf = []"
| "control_loop parse grace_secs (ReadEnd # reads) buf = []"
| "control_loop parse grace_secs (Chunk bs # reads) buf =
     (if bs = [] then []
      else case drain_lines (buf @ unwrap_or [] (from_utf8 bs)) of
        (ls, left) \<Rightarrow> concat (map (dispatch_control parse grace_secs) ls) @ control_loop parse grace_secs reads left)"

section \<open>Reaping\<close>

datatype wait_result = NoChild | Reaped int child_status
  and child_status = ExitStatus int | TermSignal int | OtherStatus

text \<open>The code and the signal, once the agent itself is reaped or no child is left.\<close>

fun wait_for_agent :: "int \<Rightarrow> wait_result list \<Rightarrow> (int \<times> int) option" where
  "wait_for_agent agent_pid [] = None"
| "wait_for_agent agent_pid (NoChild # ws) = Some (0, 0)"
| "wait_for_agent agent_pid (Reaped pid st # ws) =
     (if pid = agent_pid
      then Some (case st of ExitStatus c \<Rightarrow> (c, 0) | TermSignal s \<Rightarrow> (0, s) | OtherStatus \<Rightarrow> (0, 0))
      else wait_for_agent agent_pid ws)"

section \<open>From the host's specification to the agent\<close>

lemma opt_list_map: "(\<And>x. x \<in> set xs \<Longrightarrow> f (g x) = Some (h x)) \<Longrightarrow> opt_list f (map g xs) = Some (map h xs)"
  by (induction xs) auto

lemma opt_list_strs: "opt_list as_str (map JStr xs) = Some xs"
  using opt_list_map [of xs as_str JStr "\<lambda>x. x"] by simp

lemma obj_insert_strs:
  "\<exists>m'. obj_insert k (JStr v) (map (map_prod id JStr) m) = map (map_prod id JStr) m'"
proof (induction m)
  case Nil
  have "obj_insert k (JStr v) (map (map_prod id JStr) []) = map (map_prod id JStr) [(k, v)]" by simp
  then show ?case by blast
next
  case (Cons x m)
  obtain a b where x: "x = (a, b)" by (rule prod.exhaust)
  obtain m' where m': "obj_insert k (JStr v) (map (map_prod id JStr) m) = map (map_prod id JStr) m'"
    using Cons by blast
  have "obj_insert k (JStr v) (map (map_prod id JStr) (x # m)) =
      map (map_prod id JStr) (if k < a then (k, v) # (a, b) # m else if k = a then (k, v) # m else (a, b) # m')"
    using m' by (simp add: x)
  then show ?case by blast
qed

lemma jmap_of_strs: "\<exists>m'. jmap_of (map (\<lambda>(k, v). (k, JStr v)) kvs) = map (map_prod id JStr) m'"
proof -
  have "\<exists>m'. foldl (\<lambda>m (k, v). obj_insert k v m) (map (map_prod id JStr) acc) (map (\<lambda>(k, v). (k, JStr v)) kvs)
      = map (map_prod id JStr) m'" for acc
  proof (induction kvs arbitrary: acc)
    case (Cons kv kvs)
    obtain k v where kv: "kv = (k, v)" by (rule prod.exhaust)
    obtain acc' where "obj_insert k (JStr v) (map (map_prod id JStr) acc) = map (map_prod id JStr) acc'"
      using obj_insert_strs by blast
    then show ?case using Cons [of acc'] by (simp add: kv del: id_apply map_map list.map_id0 map_prod_simp)
  qed auto
  from this [of "[]"] show ?thesis by (simp add: jmap_of_def)
qed

lemma map_of_JStr: "map_of (map (map_prod id JStr) m) k = map_option JStr (map_of m k)"
  by (induction m) auto

lemma map_of_rev_distinct: "distinct (map fst m) \<Longrightarrow> map_of (rev m) = map_of m"
proof (induction m)
  case (Cons x m)
  then have "map_of m (fst x) = None" by (simp add: map_of_eq_None_iff)
  then show ?case using Cons by (cases x) (auto simp: map_of_append map_add_def fun_eq_iff split: option.splits)
qed simp

lemma env_arrives:
  assumes "distinct (map fst m)"
  obtains e where "json_string_map (env_json m) = Some e" "map_of e = map_of m" "distinct (map fst e)"
proof -
  obtain e where e: "jmap_of (map (\<lambda>(k, v). (k, JStr v)) m) = map (map_prod id JStr) e"
    using jmap_of_strs by blast
  have p: "json_string_map (env_json m) = Some e"
    using opt_list_map [of e "\<lambda>(k, v). map_option (Pair k) (as_str v)" "map_prod id JStr" "\<lambda>x. x"]
    by (auto simp: json_string_map_def env_json_def e)
  have "map_of (map (\<lambda>(k, v). (k, JStr v)) m) k = map_option JStr (map_of m k)" for k
    by (induction m) auto
  moreover have "map_of (map (map_prod id JStr) e) k = map_of (map (\<lambda>(k, v). (k, JStr v)) m) k" for k
    unfolding e [symmetric] map_of_jmap_of
    using assms by (subst map_of_rev_distinct) (simp_all add: comp_def case_prod_unfold)
  ultimately have "map_option JStr (map_of e k) = map_option JStr (map_of m k)" for k
    by (simp add: map_of_JStr)
  then have "map_of e k = map_of m k" for k
    by (metis option.inj_map_strong json.inject(3))
  moreover have "distinct (map fst (map (map_prod id JStr) e))"
    unfolding e [symmetric] by (simp add: wf_map_distinct)
  then have "distinct (map fst e)" by (simp add: comp_def)
  ultimately show ?thesis using that p by (auto simp: fun_eq_iff)
qed

lemma map_of_env_step:
  "map_of (foldl env_step pairs kvs) k = (case map_of pairs k of Some v \<Rightarrow> Some v | None \<Rightarrow> map_of kvs k)"
proof (induction kvs arbitrary: pairs)
  case (Cons kv kvs)
  obtain a b where kv: "kv = (a, b)" by (rule prod.exhaust)
  have "map_of (env_step pairs kv) k =
      (case map_of pairs k of Some v \<Rightarrow> Some v | None \<Rightarrow> if k = a then Some b else None)"
    using map_of_eq_None_iff [of pairs a]
    by (auto simp: kv env_step_def map_of_append map_add_def split: option.splits)
  then show ?case using Cons [of "env_step pairs kv"] by (auto simp: kv split: option.splits)
qed (simp split: option.split)

lemma distinct_env_step: "distinct (map fst pairs) \<Longrightarrow> distinct (map fst (foldl env_step pairs kvs))"
  by (induction kvs arbitrary: pairs) (simp_all add: env_step_def)

lemma map_of_filter_bunsen:
  "map_of (filter (\<lambda>(k, v). \<not> prefix ''bunsen_'' k) kvs) k =
     (if prefix ''bunsen_'' k then None else map_of kvs k)"
  by (induction kvs) auto

lemma map_of_env_pairs:
  "map_of (env_pairs spec_env inherited) k =
     (case map_of spec_env k of
        Some v \<Rightarrow> Some v
      | None \<Rightarrow> if k = ''HOME'' then Some ''/root''
               else if prefix ''bunsen_'' k then None else map_of inherited k)"
  unfolding env_pairs_def map_of_env_step map_of_filter_bunsen by (simp split: option.split)

lemma network_json_not_null: "network_json n \<noteq> JNull"
  by (simp add: network_json_def)

lemma network_arrives:
  "guest_network_of_json (network_json n) =
     Some \<lparr> gn_guest_ip = net_guest n, gn_host_ip = net_host n, gn_prefix_len = net_prefix_len n \<rparr>"
proof -
  have "unat (net_prefix_len n) < 2 ^ LENGTH(8)" by (rule unsigned_less)
  then have "ucast (net_prefix_len n) < (256 :: u64)"
    by (simp add: word_less_nat_alt unsigned_ucast_eq take_bit_nat_eq_self)
  moreover have "ucast (ucast (net_prefix_len n) :: u64) = net_prefix_len n"
    by (rule bit_word_eqI) (simp add: bit_simps)
  ultimately show ?thesis
    by (simp add: guest_network_of_json_def network_json_def get_str_def get_u64_def)
qed

text \<open>C18: What the host puts into a specification is what the guest acts on. The guest accepts
  the specification; it runs the same command, configures \<open>eth0\<close> with the addresses of
  the Run's network, and each variable of the agent's environment has the value that the host
  chose: with a proxy, the four proxy variables are the proxy's URL whatever the user or a secret
  says; otherwise a secret goes before the user's variable, and the user's variable before every default. Nothing that starts with \<open>bunsen_\<close> is inherited, and no variable
  occurs twice.\<close>

theorem guest_acts_on_the_host_spec:
  assumes "distinct (map fst (rs_env spec))"
  shows "\<exists>i. init_spec_of_json (build_sandbox_spec_json spec proxy_addr net) = Some i
    \<and> is_cmd i = rs_cmd spec
    \<and> is_network i = map_option (\<lambda>n. \<lparr> gn_guest_ip = net_guest n, gn_host_ip = net_host n,
        gn_prefix_len = net_prefix_len n \<rparr>) net
    \<and> distinct (map fst (env_pairs (is_env i) inherited))
    \<and> (\<forall>k. map_of (env_pairs (is_env i) inherited) k =
         (case agent_env spec proxy_addr k of
            Some v \<Rightarrow> Some v
          | None \<Rightarrow> if k = ''HOME'' then Some ''/root''
                   else if prefix ''bunsen_'' k then None else map_of inherited k))
    \<and> (\<forall>a. proxy_addr = Some a \<longrightarrow> list_all (\<lambda>k. map_of (env_pairs (is_env i) inherited) k = Some (proxy_url a)) PROXY_VARS)"
proof -
  obtain e where e: "json_string_map (env_json (sandbox_env spec proxy_addr)) = Some e"
      "map_of e = map_of (sandbox_env spec proxy_addr)"
    using env_arrives [OF distinct_sandbox_env [OF assms]] by metis
  let ?j = "build_sandbox_spec_json spec proxy_addr net"
  have get: "jget ''cmd'' ?j = Some (JArr (map JStr (rs_cmd spec)))"
      "jget ''env'' ?j = Some (env_json (sandbox_env spec proxy_addr))"
      "jget ''stop_grace_seconds'' ?j = None"
      "jget ''network'' ?j = map_option network_json net"
    by (simp_all add: build_sandbox_spec_json_def)
  let ?i = "\<lparr> is_cmd = rs_cmd spec, is_env = e, is_grace = default_grace,
      is_network = map_option (\<lambda>n. \<lparr> gn_guest_ip = net_guest n, gn_host_ip = net_host n,
        gn_prefix_len = net_prefix_len n \<rparr>) net \<rparr>"
  have net: "field_or None (\<lambda>v. if v = JNull then Some None else map_option Some (guest_network_of_json v)) ''network'' ?j
      = Some (is_network ?i)"
    unfolding field_or_def get using network_arrives
    by (cases net) (auto simp: network_json_not_null)
  have i: "init_spec_of_json ?j = Some ?i"
    unfolding init_spec_of_json_def net
    using e(1) by (simp add: field_or_def get json_strings_def opt_list_strs)
  have m: "map_of (env_pairs e inherited) k =
      (case agent_env spec proxy_addr k of Some v \<Rightarrow> Some v
       | None \<Rightarrow> if k = ''HOME'' then Some ''/root'' else if prefix ''bunsen_'' k then None else map_of inherited k)" for k
    unfolding map_of_env_pairs e(2) map_of_sandbox_env by (rule refl)
  have "list_all (\<lambda>k. map_of (env_pairs e inherited) k = Some (proxy_url a)) PROXY_VARS" if "proxy_addr = Some a" for a
    unfolding m list_all_iff by (simp add: agent_env_def that)
  moreover have "distinct (map fst (env_pairs e inherited))"
    unfolding env_pairs_def by (intro distinct_env_step) simp
  ultimately show ?thesis using i m by (intro exI [of _ ?i]) simp
qed

definition example_spec :: run_spec where
  "example_spec =
     \<lparr> rs_adapter = ''pi'', rs_cmd = [''pi''], rs_env = [(''HTTP_PROXY'', ''none'')], rs_secrets = [], rs_strategy = StratNone,
       rs_output_branch = None, rs_stop_grace = 60, rs_wall_clock = 1800, rs_memory_mb = 4096, rs_vcpus = 2,
       rs_disk_mb = 10240, rs_oci_image = None, rs_egress = [] \<rparr>"

theorem guest_acts_on_the_host_spec_witness:
  "\<exists>i. init_spec_of_json (build_sandbox_spec_json example_spec (Some ((169, 254, 0, 5), 3128)) None) = Some i
     \<and> is_cmd i = [''pi''] \<and> is_network i = None
     \<and> map_of (env_pairs (is_env i) [(''TERM'', ''linux'')]) ''HTTP_PROXY'' = Some (proxy_url ((169, 254, 0, 5), 3128))"
  using guest_acts_on_the_host_spec [of example_spec "Some ((169, 254, 0, 5), 3128)" None "[(''TERM'', ''linux'')]"]
  by (auto simp: example_spec_def PROXY_VARS_def)

text \<open>The guest looks for the grace period under a key that the host does not write.\<close>

lemma stop_grace_is_lost:
  assumes "init_spec_of_json (build_sandbox_spec_json spec proxy_addr net) = Some i"
  shows "is_grace i = 10"
proof -
  have "jget ''stop_grace_seconds'' (build_sandbox_spec_json spec proxy_addr net) = None"
    by (simp add: build_sandbox_spec_json_def)
  then have "field_or default_grace as_u64 ''stop_grace_seconds'' (build_sandbox_spec_json spec proxy_addr net)
      = Some default_grace"
    by (simp add: field_or_def)
  then show ?thesis
    using assms by (auto simp: init_spec_of_json_def bind_eq_Some_conv default_grace_def)
qed

section \<open>The control channel\<close>

definition op_action :: "u64 \<Rightarrow> control_cmd \<Rightarrow> guest_action list" where
  "op_action grace_secs c =
     (case c of
        Stop \<Rightarrow> [SignalGroup SigTerm, KillAfter grace_secs]
      | Kill \<Rightarrow> [SignalGroup SigKill]
      | Timeout \<Rightarrow> [SignalGroup SigKill]
      | Pause \<Rightarrow> [SignalGroup SigStop]
      | Resume \<Rightarrow> [SignalGroup SigCont])"

lemma ascii_chunks:
  assumes "is_ascii s" "str_bytes s = a @ b"
  obtains s1 s2 where "s = s1 @ s2" "a = str_bytes s1" "b = str_bytes s2"
proof -
  have asc: "str_bytes t = map (\<lambda>c. word_of_nat (code c)) t" if "is_ascii t" for t
    using that by (induction t) (simp_all add: str_bytes_Cons char_bytes_def)
  have eq: "map (\<lambda>c. word_of_nat (code c)) s = a @ b" using assms asc by simp
  let ?n = "length a"
  have "a = map (\<lambda>c. word_of_nat (code c)) (take ?n s)" "b = map (\<lambda>c. word_of_nat (code c)) (drop ?n s)"
    using eq by (simp_all add: take_map [symmetric] drop_map [symmetric])
  moreover have "is_ascii (take ?n s)" "is_ascii (drop ?n s)"
    using assms(1) by (auto simp: is_ascii_def dest: in_set_takeD in_set_dropD)
  ultimately show ?thesis using that [of "take ?n s" "drop ?n s"] asc by simp
qed

lemma ascii_reads:
  "is_ascii s \<Longrightarrow> concat chunks = str_bytes s \<Longrightarrow> \<exists>ss. concat ss = s \<and> chunks = map str_bytes ss"
proof (induction chunks arbitrary: s)
  case Nil
  then show ?case using from_utf8_str_bytes [of s] by simp
next
  case (Cons a chunks)
  have "str_bytes s = a @ concat chunks" using Cons.prems(2) by simp
  from ascii_chunks [OF Cons.prems(1) this]
  obtain s1 s2 where s: "s = s1 @ s2" "a = str_bytes s1" "concat chunks = str_bytes s2" .
  have "is_ascii s2" using Cons.prems(1) s(1) by (simp add: is_ascii_def)
  from Cons.IH [OF this s(3)] obtain ss where "concat ss = s2" "chunks = map str_bytes ss" by blast
  then have "concat (s1 # ss) = s \<and> a # chunks = map str_bytes (s1 # ss)" using s(1,2) by simp
  then show ?case by (rule exI)
qed

lemma drain_none: "LF \<notin> set buf \<Longrightarrow> drain_lines buf = ([], buf)"
  by (subst drain_lines.simps) (auto simp: split_once_Some split: option.split)

lemma drain_line: "LF \<notin> set l \<Longrightarrow> drain_lines (l @ LF # rest) =
    (trim l # fst (drain_lines rest), snd (drain_lines rest))"
  by (subst drain_lines.simps) (simp add: split_once_append split: prod.split)

lemma drain_left: "LF \<notin> set (snd (drain_lines buf))"
proof (induction buf rule: drain_lines.induct)
  case (1 buf)
  show ?case
  proof (cases "LF \<in> set buf")
    case True
    then obtain l rest where "buf = l @ LF # rest" "LF \<notin> set l" using split_list_first by metis
    then show ?thesis using 1 by (simp add: drain_line split_once_append)
  qed (simp add: drain_none)
qed

lemma drain_append:
  "drain_lines (a @ b) = (fst (drain_lines a) @ fst (drain_lines (snd (drain_lines a) @ b)),
     snd (drain_lines (snd (drain_lines a) @ b)))"
proof (induction a rule: drain_lines.induct)
  case (1 a)
  show ?case
  proof (cases "LF \<in> set a")
    case True
    then obtain l rest where "a = l @ LF # rest" "LF \<notin> set l" using split_list_first by metis
    then show ?thesis using 1 by (simp add: drain_line split_once_append)
  qed (simp add: drain_none)
qed

lemma control_loop_reads:
  assumes "[] \<notin> set ss" "LF \<notin> set buf"
  shows "control_loop parse g (map (\<lambda>s. Chunk (str_bytes s)) ss) buf =
     concat (map (dispatch_control parse g) (fst (drain_lines (buf @ concat ss))))"
  using assms
proof (induction ss arbitrary: buf)
  case Nil
  then show ?case by (simp add: drain_none)
next
  case (Cons s ss)
  have "str_bytes s \<noteq> []" using Cons.prems(1) str_bytes_inject [of s "[]"] by auto
  moreover have "control_loop parse g (map (\<lambda>s. Chunk (str_bytes s)) ss) (snd (drain_lines (buf @ s))) =
      concat (map (dispatch_control parse g) (fst (drain_lines (snd (drain_lines (buf @ s)) @ concat ss))))"
    using Cons.IH Cons.prems(1) drain_left by simp
  ultimately show ?case
    using drain_append [of "buf @ s" "concat ss"] by (simp add: case_prod_unfold)
qed

lemma control_lines_drain:
  "drain_lines (concat (map (\<lambda>c. control_line (cmd_op c)) cs)) =
     (map (\<lambda>c. butlast (control_line (cmd_op c))) cs, [])"
proof (induction cs)
  case Nil
  show ?case by (simp add: drain_none)
next
  case (Cons c cs)
  let ?l = "butlast (control_line (cmd_op c))"
  have l: "control_line (cmd_op c) = ?l @ [LF]" "LF \<notin> set ?l" "trim ?l = ?l"
    by (cases c; simp add: control_line_def str_defs is_ws_def)+
  have "drain_lines ((?l @ [LF]) @ concat (map (\<lambda>c. control_line (cmd_op c)) cs)) =
      (?l # map (\<lambda>c. butlast (control_line (cmd_op c))) cs, [])"
    using drain_line [OF l(2)] l(3) Cons by simp
  then show ?case using l(1) by simp
qed

text \<open>C17: the control channel. Whatever the pieces in which the bytes that the host's
  supervisor wrote for the commands it took arrive at the guest, the guest sends the agent's
  process group exactly the signals of these commands, in order: a stop is SIGTERM and a later
  SIGKILL, a kill and a timeout SIGKILL, pause and resume SIGSTOP and SIGCONT. The
  hypothesis on the parser says that it reads a JSON object with one member.\<close>

theorem control_commands_reach_the_agent:
  assumes "\<And>c. parse (butlast (control_line (cmd_op c))) = Some (JObj [(''op'', JStr (cmd_op c))])"
    and "ss_loop E io_ok (ss_init adapter) ms = Some (st, brk)"
    and "[] \<notin> set chunks" "concat chunks = str_bytes (concat (ss_control st))"
  shows "\<exists>pre rest. ms = pre @ rest
    \<and> (if brk then \<exists>b r. rest = b # r \<and> (b = SOutDone \<or> b = SOutClosed) else rest = [])
    \<and> control_loop parse grace_secs (map Chunk chunks) [] = concat (map (op_action grace_secs) (ss_cmds pre))"
proof -
  obtain pre rest where pre: "ms = pre @ rest" "ss_control st = map (\<lambda>c. control_line (cmd_op c)) (ss_cmds pre)"
    and rest: "if brk then \<exists>b r. rest = b # r \<and> (b = SOutDone \<or> b = SOutClosed) else rest = []"
    using ss_loop_handled [OF assms(2)] by (auto simp: ss_handled_def ss_init_def)
  have "is_ascii (control_line (cmd_op c))" for c
    by (cases c) (simp_all add: control_line_def)
  then have "is_ascii (concat (ss_control st))"
    by (auto simp: pre is_ascii_def)
  from ascii_reads [OF this assms(4)]
  obtain ss where ss: "concat ss = concat (ss_control st)" "chunks = map str_bytes ss" by blast
  have d: "dispatch_control parse grace_secs (butlast (control_line (cmd_op c))) = op_action grace_secs c" for c
    unfolding dispatch_control_def assms(1) by (cases c) (simp_all add: get_str_def op_action_def)
  have "[] \<notin> set ss" using assms(3) imageI [of "[]" "set ss" str_bytes] by (auto simp: ss(2))
  then have "control_loop parse grace_secs (map Chunk chunks) [] =
      concat (map (dispatch_control parse grace_secs) (fst (drain_lines (concat ss))))"
    using control_loop_reads [of ss "[]"] by (simp add: ss(2) comp_def)
  also have "\<dots> = concat (map (op_action grace_secs) (ss_cmds pre))"
    unfolding ss(1) pre(2) control_lines_drain fst_conv map_map comp_def d by (rule refl)
  finally show ?thesis using pre(1) rest by blast
qed

definition op_parser :: "string \<Rightarrow> json option" where
  "op_parser l =
     map_option (\<lambda>c. JObj [(''op'', JStr (cmd_op c))])
       (find (\<lambda>c. butlast (control_line (cmd_op c)) = l) [Stop, Kill, Pause, Resume])"

theorem control_commands_reach_the_agent_witness:
  "control_loop op_parser 10
     (map Chunk [str_bytes (take 7 (control_line ''pause'')), str_bytes (drop 7 (control_line ''pause'') @ control_line ''stop'')]) []
   = [SignalGroup SigStop, SignalGroup SigTerm, KillAfter 10]"
proof -
  let ?E = "undefined :: adapter_env" and ?st = "ss_cmd Stop (ss_cmd Pause (ss_init ''x''))"
  have p: "op_parser (butlast (control_line (cmd_op c))) = Some (JObj [(''op'', JStr (cmd_op c))])" for c
    by (cases c) (simp_all add: op_parser_def control_line_def)
  have l: "ss_loop ?E (\<lambda>_. True) (ss_init ''x'') [SCmd Pause, SCmd Stop] = Some (?st, False)"
    by (simp add: ss_step_def)
  have c: "ss_control ?st = [control_line ''pause'', control_line ''stop'']"
    by (simp add: ss_init_def)
  let ?cs = "[str_bytes (take 7 (control_line ''pause'')),
    str_bytes (drop 7 (control_line ''pause'') @ control_line ''stop'')]"
  have n: "[] \<notin> set ?cs"
    using str_bytes_inject [of "[]"] by (simp add: control_line_def)
  have k: "concat ?cs = str_bytes (concat (ss_control ?st))"
    unfolding c concat.simps str_bytes_append [symmetric] append_Nil2 append_assoc [symmetric] append_take_drop_id
    by (rule refl)
  show ?thesis
    using control_commands_reach_the_agent [OF p l n k, of 10]
    by (simp add: ss_cmds_def map_filter_simps op_action_def del: control_loop.simps)
qed

end
