(* ===== verification/Traces.thy ===== *)
theory Traces
  imports Effects
begin

text \<open>
  Operations by the actions they ask for. The world answers an action \<open>x\<close> through \<open>V\<close> and
  records it; an operation emits the traces of a set when what it asks, of the actions that are
  \<open>shown\<close>, is one of them up to the step that fails, and all of it, with answers that are
  \<open>okay\<close>, when it succeeds. The clients are the start of the VM on the host and the
  boot of the guest.
\<close>

locale action_log =
  fixes V :: "'x \<Rightarrow> 'w \<Rightarrow> 'r \<times> 'w" and log :: "'w \<Rightarrow> ('x \<times> 'r) list"
    and shown :: "'x \<Rightarrow> bool" and okay :: "'x \<times> 'r \<Rightarrow> bool"
  assumes logged: "V a w = (r, w') \<Longrightarrow> log w' = log w @ [(a, r)]"
begin

text \<open>An operation asks for one of the traces, up to the step that fails.\<close>

definition emits :: "('w, 'e, 'a) act \<Rightarrow> 'x list set \<Rightarrow> bool" where
  "emits m X \<longleftrightarrow> (\<forall>w r w'. m w = (r, w') \<longrightarrow> (\<exists>ts. \<exists>xs \<in> X. log w' = log w @ ts
     \<and> prefix (filter shown (map fst ts)) xs
     \<and> (isl r \<or> filter shown (map fst ts) = xs \<and> list_all okay (filter (shown \<circ> fst) ts))))"

lemma emits_bind:
  assumes "emits m X" "\<And>a. emits (g a) Y" "Y \<noteq> {}"
  shows "emits (abind m g) {x @ y | x y. x \<in> X \<and> y \<in> Y}"
  unfolding emits_def
proof (intro allI impI)
  fix w r w'
  assume run: "abind m g w = (r, w')"
  obtain q w1 where q: "m w = (q, w1)" by fastforce
  then obtain ts xs where 1: "xs \<in> X" "log w1 = log w @ ts" "prefix (filter shown (map fst ts)) xs"
      "isl q \<or> filter shown (map fst ts) = xs \<and> list_all okay (filter (shown \<circ> fst) ts)"
    using assms(1) unfolding emits_def by meson
  show "\<exists>ts. \<exists>xs \<in> {x @ y | x y. x \<in> X \<and> y \<in> Y}. log w' = log w @ ts \<and> prefix (filter shown (map fst ts)) xs
     \<and> (isl r \<or> filter shown (map fst ts) = xs \<and> list_all okay (filter (shown \<circ> fst) ts))"
  proof (cases q)
    case (Inl e)
    obtain y where "y \<in> Y" using assms(3) by blast
    moreover have "prefix (filter shown (map fst ts)) (xs @ y)" using 1(3) by simp
    moreover have "isl r" "w1 = w'" using run q Inl by (auto simp: abind_def)
    ultimately show ?thesis using 1 by (intro exI [of _ ts] bexI [of _ "xs @ y"]) auto
  next
    case (Inr a)
    then have "g a w1 = (r, w')" using q run by (simp add: abind_def)
    then obtain us ys where 2: "ys \<in> Y" "log w' = log w1 @ us" "prefix (filter shown (map fst us)) ys"
      "isl r \<or> filter shown (map fst us) = ys \<and> list_all okay (filter (shown \<circ> fst) us)"
      using assms(2) unfolding emits_def by meson
    have "prefix (filter shown (map fst (ts @ us))) (xs @ ys)" using 1(4) 2(3) Inr by auto
    then show ?thesis using 1 2 Inr by (intro exI [of _ "ts @ us"] bexI [of _ "xs @ ys"]) auto
  qed
qed

lemma emits_ret: "emits (aret a) {[]}" "emits (afail e) {[]}"
  by (auto simp: emits_def intro: exI [of _ "[]"])

lemma emits_fail: "X \<noteq> {} \<Longrightarrow> emits (afail e) X"
  by (auto simp: emits_def intro: exI [of _ "[]"])

lemma emits_weaken: "emits m X \<Longrightarrow> X \<subseteq> Y \<Longrightarrow> emits m Y"
  unfolding emits_def by blast

lemma emits_prepend:
  assumes "emits m {x}" "\<And>a. emits (g a) Y" "Y \<noteq> {}"
  shows "emits (abind m g) ((@) x ` Y)"
  by (rule emits_weaken [OF emits_bind [OF assms]]) auto

lemma emits_aerr: "emits m X \<Longrightarrow> emits (aerr f m) X"
  unfolding emits_def aerr_def by (fastforce split: prod.splits sum.splits)

lemma emits_if: "(b \<Longrightarrow> emits m X) \<Longrightarrow> (\<not> b \<Longrightarrow> emits n X) \<Longrightarrow> emits (if b then m else n) X"
  by simp

lemma emits_single: "emits m {x} \<Longrightarrow> (\<And>a. emits (g a) {y}) \<Longrightarrow> emits (abind m g) {x @ y}"
  using emits_bind [of m "{x}" g "{y}"] by simp

lemma emits_after_silent:
  assumes "emits m {[]}" "\<And>a. emits (g a) {y}"
  shows "emits (abind m g) {y}"
  using emits_single [OF assms] by simp

lemma emits_step:
  assumes "\<And>w r w'. m w = (r, w') \<Longrightarrow> \<exists>q. V a w = (q, w') \<and> (isl r \<or> okay (a, q))" "shown a"
  shows "emits m {[a]}"
  unfolding emits_def
proof (intro allI impI)
  fix w r w'
  assume "m w = (r, w')"
  then obtain q where "V a w = (q, w')" "isl r \<or> okay (a, q)" using assms(1) by blast
  then show "\<exists>ts. \<exists>xs \<in> {[a]}. log w' = log w @ ts \<and> prefix (filter shown (map fst ts)) xs
     \<and> (isl r \<or> filter shown (map fst ts) = xs \<and> list_all okay (filter (shown \<circ> fst) ts))"
    using logged assms(2) by (intro exI [of _ "[(a, q)]"]) auto
qed

lemma emits_silent:
  assumes "\<And>w r w'. m w = (r, w') \<Longrightarrow> \<exists>q. V a w = (q, w')" "\<not> shown a"
  shows "emits m {[]}"
  unfolding emits_def
proof (intro allI impI)
  fix w r w'
  assume "m w = (r, w')"
  then obtain q where "V a w = (q, w')" using assms(1) by blast
  then show "\<exists>ts. \<exists>xs \<in> {[]}. log w' = log w @ ts \<and> prefix (filter shown (map fst ts)) xs
     \<and> (isl r \<or> filter shown (map fst ts) = xs \<and> list_all okay (filter (shown \<circ> fst) ts))"
    using logged assms(2) by (intro exI [of _ "[(a, q)]"]) auto
qed

text \<open>The statement that a client's theorem unfolds to.\<close>

lemma emitsD:
  assumes "emits m X" "m w = (r, w')"
  obtains ts xs where "xs \<in> X" "log w' = log w @ ts" "prefix (filter shown (map fst ts)) xs"
    "isl r \<or> filter shown (map fst ts) = xs \<and> list_all okay (filter (shown \<circ> fst) ts)"
  using assms unfolding emits_def by blast

end

end
