(* ===== verification/Firecracker.thy ===== *)
theory Firecracker
  imports Sandbox Traces
begin

text \<open>
  \<open>bunsen-core/src/firecracker.rs\<close>: the start of the VM over Firecracker's HTTP interface,
  and the extraction of the Workspace when it is gone. What the code asks of the system is a
  \<open>vm_action\<close>, answered by the parameter \<open>V\<close>; a handler that fails answers
  \<open>RErr\<close>; an accept that times out has failed. The printer of JSON and the lossy UTF-8 decoder are the parameters \<open>T\<close> and
  \<open>lossy\<close>. The causes of I/O errors are left out, their contexts are kept.
\<close>

section \<open>Requests\<close>

text \<open>The bodies have the fields of the structs in their order.\<close>

definition fc_machine_config :: "u32 \<Rightarrow> u32 \<Rightarrow> bool \<Rightarrow> json" where
  "fc_machine_config vcpu_count mem_size_mib smt =
     JObj [(''vcpu_count'', ju32 vcpu_count), (''mem_size_mib'', ju32 mem_size_mib), (''smt'', JBool smt)]"

definition fc_boot_source :: "string \<Rightarrow> string \<Rightarrow> json" where
  "fc_boot_source kernel_image_path boot_args =
     JObj [(''kernel_image_path'', JStr kernel_image_path), (''boot_args'', JStr boot_args)]"

definition fc_drive_config :: "string \<Rightarrow> string \<Rightarrow> bool \<Rightarrow> bool \<Rightarrow> json" where
  "fc_drive_config drive_id path_on_host is_root_device is_read_only =
     JObj [(''drive_id'', JStr drive_id), (''path_on_host'', JStr path_on_host),
           (''is_root_device'', JBool is_root_device), (''is_read_only'', JBool is_read_only)]"

definition fc_network_interface :: "string \<Rightarrow> string \<Rightarrow> string \<Rightarrow> json" where
  "fc_network_interface iface_id guest_mac host_dev_name =
     JObj [(''iface_id'', JStr iface_id), (''guest_mac'', JStr guest_mac), (''host_dev_name'', JStr host_dev_name)]"

definition fc_vsock_config :: "string \<Rightarrow> u32 \<Rightarrow> string \<Rightarrow> json" where
  "fc_vsock_config vsock_id guest_cid uds_path =
     JObj [(''vsock_id'', JStr vsock_id), (''guest_cid'', ju32 guest_cid), (''uds_path'', JStr uds_path)]"

definition fc_action_start :: json where
  "fc_action_start = JObj [(''action_type'', JStr ''InstanceStart'')]"

definition put_request :: "string \<Rightarrow> string \<Rightarrow> string" where
  "put_request path body =
     ''PUT '' @ path @ '' HTTP/1.1'' @ [CR, LF] @ ''Host: localhost'' @ [CR, LF]
     @ ''Content-Type: application/json'' @ [CR, LF]
     @ ''Content-Length: '' @ show_nat (length (str_bytes body)) @ [CR, LF]
     @ ''Accept: application/json'' @ [CR, LF] @ [CR, LF] @ body"

section \<open>Actions\<close>

datatype vm_action =
    RemoveDir string
  | CreateDir string
  | PathExists string
  | DirHasEntry string
  | Process "string list"
  | Listen string
  | CreateFile string
  | Spawn "string list"
  | Sleep nat
  | HttpRequest string string
  | Accept u32 nat
  | SendSpec string
  | HalfCloseSpec
  | HostConnect string string
  | DeadlinePassed

datatype vm_reply = ROk | RErr | RBool bool | RData bytes

datatype fc_error =
    FcContext string
  | FcFailed string
  | FcNoStatus
  | FcBadStatus
  | FcHeadersTooLong
  | FcHttp string u16 string
  | FcRejected string
  | FcIn string fc_error
  | FcOutOfFuel

type_synonym 'w vm_sys = "vm_action \<Rightarrow> 'w \<Rightarrow> vm_reply \<times> 'w"

definition vm_do :: "'w vm_sys \<Rightarrow> string \<Rightarrow> vm_action \<Rightarrow> ('w, fc_error, unit) act" where
  "vm_do V context a w = (case V a w of (RErr, w') \<Rightarrow> (Inl (FcContext context), w') | (_, w') \<Rightarrow> (Inr (), w'))"

definition vm_ask :: "'w vm_sys \<Rightarrow> string \<Rightarrow> vm_action \<Rightarrow> ('w, fc_error, bool) act" where
  "vm_ask V context a w =
     (case V a w of (RErr, w') \<Rightarrow> (Inl (FcContext context), w') | (RBool b, w') \<Rightarrow> (Inr b, w') | (_, w') \<Rightarrow> (Inr True, w'))"

text \<open>A process that is waited for; a failed start has the context, a failed end the message.\<close>

definition vm_process :: "'w vm_sys \<Rightarrow> string \<Rightarrow> string \<Rightarrow> string list \<Rightarrow> ('w, fc_error, unit) act" where
  "vm_process V context message args =
     abind (vm_ask V context (Process args)) (\<lambda>success. if success then aret () else afail (FcFailed message))"

section \<open>The HTTP client\<close>

text \<open>\<open>read_http_headers\<close>, byte by byte; what is left of the stream follows.\<close>

fun read_head :: "bytes \<Rightarrow> bytes \<Rightarrow> fc_error + (bytes \<times> bytes)" where
  "read_head buf [] = Inl (FcContext ''reading response byte'')"
| "read_head buf (b # rest) =
     (let buf' = buf @ [b] in
      if suffix [0x0D, 0x0A, 0x0D, 0x0A] buf' then Inr (buf', rest)
      else if 8192 < length buf' then Inl FcHeadersTooLong
      else read_head buf' rest)"

definition content_length_of :: "string \<Rightarrow> nat option" where
  "content_length_of l =
     (if prefix ''content-length:'' (ascii_lower l)
      then parse_uint (2 ^ 64) (trim (case split_once (CHR '':'') l of None \<Rightarrow> [] | Some (_, v) \<Rightarrow> v))
      else None)"

definition parse_head :: "string \<Rightarrow> fc_error + (u16 \<times> nat)" where
  "parse_head t =
     (case str_lines t of
        [] \<Rightarrow> Inl FcNoStatus
      | status_line # ls \<Rightarrow>
          (case split_whitespace status_line of
             _ # w # _ \<Rightarrow>
               (case parse_uint (2 ^ 16) w of
                  None \<Rightarrow> Inl FcBadStatus
                | Some status \<Rightarrow>
                    Inr (word_of_nat status,
                      case List.map_filter content_length_of ls of [] \<Rightarrow> 0 | n # _ \<Rightarrow> n))
           | _ \<Rightarrow> Inl FcNoStatus))"

definition read_http_headers :: "(bytes \<Rightarrow> string) \<Rightarrow> bytes \<Rightarrow> fc_error + (u16 \<times> nat \<times> bytes \<times> bytes)" where
  "read_http_headers lossy stream =
     rbind (read_head [] stream) (\<lambda>(buf, rest).
     rbind (parse_head (lossy buf)) (\<lambda>(status, content_length).
     Inr (status, content_length, buf, rest)))"

definition put_response :: "(bytes \<Rightarrow> string) \<Rightarrow> string \<Rightarrow> bytes \<Rightarrow> fc_error + unit" where
  "put_response lossy path stream =
     rbind (case read_http_headers lossy stream of
         Inl _ \<Rightarrow> Inl (FcContext (''read Firecracker response headers for PUT '' @ path))
       | Inr r \<Rightarrow> Inr r) (\<lambda>(status, content_length, header_bytes, rest).
     if length rest < content_length then Inl (FcContext ''read_exact'')
     else let resp_body = lossy (take content_length rest) in
       if 400 \<le> status then Inl (FcHttp path status (if resp_body = [] then lossy header_bytes else resp_body))
       else Inr ())"

definition fc_put :: "'w vm_sys \<Rightarrow> (bytes \<Rightarrow> string) \<Rightarrow> string \<Rightarrow> string \<Rightarrow> string \<Rightarrow> ('w, fc_error, unit) act" where
  "fc_put V lossy socket path body w =
     (case V (HttpRequest socket (put_request path body)) w of
        (RData response, w') \<Rightarrow> (put_response lossy path response, w')
      | (_, w') \<Rightarrow> (Inl (FcContext (''connect to Firecracker API socket '' @ socket)), w'))"

section \<open>The start of the VM\<close>

definition configure_vm ::
  "'w vm_sys \<Rightarrow> (json \<Rightarrow> string) \<Rightarrow> (bytes \<Rightarrow> string) \<Rightarrow> string option \<Rightarrow> string \<Rightarrow> sandbox_config
     \<Rightarrow> string \<Rightarrow> string \<Rightarrow> string \<Rightarrow> ('w, fc_error, unit) act" where
  "configure_vm V T lossy init_debug api_socket config workspace_ext4 vsock_path tap_name =
     (let put = (\<lambda>path body. fc_put V lossy api_socket path (T body)) in
      abind (put ''/machine-config'' (fc_machine_config (sc_vcpus config) (sc_mem_mib config) False)) (\<lambda>_.
      abind (put ''/boot-source'' (fc_boot_source (sc_kernel_path config) (build_boot_args init_debug))) (\<lambda>_.
      abind (put ''/drives/rootfs'' (fc_drive_config ''rootfs'' (sc_rootfs_path config) True True)) (\<lambda>_.
      abind (put ''/drives/workspace'' (fc_drive_config ''workspace'' workspace_ext4 False False)) (\<lambda>_.
      abind (put ''/network-interfaces/eth0'' (fc_network_interface ''eth0'' ''AA:FC:00:00:00:01'' tap_name)) (\<lambda>_.
      abind (put ''/vsock'' (fc_vsock_config ''vsock0'' 3 vsock_path)) (\<lambda>_.
      aret ())))))))"

definition create_workspace_ext4_from_dir ::
  "'w vm_sys \<Rightarrow> string \<Rightarrow> string \<Rightarrow> u32 \<Rightarrow> ('w, fc_error, unit) act" where
  "create_workspace_ext4_from_dir V path source_dir size_mib =
     abind (vm_ask V ''exists'' (PathExists source_dir)) (\<lambda>there.
     abind (if there then vm_ask V ''read_dir'' (DirHasEntry source_dir) else aret False) (\<lambda>has_content.
     if has_content
     then vm_process V ''mkfs.ext4 -d'' ''mkfs.ext4 -d failed''
            [''mkfs.ext4'', ''-F'', ''-d'', source_dir, ''-b'', ''4096'', path, show_nat (unat size_mib) @ ''M'']
     else abind (vm_process V ''dd workspace'' ''dd workspace failed''
            [''dd'', ''if=/dev/zero'', ''of='' @ path, ''bs=1M'', ''count='' @ show_nat (unat size_mib)]) (\<lambda>_.
          vm_process V ''mkfs.ext4'' ''mkfs.ext4 failed'' [''mkfs.ext4'', ''-q'', path])))"

definition FIRECRACKER_READY_RETRIES :: nat where "FIRECRACKER_READY_RETRIES = 50"
definition FIRECRACKER_READY_DELAY_MS :: nat where "FIRECRACKER_READY_DELAY_MS = 100"

fun wait_for_api_socket :: "'w vm_sys \<Rightarrow> nat \<Rightarrow> string \<Rightarrow> ('w, fc_error, unit) act" where
  "wait_for_api_socket V 0 path = afail (FcFailed ''Firecracker API socket did not appear'')"
| "wait_for_api_socket V (Suc n) path =
     abind (vm_ask V ''exists'' (PathExists path)) (\<lambda>there.
     if there then aret ()
     else abind (vm_do V ''sleep'' (Sleep FIRECRACKER_READY_DELAY_MS)) (\<lambda>_. wait_for_api_socket V n path))"

text \<open>The loop ends at its deadline, 2 s after its start, and sleeps 50 ms after a rejected
  attempt; the first argument is the fuel, of which 41 attempts are enough
  (\<open>control_connection_ends\<close>).\<close>

definition CONNECT_ATTEMPTS :: nat where "CONNECT_ATTEMPTS = 41"

fun connect_host_to_guest :: "'w vm_sys \<Rightarrow> nat \<Rightarrow> string \<Rightarrow> u32 \<Rightarrow> ('w, fc_error, unit) act" where
  "connect_host_to_guest V 0 vsock_uds port = afail FcOutOfFuel"
| "connect_host_to_guest V (Suc n) vsock_uds port = (\<lambda>w.
     case V (HostConnect vsock_uds (''CONNECT '' @ show_nat (unat port) @ [LF])) w of
       (RData ack, w1) \<Rightarrow>
         (let reply = trim (unwrap_or [] (from_utf8 (take 64 ack))) in
          if prefix ''OK'' reply then (Inr (), w1)
          else abind (vm_ask V ''clock'' DeadlinePassed) (\<lambda>passed.
            if passed then afail (FcRejected reply)
            else abind (vm_do V ''sleep'' (Sleep 50)) (\<lambda>_. connect_host_to_guest V n vsock_uds port)) w1)
     | (_, w1) \<Rightarrow> (Inl (FcContext ''connect to vsock UDS''), w1))"

text \<open>\<open>start_firecracker\<close>; the result is the run directory, which the handle's \<open>Drop\<close>
  removes. The temporary directory of the system is \<open>tmp\<close>.\<close>

definition fc_run_dir :: "string \<Rightarrow> string \<Rightarrow> string" where
  "fc_run_dir tmp run_id = join_path tmp (''bunsen-fc-'' @ run_id)"

definition start_firecracker ::
  "'w vm_sys \<Rightarrow> (json \<Rightarrow> string) \<Rightarrow> (bytes \<Rightarrow> string) \<Rightarrow> string \<Rightarrow> string option \<Rightarrow> sandbox_config \<Rightarrow> string
     \<Rightarrow> ('w, fc_error, string) act" where
  "start_firecracker V T lossy tmp init_debug config firecracker_bin =
     (let run_dir = fc_run_dir tmp (sc_run_id config);
          api_socket = join_path run_dir ''api.sock'';
          vsock_path = join_path run_dir ''vsock.sock'';
          workspace_ext4 = join_path run_dir ''workspace.ext4'';
          tap_name = sc_tap_name config
      in
      abind (aor () (vm_do V ''remove run dir'' (RemoveDir run_dir))) (\<lambda>_.
      abind (vm_do V ''create firecracker run dir'' (CreateDir run_dir)) (\<lambda>_.
      abind (aerr (FcIn ''create workspace ext4'') (create_workspace_ext4_from_dir V workspace_ext4
               (sc_workspace_host_path config) (sc_workspace_disk_mib config))) (\<lambda>_.
      abind (vm_do V ''bind spec vsock listener'' (Listen (vsock_socket_path vsock_path VSOCK_SPEC_PORT))) (\<lambda>_.
      abind (vm_do V ''bind stdout vsock listener'' (Listen (vsock_socket_path vsock_path VSOCK_STDOUT_PORT))) (\<lambda>_.
      abind (vm_do V ''bind stderr vsock listener'' (Listen (vsock_socket_path vsock_path VSOCK_STDERR_PORT))) (\<lambda>_.
      abind (vm_do V ''create console log'' (CreateFile (join_path run_dir ''console.log''))) (\<lambda>_.
      abind (vm_do V ''create fc log'' (CreateFile (join_path run_dir ''firecracker.log''))) (\<lambda>_.
      abind (vm_do V ''spawn firecracker'' (Spawn [firecracker_bin, ''--api-sock'', api_socket])) (\<lambda>_.
      abind (aerr (FcIn ''Firecracker API socket did not appear'')
               (wait_for_api_socket V FIRECRACKER_READY_RETRIES api_socket)) (\<lambda>_.
      abind (aerr (FcIn ''configure Firecracker VM'')
               (configure_vm V T lossy init_debug api_socket config workspace_ext4 vsock_path tap_name)) (\<lambda>_.
      abind (aerr (FcIn ''Firecracker InstanceStart'') (fc_put V lossy api_socket ''/actions'' (T fc_action_start))) (\<lambda>_.
      abind (vm_do V ''accept spec vsock'' (Accept VSOCK_SPEC_PORT 30)) (\<lambda>_.
      abind (vm_do V ''write spec JSON to guest'' (SendSpec (T (sc_spec_json config)))) (\<lambda>_.
      abind (vm_do V ''half-close spec vsock so guest reads to EOF'' HalfCloseSpec) (\<lambda>_.
      abind (vm_do V ''accept stdout vsock'' (Accept VSOCK_STDOUT_PORT 30)) (\<lambda>_.
      abind (vm_do V ''accept stderr vsock'' (Accept VSOCK_STDERR_PORT 10)) (\<lambda>_.
      abind (aerr (FcIn ''connect control vsock'') (connect_host_to_guest V CONNECT_ATTEMPTS vsock_path VSOCK_CONTROL_PORT)) (\<lambda>_.
      aret run_dir)))))))))))))))))))"

section \<open>The extraction\<close>

datatype extract_error = ExFetch fetch_error | ExRdump string fetch_error | ExIo | ExCopy

fun rdump_all ::
  "'w host_ops \<Rightarrow> string \<Rightarrow> string \<Rightarrow> string list \<Rightarrow> ('w, extract_error, unit) act" where
  "rdump_all H ext4 tmp [] = aret ()"
| "rdump_all H ext4 tmp (sub # subs) =
     abind (aerr (ExRdump sub) (debugfs_rdump H ext4 (''/'' @ sub) tmp)) (\<lambda>_. rdump_all H ext4 tmp subs)"

text \<open>The destination of the history is a tree of its own beside the file system of the
  extraction, read and written through \<open>get\<close> and \<open>put\<close>.\<close>

definition extract_workspace_from_ext4 ::
  "'w host_ops \<Rightarrow> (fs_op \<Rightarrow> path \<Rightarrow> bool) \<Rightarrow> ('w \<Rightarrow> dest) \<Rightarrow> (dest \<Rightarrow> 'w \<Rightarrow> 'w) \<Rightarrow> string \<Rightarrow> string \<Rightarrow> string
     \<Rightarrow> string option \<Rightarrow> u32 \<Rightarrow> string \<Rightarrow> string option \<Rightarrow> ('w, extract_error, unit) act" where
  "extract_workspace_from_ext4 H ok get put ext4_path pool run_id output_branch user_script_uid adapter agent_history_dst =
     abind (aerr ExFetch (sandbox_fetch_from_ext4 H ok pool ext4_path run_id output_branch user_script_uid)) (\<lambda>_.
     case agent_history_dst of
       None \<Rightarrow> aret ()
     | Some hist_dst \<Rightarrow>
         abind (apure (ho_tempdir H)) (\<lambda>tmp. case tmp of None \<Rightarrow> afail ExIo | Some tmp_path \<Rightarrow>
         abind (rdump_all H ext4_path tmp_path (agent_history_subpaths adapter)) (\<lambda>_. \<lambda>w.
           case scrub_extracted_tree ok (ho_fs H w) (path_comps tmp_path) of
             (s, fs') \<Rightarrow>
               let w1 = ho_set_fs H fs' w in
               if \<not> s then (Inl ExIo, w1)
               else (case copy_agent_history_narrow ok fs' adapter (path_comps tmp_path) (path_comps hist_dst) (get w1) of
                   (c, d) \<Rightarrow> (if c then (Inr (), put d w1) else (Inl ExCopy, put d w1))))))"

section \<open>What the start asks of the system\<close>

text \<open>The script of a start: the image, with the content of the Workspace or empty, the
  listeners before the VM's process, the six settings before \<open>InstanceStart\<close>, and the
  specification before the output channels.\<close>

definition settings :: "(json \<Rightarrow> string) \<Rightarrow> string option \<Rightarrow> string \<Rightarrow> sandbox_config \<Rightarrow> vm_action list" where
  "settings T init_debug run_dir config =
     map (\<lambda>(path, body). HttpRequest (join_path run_dir ''api.sock'') (put_request path (T body)))
       [(''/machine-config'', fc_machine_config (sc_vcpus config) (sc_mem_mib config) False),
        (''/boot-source'', fc_boot_source (sc_kernel_path config) (build_boot_args init_debug)),
        (''/drives/rootfs'', fc_drive_config ''rootfs'' (sc_rootfs_path config) True True),
        (''/drives/workspace'', fc_drive_config ''workspace'' (join_path run_dir ''workspace.ext4'') False False),
        (''/network-interfaces/eth0'', fc_network_interface ''eth0'' ''AA:FC:00:00:00:01'' (sc_tap_name config)),
        (''/vsock'', fc_vsock_config ''vsock0'' 3 (join_path run_dir ''vsock.sock''))]"

definition image_script :: "string \<Rightarrow> string \<Rightarrow> u32 \<Rightarrow> bool \<Rightarrow> vm_action list" where
  "image_script path source_dir size_mib has_content =
     (if has_content
      then [Process [''mkfs.ext4'', ''-F'', ''-d'', source_dir, ''-b'', ''4096'', path, show_nat (unat size_mib) @ ''M'']]
      else [Process [''dd'', ''if=/dev/zero'', ''of='' @ path, ''bs=1M'', ''count='' @ show_nat (unat size_mib)],
            Process [''mkfs.ext4'', ''-q'', path]])"

definition start_script ::
  "(json \<Rightarrow> string) \<Rightarrow> string \<Rightarrow> string option \<Rightarrow> sandbox_config \<Rightarrow> string \<Rightarrow> bool \<Rightarrow> vm_action list" where
  "start_script T tmp init_debug config firecracker_bin has_content =
     (let run_dir = fc_run_dir tmp (sc_run_id config);
          vsock = (\<lambda>port. vsock_socket_path (join_path run_dir ''vsock.sock'') port)
      in [RemoveDir run_dir, CreateDir run_dir]
         @ image_script (join_path run_dir ''workspace.ext4'') (sc_workspace_host_path config)
             (sc_workspace_disk_mib config) has_content
         @ [Listen (vsock VSOCK_SPEC_PORT), Listen (vsock VSOCK_STDOUT_PORT), Listen (vsock VSOCK_STDERR_PORT),
            CreateFile (join_path run_dir ''console.log''), CreateFile (join_path run_dir ''firecracker.log''),
            Spawn [firecracker_bin, ''--api-sock'', join_path run_dir ''api.sock'']]
         @ settings T init_debug run_dir config
         @ [HttpRequest (join_path run_dir ''api.sock'') (put_request ''/actions'' (T fc_action_start)),
            Accept VSOCK_SPEC_PORT 30, SendSpec (T (sc_spec_json config)), HalfCloseSpec,
            Accept VSOCK_STDOUT_PORT 30, Accept VSOCK_STDERR_PORT 10])"

text \<open>The questions and waits of the polling loops are left out of a trace.\<close>

fun essential :: "vm_action \<Rightarrow> bool" where
  "essential (PathExists _) = False"
| "essential (DirHasEntry _) = False"
| "essential (Sleep _) = False"
| "essential DeadlinePassed = False"
| "essential (HostConnect _ _) = False"
| "essential _ = True"

text \<open>An answer with which the code goes on.\<close>

fun accepted :: "(bytes \<Rightarrow> string) \<Rightarrow> vm_action \<times> vm_reply \<Rightarrow> bool" where
  "accepted lossy (HttpRequest _ _, RData response) \<longleftrightarrow> put_response lossy [] response = Inr ()"
| "accepted lossy (Process _, reply) \<longleftrightarrow> reply \<noteq> RErr \<and> reply \<noteq> RBool False"
| "accepted lossy (RemoveDir _, reply) \<longleftrightarrow> True"
| "accepted lossy (_, reply) \<longleftrightarrow> reply \<noteq> RErr"

locale vm_log = action_log V log essential "accepted lossy"
  for V :: "'w vm_sys" and log :: "'w \<Rightarrow> (vm_action \<times> vm_reply) list" and lossy :: "bytes \<Rightarrow> string"
begin

lemma vm_do_emits:
  "essential a \<Longrightarrow> (\<And>x. a \<noteq> Process x) \<Longrightarrow> (\<And>x y. a \<noteq> HttpRequest x y) \<Longrightarrow> emits (vm_do V c a) {[a]}"
  by (rule emits_step, cases a) (auto simp: vm_do_def split: prod.splits vm_reply.splits)

lemma vm_do_silent: "\<not> essential a \<Longrightarrow> emits (vm_do V c a) {[]}" "\<not> essential a \<Longrightarrow> emits (vm_ask V c a) {[]}"
  by (rule emits_silent; force simp: vm_do_def vm_ask_def split: prod.splits vm_reply.splits)+

lemma remove_emits: "emits (aor () (vm_do V c (RemoveDir d))) {[RemoveDir d]}"
  by (rule emits_step) (auto simp: aor_def vm_do_def split: prod.splits sum.splits vm_reply.splits)

lemma process_emits: "emits (vm_process V c f args) {[Process args]}"
  by (rule emits_step) (auto simp: vm_process_def vm_ask_def abind_def split: prod.splits sum.splits vm_reply.splits if_splits)

lemma put_response_path: "put_response lossy path r = Inr () \<longleftrightarrow> put_response lossy [] r = Inr ()"
  by (auto simp: put_response_def Let_def rbind_def split: sum.splits prod.splits if_splits)

lemma fc_put_emits: "emits (fc_put V lossy socket path body) {[HttpRequest socket (put_request path body)]}"
proof (rule emits_step)
  fix w r w'
  assume "fc_put V lossy socket path body w = (r, w')"
  then show "\<exists>q. V (HttpRequest socket (put_request path body)) w = (q, w')
      \<and> (isl r \<or> accepted lossy (HttpRequest socket (put_request path body), q))"
    using put_response_path [of path]
    by (cases r) (auto simp: fc_put_def split: prod.splits vm_reply.splits)
qed simp

lemma wait_emits: "emits (wait_for_api_socket V n path) {[]}"
proof (induction n)
  case (Suc n)
  show ?case
    unfolding wait_for_api_socket.simps
    by (intro emits_after_silent emits_if emits_ret vm_do_silent Suc) simp_all
qed (simp only: wait_for_api_socket.simps emits_ret)

lemma connect_emits: "emits (connect_host_to_guest V n uds port) {[]}"
proof (induction n)
  case 0
  show ?case by (simp only: connect_host_to_guest.simps emits_ret)
next
  case (Suc n)
  let ?ask = "vm_ask V ''clock'' DeadlinePassed"
  let ?more = "\<lambda>reply passed. if passed then afail (FcRejected reply)
      else abind (vm_do V ''sleep'' (Sleep 50)) (\<lambda>_. connect_host_to_guest V n uds port)"
  let ?req = "HostConnect uds (''CONNECT '' @ show_nat (unat port) @ [LF])"
  let ?first = "\<lambda>w. case V ?req w of (RData ack, w1) \<Rightarrow> (Inr ack, w1) | (_, w1) \<Rightarrow> (Inl (FcContext ''connect to vsock UDS''), w1)"
  have first: "emits ?first {[]}"
    by (rule emits_silent [of _ ?req]) (force split: prod.splits vm_reply.splits)+
  have "connect_host_to_guest V (Suc n) uds port = abind ?first (\<lambda>ack.
      if prefix ''OK'' (trim (unwrap_or [] (from_utf8 (take 64 ack)))) then aret ()
      else abind ?ask (?more (trim (unwrap_or [] (from_utf8 (take 64 ack))))))"
    by (auto simp: fun_eq_iff abind_def aret_def Let_def split: prod.split vm_reply.split)
  then show ?case
    by (simp only:) (intro emits_after_silent [OF first] emits_if emits_ret emits_after_silent vm_do_silent Suc, simp_all)
qed

lemma image_emits:
  "emits (create_workspace_ext4_from_dir V path src mib) (range (image_script path src mib))"
proof -
  let ?has = "\<lambda>there. if there then vm_ask V ''read_dir'' (DirHasEntry src) else aret False"
  let ?make = "\<lambda>has_content. if has_content
      then vm_process V ''mkfs.ext4 -d'' ''mkfs.ext4 -d failed''
            [''mkfs.ext4'', ''-F'', ''-d'', src, ''-b'', ''4096'', path, show_nat (unat mib) @ ''M'']
      else abind (vm_process V ''dd workspace'' ''dd workspace failed''
            [''dd'', ''if=/dev/zero'', ''of='' @ path, ''bs=1M'', ''count='' @ show_nat (unat mib)]) (\<lambda>_.
          vm_process V ''mkfs.ext4'' ''mkfs.ext4 failed'' [''mkfs.ext4'', ''-q'', path])"
  have 1: "emits (?make b) {image_script path src mib b}" for b
  proof (cases b)
    case False
    have "emits (?make False) {[Process [''dd'', ''if=/dev/zero'', ''of='' @ path, ''bs=1M'', ''count='' @ show_nat (unat mib)]]
        @ [Process [''mkfs.ext4'', ''-q'', path]]}"
      unfolding if_False by (intro emits_single process_emits)
    then show ?thesis using False by (simp add: image_script_def)
  qed (use process_emits in \<open>simp add: image_script_def\<close>)
  have 2: "emits (?make b) (range (image_script path src mib))" for b
    by (rule emits_weaken [OF 1]) blast
  have h: "emits (?has there) {[]}" for there
    by (intro emits_if vm_do_silent emits_ret) simp
  have 3: "emits (abind (?has there) ?make) {x @ y | x y. x \<in> {[]} \<and> y \<in> range (image_script path src mib)}" for there
    by (rule emits_bind [OF h 2]) simp
  have a: "emits (vm_ask V ''exists'' (PathExists src)) {[]}" by (intro vm_do_silent) simp
  have 4: "emits (abind (vm_ask V ''exists'' (PathExists src)) (\<lambda>there. abind (?has there) ?make))
      {x @ y | x y. x \<in> {[]} \<and> y \<in> {x @ y | x y. x \<in> {[]} \<and> y \<in> range (image_script path src mib)}}"
    by (rule emits_bind [OF a 3]) blast
  show ?thesis unfolding create_workspace_ext4_from_dir_def by (rule emits_weaken [OF 4]) auto
qed

lemma configure_emits:
  "emits (configure_vm V T lossy init_debug (join_path rd ''api.sock'') config (join_path rd ''workspace.ext4'')
     (join_path rd ''vsock.sock'') (sc_tap_name config)) {settings T init_debug rd config}"
proof -
  let ?r = "\<lambda>path body. [HttpRequest (join_path rd ''api.sock'') (put_request path (T body))]"
  have "emits (configure_vm V T lossy init_debug (join_path rd ''api.sock'') config (join_path rd ''workspace.ext4'')
       (join_path rd ''vsock.sock'') (sc_tap_name config))
     {?r ''/machine-config'' (fc_machine_config (sc_vcpus config) (sc_mem_mib config) False) @
      (?r ''/boot-source'' (fc_boot_source (sc_kernel_path config) (build_boot_args init_debug)) @
      (?r ''/drives/rootfs'' (fc_drive_config ''rootfs'' (sc_rootfs_path config) True True) @
      (?r ''/drives/workspace'' (fc_drive_config ''workspace'' (join_path rd ''workspace.ext4'') False False) @
      (?r ''/network-interfaces/eth0'' (fc_network_interface ''eth0'' ''AA:FC:00:00:00:01'' (sc_tap_name config)) @
      (?r ''/vsock'' (fc_vsock_config ''vsock0'' 3 (join_path rd ''vsock.sock'')) @ [])))))}"
    unfolding configure_vm_def Let_def by (intro emits_single fc_put_emits emits_ret)
  then show ?thesis by (simp add: settings_def)
qed

lemma start_emits:
  "emits (start_firecracker V T lossy tmp init_debug config bin) (range (start_script T tmp init_debug config bin))"
proof -
  let ?rd = "fc_run_dir tmp (sc_run_id config)"
  let ?image = "image_script (join_path ?rd ''workspace.ext4'') (sc_workspace_host_path config) (sc_workspace_disk_mib config)"
  let ?vs = "\<lambda>port. vsock_socket_path (join_path ?rd ''vsock.sock'') port"
  let ?tail = "[Listen (?vs VSOCK_SPEC_PORT)] @ [Listen (?vs VSOCK_STDOUT_PORT)] @ [Listen (?vs VSOCK_STDERR_PORT)] @
     [CreateFile (join_path ?rd ''console.log'')] @ [CreateFile (join_path ?rd ''firecracker.log'')] @
     [Spawn [bin, ''--api-sock'', join_path ?rd ''api.sock'']] @ [] @ settings T init_debug ?rd config @
     [HttpRequest (join_path ?rd ''api.sock'') (put_request ''/actions'' (T fc_action_start))] @
     [Accept VSOCK_SPEC_PORT 30] @ [SendSpec (T (sc_spec_json config))] @ [HalfCloseSpec] @
     [Accept VSOCK_STDOUT_PORT 30] @ [Accept VSOCK_STDERR_PORT 10] @ [] @ []"
  have "emits (start_firecracker V T lossy tmp init_debug config bin)
     {x @ y | x y. x \<in> {[RemoveDir ?rd]} \<and> y \<in> {x @ y | x y. x \<in> {[CreateDir ?rd]} \<and>
        y \<in> {x @ y | x y. x \<in> range ?image \<and> y \<in> {?tail}}}}"
    unfolding start_firecracker_def Let_def
    by (intro emits_bind emits_single emits_aerr remove_emits image_emits vm_do_emits wait_emits configure_emits fc_put_emits
        connect_emits emits_ret) auto
  moreover have "start_script T tmp init_debug config bin b = [RemoveDir ?rd] @ [CreateDir ?rd] @ ?image b @ ?tail" for b
    by (simp add: start_script_def Let_def)
  ultimately show ?thesis by (elim emits_weaken) auto
qed

end

section \<open>A VM that keeps a log\<close>

definition logging_vm :: "(vm_action \<Rightarrow> vm_reply) \<Rightarrow> (vm_action \<times> vm_reply) list vm_sys" where
  "logging_vm answer a w = (answer a, w @ [(a, answer a)])"

definition no_content :: string where
  "no_content = ''HTTP/1.1 204 '' @ [CR, LF, CR, LF]"

definition healthy_vm :: "vm_action \<Rightarrow> vm_reply" where
  "healthy_vm a =
     (case a of
        PathExists _ \<Rightarrow> RBool True
      | DirHasEntry _ \<Rightarrow> RBool True
      | Process _ \<Rightarrow> RBool True
      | HttpRequest _ _ \<Rightarrow> RData (str_bytes no_content)
      | HostConnect _ _ \<Rightarrow> RData (str_bytes (''OK 1024'' @ [LF]))
      | _ \<Rightarrow> ROk)"

abbreviation plain_text :: "bytes \<Rightarrow> string" where
  "plain_text bs \<equiv> unwrap_or [] (from_utf8 bs)"

interpretation healthy: vm_log "logging_vm healthy_vm" "\<lambda>w. w" plain_text
  by unfold_locales (simp add: logging_vm_def)

lemma start_run_dir:
  "start_firecracker V T lossy tmp init_debug config bin w = (Inr d, w') \<Longrightarrow> d = fc_run_dir tmp (sc_run_id config)"
  unfolding start_firecracker_def Let_def abind_Inr by (elim exE conjE) simp


definition example_config :: sandbox_config where
  "example_config =
     \<lparr> sc_kernel_path = ''/k'', sc_rootfs_path = ''/r'', sc_workspace_host_path = ''/w'', sc_spec_json = JNull,
       sc_vcpus = 2, sc_mem_mib = 512, sc_workspace_disk_mib = 64, sc_run_id = ''r1'', sc_tap_name = ''t1'' \<rparr>"

lemma response_204: "put_response plain_text path (str_bytes no_content) = Inr ()"
proof -
  have 1: "read_head [] (str_bytes no_content) = Inr (str_bytes no_content, [])"
    by code_simp
  have 2: "parse_head no_content = Inr (204, 0)"
    by code_simp
  show ?thesis
    by (simp add: put_response_def read_http_headers_def 1 2)
qed

definition succeeds :: "('w, 'e, 'a) act \<Rightarrow> bool" where
  "succeeds m \<longleftrightarrow> (\<forall>w. \<not> isl (fst (m w)))"

lemma succeeds_intros:
  "succeeds (aret a)" "succeeds m \<Longrightarrow> (\<And>a. succeeds (g a)) \<Longrightarrow> succeeds (abind m g)" "succeeds (aor d n)"
  "succeeds m \<Longrightarrow> succeeds (aerr f m)"
proof -
  show "succeeds (abind m g)" if m: "succeeds m" and g: "\<And>a. succeeds (g a)"
    unfolding succeeds_def
  proof
    fix w
    obtain q w1 where "m w = (q, w1)" by fastforce
    moreover have "\<not> isl q" using m calculation unfolding succeeds_def by (metis fst_conv)
    ultimately show "\<not> isl (fst (abind m g w))"
      using g by (cases q) (auto simp: abind_def succeeds_def)
  qed
  show "succeeds m \<Longrightarrow> succeeds (aerr f m)"
    unfolding succeeds_def aerr_def by (simp add: isl_def split: prod.split sum.split) (metis fst_conv)
qed (auto simp: succeeds_def aor_def split: prod.split sum.split)

lemma succeeds_if: "(b \<Longrightarrow> succeeds m) \<Longrightarrow> (\<not> b \<Longrightarrow> succeeds n) \<Longrightarrow> succeeds (if b then m else n)"
  by simp

lemma healthy_steps:
  "healthy_vm a \<noteq> RErr \<Longrightarrow> succeeds (vm_do (logging_vm healthy_vm) c a)"
  "healthy_vm a \<noteq> RErr \<Longrightarrow> succeeds (vm_ask (logging_vm healthy_vm) c a)"
  "succeeds (vm_process (logging_vm healthy_vm) c f args)"
  "succeeds (fc_put (logging_vm healthy_vm) plain_text socket path body)"
  "succeeds (wait_for_api_socket (logging_vm healthy_vm) FIRECRACKER_READY_RETRIES socket)"
  "succeeds (connect_host_to_guest (logging_vm healthy_vm) CONNECT_ATTEMPTS uds port)"
proof -
  have t: "trim (unwrap_or [] (from_utf8 (take 64 (str_bytes (''OK 1024'' @ [LF]))))) = ''OK 1024''"
    by code_simp
  show "healthy_vm a \<noteq> RErr \<Longrightarrow> succeeds (vm_do (logging_vm healthy_vm) c a)"
    by (auto simp: succeeds_def vm_do_def logging_vm_def split: vm_reply.split)
  show "healthy_vm a \<noteq> RErr \<Longrightarrow> succeeds (vm_ask (logging_vm healthy_vm) c a)"
    by (auto simp: succeeds_def vm_ask_def logging_vm_def split: vm_reply.split)
  show "succeeds (vm_process (logging_vm healthy_vm) c f args)"
    by (simp add: succeeds_def vm_process_def vm_ask_def abind_def logging_vm_def healthy_vm_def)
  show "succeeds (fc_put (logging_vm healthy_vm) plain_text socket path body)"
    by (simp add: succeeds_def fc_put_def logging_vm_def healthy_vm_def response_204)
  have w: "succeeds (wait_for_api_socket (logging_vm healthy_vm) (Suc n) socket)" for n
    by (simp add: succeeds_def vm_ask_def abind_def logging_vm_def healthy_vm_def)
  have c: "succeeds (connect_host_to_guest (logging_vm healthy_vm) (Suc n) uds port)" for n
    unfolding succeeds_def connect_host_to_guest.simps logging_vm_def healthy_vm_def prod.case vm_action.case
      vm_reply.case t Let_def by simp
  show "succeeds (wait_for_api_socket (logging_vm healthy_vm) FIRECRACKER_READY_RETRIES socket)"
    using w [of 49] by (simp only: FIRECRACKER_READY_RETRIES_def eval_nat_numeral BitM.simps)
  show "succeeds (connect_host_to_guest (logging_vm healthy_vm) CONNECT_ATTEMPTS uds port)"
    using c [of 40] by (simp only: CONNECT_ATTEMPTS_def eval_nat_numeral BitM.simps)
qed

lemma healthy_start: "succeeds (start_firecracker (logging_vm healthy_vm) T plain_text tmp None config bin)"
  unfolding start_firecracker_def Let_def configure_vm_def create_workspace_ext4_from_dir_def
  by (intro succeeds_intros succeeds_if healthy_steps) (simp_all add: healthy_vm_def)


section \<open>The control connection\<close>

lemma connect_enough_fuel:
  assumes ask: "\<And>v. \<exists>v'. V DeadlinePassed v = (RBool (deadline \<le> clock v), v') \<and> clock v \<le> clock v'"
    and sleep: "\<And>v r v'. V (Sleep 50) v = (r, v') \<Longrightarrow> clock v + 50 \<le> clock v'"
    and conn: "\<And>v r v'. V (HostConnect uds line) v = (r, v') \<Longrightarrow> clock v \<le> clock v'"
    and line: "line = ''CONNECT '' @ show_nat (unat port) @ [LF]"
    and "deadline \<le> clock w + 50 * n"
  shows "connect_host_to_guest V (Suc n + k) uds port w = connect_host_to_guest V (Suc n) uds port w
    \<and> fst (connect_host_to_guest V (Suc n) uds port w) \<noteq> Inl FcOutOfFuel"
  using assms(5)
proof (induction n arbitrary: w)
  case 0
  obtain r v where 1: "V (HostConnect uds line) w = (r, v)" by (rule prod.exhaust)
  obtain v' where "V DeadlinePassed v = (RBool (deadline \<le> clock v), v')" using ask by blast
  moreover have "deadline \<le> clock v" using 0 conn [OF 1] by simp
  ultimately have 2: "V DeadlinePassed v = (RBool True, v')" by simp
  show ?case
    using 1 2 unfolding add_Suc connect_host_to_guest.simps line [symmetric]
    by (cases r) (auto simp: abind_def vm_ask_def Let_def)
next
  case (Suc n)
  obtain r v where 1: "V (HostConnect uds line) w = (r, v)" by (rule prod.exhaust)
  obtain v' where 2: "V DeadlinePassed v = (RBool (deadline \<le> clock v), v')" "clock v \<le> clock v'" using ask by blast
  obtain q u where 3: "V (Sleep 50) v' = (q, u)" by (rule prod.exhaust)
  have "deadline \<le> clock u + 50 * n" using Suc.prems conn [OF 1] 2(2) sleep [OF 3] by simp
  from Suc.IH [OF this] show ?case
    using 1 2(1) 3 unfolding add_Suc connect_host_to_guest.simps(2) [of V "Suc n"]
      connect_host_to_guest.simps(2) [of V "Suc (n + k)"] line [symmetric]
    by (cases r; cases q) (auto simp: abind_def vm_ask_def vm_do_def Let_def)
qed


text \<open>A guest that rejects every attempt: the loop sleeps 40 times.\<close>

definition rejecting_vm :: "nat vm_sys" where
  "rejecting_vm a w =
     (case a of
        Sleep ms \<Rightarrow> (ROk, w + ms)
      | DeadlinePassed \<Rightarrow> (RBool (2000 \<le> w), w)
      | _ \<Rightarrow> (RData (str_bytes ''no''), w))"


section \<open>The history of the agent\<close>

text \<open>\<open>debugfs\<close> dumps a directory under its last name, the copy looks for its whole path: the
  history of a sandboxed \<open>pi\<close> is never copied.\<close>

lemma pi_history_is_lost:
  "copy_agent_history_narrow ok (NDir m [(''tmp'', NDir m' [(''sessions'', n)])]) ''pi'' [''tmp''] dst d = (True, d)"
proof -
  have "path_comps ''.pi/agent/sessions'' = [''.pi'', ''agent'', ''sessions'']" by code_simp
  then show ?thesis
    by (simp add: copy_agent_history_narrow_def agent_history_subpaths_def copy_narrow_entry_def lstat_def
        MAX_LINKS_def eval_nat_numeral)
qed

end
