(* ===== verification/SandboxRun.thy ===== *)
theory SandboxRun
  imports Firecracker PrivilegedNet Dns GuestInit
begin

text \<open>
  \<open>bunsen-core/src/sandbox_run.rs\<close> with the guards of \<open>privileged_net.rs\<close>: one sandboxed
  Run from its TAP device to the extraction of its output. The operations of \<open>PrivilegedNet\<close>
  and \<open>Firecracker\<close> are composed as the source does; the listeners, the supervisor's loop and
  the adoption of sockets are parameters of \<open>run_sys\<close>, the first two modelled in their own
  theories. Texts on stderr are left out. The locale \<open>net_kernel\<close> states what \<open>ip\<close>,
  \<open>iptables\<close> and \<open>nft\<close> do.
\<close>

record run_texts =
  tx_json_text :: "json \<Rightarrow> string"
  tx_lossy :: "bytes \<Rightarrow> string"
  tx_tmp :: string
  tx_init_debug :: "string option"
  tx_show_net :: "net_error \<Rightarrow> string"
  tx_show_fc :: "fc_error \<Rightarrow> string"
  tx_show_extract :: "extract_error \<Rightarrow> string"

record dns_env =
  de_upstream_env :: "string option"
  de_parse_addr :: "string \<Rightarrow> (ip_addr \<times> u16) option"
  de_parse_v6 :: "string \<Rightarrow> u128 option"
  de_resolv_conf :: "string option"

record 'w run_disk =
  dk_host :: "'w host_ops"
  dk_fs_ok :: "fs_op \<Rightarrow> path \<Rightarrow> bool"
  dk_get_dest :: "'w \<Rightarrow> dest"
  dk_put_dest :: "dest \<Rightarrow> 'w \<Rightarrow> 'w"

record 'w run_tasks =
  tk_spawn_proxy :: "ipv4 \<Rightarrow> egress_policy \<Rightarrow> 'w \<Rightarrow> u16 option \<times> 'w"
  tk_adopt_socket :: "'w \<Rightarrow> bool \<times> 'w"
  tk_spawn_dns :: "ip_addr \<times> u16 \<Rightarrow> egress_policy \<Rightarrow> 'w \<Rightarrow> u16 option \<times> 'w"
  tk_take_stdout :: "'w \<Rightarrow> bool \<times> 'w"
  tk_adapt_stdout :: "'w \<Rightarrow> bool \<times> 'w"
  tk_spawn_pump :: "string \<Rightarrow> 'w \<Rightarrow> unit \<times> 'w"
  tk_supervise :: "run_spec \<Rightarrow> string \<Rightarrow> 'w \<Rightarrow> (string + unit) \<times> 'w"

record 'w run_sys =
  rn_net :: "'w net_ops"
  rn_vm :: "'w vm_sys"
  rn_texts :: run_texts
  rn_dns :: dns_env
  rn_disk :: "'w run_disk"
  rn_tasks :: "'w run_tasks"

abbreviation "rn_json_text M \<equiv> tx_json_text (rn_texts M)"
abbreviation "rn_lossy M \<equiv> tx_lossy (rn_texts M)"
abbreviation "rn_tmp M \<equiv> tx_tmp (rn_texts M)"
abbreviation "rn_init_debug M \<equiv> tx_init_debug (rn_texts M)"
abbreviation "rn_show_net M \<equiv> tx_show_net (rn_texts M)"
abbreviation "rn_show_fc M \<equiv> tx_show_fc (rn_texts M)"
abbreviation "rn_show_extract M \<equiv> tx_show_extract (rn_texts M)"
abbreviation "rn_upstream_env M \<equiv> de_upstream_env (rn_dns M)"
abbreviation "rn_parse_addr M \<equiv> de_parse_addr (rn_dns M)"
abbreviation "rn_parse_v6 M \<equiv> de_parse_v6 (rn_dns M)"
abbreviation "rn_resolv_conf M \<equiv> de_resolv_conf (rn_dns M)"
abbreviation "rn_host M \<equiv> dk_host (rn_disk M)"
abbreviation "rn_fs_ok M \<equiv> dk_fs_ok (rn_disk M)"
abbreviation "rn_get_dest M \<equiv> dk_get_dest (rn_disk M)"
abbreviation "rn_put_dest M \<equiv> dk_put_dest (rn_disk M)"
abbreviation "rn_spawn_proxy M \<equiv> tk_spawn_proxy (rn_tasks M)"
abbreviation "rn_adopt_socket M \<equiv> tk_adopt_socket (rn_tasks M)"
abbreviation "rn_spawn_dns M \<equiv> tk_spawn_dns (rn_tasks M)"
abbreviation "rn_take_stdout M \<equiv> tk_take_stdout (rn_tasks M)"
abbreviation "rn_adapt_stdout M \<equiv> tk_adapt_stdout (rn_tasks M)"
abbreviation "rn_spawn_pump M \<equiv> tk_spawn_pump (rn_tasks M)"
abbreviation "rn_supervise M \<equiv> tk_supervise (rn_tasks M)"

record pool_extraction =
  pe_pool :: string
  pe_output_branch :: "string option"
  pe_agent_history_dst :: "string option"
  pe_user_script_uid :: u32

datatype run_error = RunPanic | RunIo string

definition or_panic :: "'a option \<Rightarrow> ('w, run_error, 'a) act" where
  "or_panic x = (case x of None \<Rightarrow> afail RunPanic | Some a \<Rightarrow> aret a)"

definition dns_upstream :: "'w run_sys \<Rightarrow> ip_addr \<times> u16" where
  "dns_upstream M =
     (let fallback = default_dns_upstream (rn_parse_v6 M) (rn_resolv_conf M) in
      case rn_upstream_env M of
        Some s \<Rightarrow> (case rn_parse_addr M s of Some a \<Rightarrow> a | None \<Rightarrow> fallback)
      | None \<Rightarrow> fallback)"

text \<open>The port of the DNS listener, when it could be bound, adopted and started.\<close>

definition start_dns :: "'w run_sys \<Rightarrow> ipv4 \<Rightarrow> egress_policy \<Rightarrow> ('w, run_error, u16 option) act" where
  "start_dns M host policy =
     abind (aor None (abind (net_call (rn_net M) (BindDns host 53)) (\<lambda>r. aret (Some r)))) (\<lambda>bound.
     if bound = None then aret None
     else abind (apure (rn_adopt_socket M)) (\<lambda>adopted.
       if \<not> adopted then aret None else apure (rn_spawn_dns M (dns_upstream M) policy)))"

text \<open>Whether the Run's ruleset is loaded; without a proxy there is none.\<close>

definition load_rules :: "'w run_sys \<Rightarrow> string \<Rightarrow> string \<Rightarrow> ipv4 \<Rightarrow> u16 option \<Rightarrow> u16 option \<Rightarrow> ('w, run_error, bool) act" where
  "load_rules M nft_table tap_name host proxy_port dns_port =
     abind (aor Done (net_call (rn_net M) (DeleteNft nft_table))) (\<lambda>_.
     case proxy_port of
       None \<Rightarrow> aret False
     | Some port \<Rightarrow>
         aor False (abind (net_call (rn_net M) (ApplyNft (build_ruleset nft_table tap_name host port dns_port)))
           (\<lambda>_. aret True)))"

text \<open>Whether the pump of the drop log runs.\<close>

definition start_drop_log :: "'w run_sys \<Rightarrow> string \<Rightarrow> bool \<Rightarrow> ('w, run_error, bool) act" where
  "start_drop_log M nft_table nft_loaded =
     (if \<not> nft_loaded then aret False
      else abind (aor False (abind (net_call (rn_net M) SpawnJournalctl) (\<lambda>_. aret True))) (\<lambda>spawned.
        if \<not> spawned then aret False
        else abind (apure (rn_take_stdout M)) (\<lambda>piped.
          if \<not> piped then aret False
          else abind (apure (rn_adapt_stdout M)) (\<lambda>adapted.
            if \<not> adapted then aret False
            else abind (apure (rn_spawn_pump M nft_table)) (\<lambda>_. aret True)))))"

text \<open>From the running VM to its end: the supervisor, the extraction whatever it says, the
  removal of the table; the supervisor's error wins.\<close>

definition run_vm ::
  "'w run_sys \<Rightarrow> run_spec \<Rightarrow> string \<Rightarrow> string \<Rightarrow> pool_extraction option \<Rightarrow> string \<Rightarrow> ('w, run_error, unit) act" where
  "run_vm M spec run_id nft_table extraction run_dir w =
     (case rn_supervise M spec run_dir w of
        (supervisor_result, w1) \<Rightarrow>
      (case (case extraction of
               None \<Rightarrow> aret () w1
             | Some ext \<Rightarrow>
                 aerr (RunIo \<circ> rn_show_extract M)
                   (extract_workspace_from_ext4 (rn_host M) (rn_fs_ok M) (rn_get_dest M) (rn_put_dest M)
                     (join_path run_dir ''workspace.ext4'') (pe_pool ext) run_id (pe_output_branch ext)
                     (pe_user_script_uid ext) (rs_adapter spec) (pe_agent_history_dst ext)) w1) of
        (extraction_result, w2) \<Rightarrow>
      (case net_call (rn_net M) (DeleteNft nft_table) w2 of
        (_, w3) \<Rightarrow>
          (case supervisor_result of Inl e \<Rightarrow> (Inl (RunIo e), w3) | Inr _ \<Rightarrow> (extraction_result, w3)))))"

text \<open>The part of the Run inside the guards of the TAP device and its allow rule.\<close>

definition run_guarded ::
  "'w run_sys \<Rightarrow> string \<Rightarrow> string \<Rightarrow> string \<Rightarrow> run_spec \<Rightarrow> string \<Rightarrow> string \<Rightarrow> pool_extraction option
     \<Rightarrow> string \<Rightarrow> ('w, run_error, unit) act" where
  "run_guarded M kernel_path rootfs_path fc_bin spec run_id workspace_path extraction tap_name =
     (let net = derive_run_network run_id;
          policy = effective_egress_policy spec
      in
      abind (apure (rn_spawn_proxy M (net_host net) policy)) (\<lambda>proxy_port.
      abind (start_dns M (net_host net) policy) (\<lambda>dns_port.
      abind (or_panic (derive_table_name run_id)) (\<lambda>nft_table.
      abind (load_rules M nft_table tap_name (net_host net) proxy_port dns_port) (\<lambda>nft_loaded.
      abind (start_drop_log M nft_table nft_loaded) (\<lambda>_.
      let config =
        \<lparr> sc_kernel_path = kernel_path, sc_rootfs_path = rootfs_path, sc_workspace_host_path = workspace_path,
          sc_spec_json = build_sandbox_spec_json spec (map_option (Pair (net_host net)) proxy_port) (Some net),
          sc_vcpus = rs_vcpus spec, sc_mem_mib = rs_memory_mb spec, sc_workspace_disk_mib = rs_disk_mb spec,
          sc_run_id = run_id, sc_tap_name = tap_name \<rparr>
      in
      abind (aerr (RunIo \<circ> rn_show_fc M)
          (start_firecracker (rn_vm M) (rn_json_text M) (rn_lossy M) (rn_tmp M) (rn_init_debug M) config fc_bin))
        (\<lambda>run_dir.
        with_guard (rn_vm M (RemoveDir run_dir)) (run_vm M spec run_id nft_table extraction run_dir))))))))"

definition sandbox_run ::
  "'w run_sys \<Rightarrow> string \<Rightarrow> string \<Rightarrow> string option \<Rightarrow> bool \<Rightarrow> run_spec \<Rightarrow> string \<Rightarrow> string
     \<Rightarrow> pool_extraction option \<Rightarrow> string \<Rightarrow> ('w, run_error, unit) act" where
  "sandbox_run M kernel_path rootfs_path firecracker_bin manage_firewall spec run_id workspace_path extraction owner_user =
     (let fc_bin = unwrap_or ''firecracker'' firecracker_bin;
          net = derive_run_network run_id
      in
      abind (or_panic (derive_tap_name run_id)) (\<lambda>tap_name.
      abind (aor Done (net_call (rn_net M) (DeleteTap tap_name))) (\<lambda>_.
      abind (aerr (RunIo \<circ> rn_show_net M)
          (net_call (rn_net M) (CreateTap tap_name (net_host net) (net_prefix_len net) owner_user))) (\<lambda>_.
      with_guard (exec_delete_tap (rn_net M) tap_name)
       (if manage_firewall
        then abind (aor Done (net_call (rn_net M) (RemoveTapAllow tap_name))) (\<lambda>_.
             abind (aerr (RunIo \<circ> rn_show_net M) (net_call (rn_net M) (AddTapAllow tap_name))) (\<lambda>_.
             with_guard (exec_remove_tap_allow (rn_net M) tap_name)
               (run_guarded M kernel_path rootfs_path fc_bin spec run_id workspace_path extraction tap_name)))
        else run_guarded M kernel_path rootfs_path fc_bin spec run_id workspace_path extraction tap_name)))))"

section \<open>The network of the host\<close>

text \<open>The devices, the accept rules per device, and the tables.\<close>

record net_view =
  nv_taps :: "string set"
  nv_allow :: "string \<Rightarrow> nat"
  nv_tables :: "string set"

text \<open>What a command does when it succeeds; \<open>tables_of\<close> gives the tables of a ruleset.\<close>

definition net_effect :: "(string \<Rightarrow> string set) \<Rightarrow> string list \<Rightarrow> string \<Rightarrow> net_view \<Rightarrow> net_view" where
  "net_effect tables_of args input v =
     (if take 4 args = [''ip'', ''tuntap'', ''add'', ''dev''] then v \<lparr> nv_taps := insert (args ! 4) (nv_taps v) \<rparr>
      else if take 3 args = [''ip'', ''link'', ''del''] then v \<lparr> nv_taps := nv_taps v - {args ! 3} \<rparr>
      else if take 4 args = [''iptables'', ''-I'', ''INPUT'', ''-i'']
      then v \<lparr> nv_allow := (nv_allow v)(args ! 4 := Suc (nv_allow v (args ! 4))) \<rparr>
      else if take 4 args = [''iptables'', ''-D'', ''INPUT'', ''-i'']
      then v \<lparr> nv_allow := (nv_allow v)(args ! 4 := nv_allow v (args ! 4) - 1) \<rparr>
      else if args = [''nft'', ''-f'', ''-''] then v \<lparr> nv_tables := nv_tables v \<union> tables_of input \<rparr>
      else if take 4 args = [''nft'', ''delete'', ''table'', ''inet''] then v \<lparr> nv_tables := nv_tables v - {args ! 4} \<rparr>
      else v)"

lemma nothing_to_delete:
  "n \<notin> nv_taps v \<Longrightarrow> v \<lparr> nv_taps := nv_taps v - {n} \<rparr> = v"
  "n \<notin> nv_tables v \<Longrightarrow> v \<lparr> nv_tables := nv_tables v - {n} \<rparr> = v"
  "nv_allow v n = 0 \<Longrightarrow> v \<lparr> nv_allow := (nv_allow v)(n := nv_allow v n - 1) \<rparr> = v"
  by (cases v; auto simp: fun_eq_iff)+

fun succeeded :: "proc_result \<Rightarrow> bool" where
  "succeeded (Exited b _ _) = b"
| "succeeded (SpawnErr _) = False"

text \<open>A command has its effect or none; to delete what is there succeeds; the actor outlives the
  Run; sockets and the log's tail leave devices, rules and tables alone.\<close>

locale net_kernel =
  fixes N :: "'w net_ops" and view :: "'w \<Rightarrow> net_view" and tables_of :: "string \<Rightarrow> string set"
  assumes queue: "nt_queue_open N w"
    and proc: "nt_proc N args input w = (r, w') \<Longrightarrow>
        view w' = (if succeeded r then net_effect tables_of args input (view w) else view w)"
    and link_del: "nt_proc N [''ip'', ''link'', ''del'', n] [] w = (r, w') \<Longrightarrow> n \<in> nv_taps (view w) \<Longrightarrow> succeeded r"
    and rule_del: "nt_proc N [''iptables'', ''-D'', ''INPUT'', ''-i'', n, ''-j'', ''ACCEPT''] [] w = (r, w') \<Longrightarrow>
        0 < nv_allow (view w) n \<Longrightarrow> succeeded r"
    and table_del: "nt_proc N [''nft'', ''delete'', ''table'', ''inet'', t] [] w = (r, w') \<Longrightarrow>
        t \<in> nv_tables (view w) \<Longrightarrow> succeeded r"
    and ruleset: "CHR '' '' \<notin> set t \<Longrightarrow> tables_of (build_ruleset t tap host port dns) = {t}"
    and sockets: "keeps view (nt_bind_dns N addr port)" "keeps view (nt_nonblocking N)" "keeps view (nt_spawn N args)"
begin

lemma effects:
  "net_effect tables_of [''ip'', ''link'', ''del'', n] i v = v \<lparr> nv_taps := nv_taps v - {n} \<rparr>"
  "net_effect tables_of [''ip'', ''tuntap'', ''add'', ''dev'', n, ''mode'', ''tap'', ''user'', u] i v = v \<lparr> nv_taps := insert n (nv_taps v) \<rparr>"
  "net_effect tables_of [''ip'', ''link'', ''set'', n, ''up''] i v = v"
  "net_effect tables_of [''ip'', ''addr'', ''add'', a, ''dev'', n] i v = v"
  "net_effect tables_of [''iptables'', ''-I'', ''INPUT'', ''-i'', n, ''-j'', ''ACCEPT''] i v = v \<lparr> nv_allow := (nv_allow v)(n := Suc (nv_allow v n)) \<rparr>"
  "net_effect tables_of [''iptables'', ''-D'', ''INPUT'', ''-i'', n, ''-j'', ''ACCEPT''] i v = v \<lparr> nv_allow := (nv_allow v)(n := nv_allow v n - 1) \<rparr>"
  "net_effect tables_of [''nft'', ''-f'', ''-''] i v = v \<lparr> nv_tables := nv_tables v \<union> tables_of i \<rparr>"
  "net_effect tables_of [''nft'', ''delete'', ''table'', ''inet'', n] i v = v \<lparr> nv_tables := nv_tables v - {n} \<rparr>"
  by (simp_all add: net_effect_def)

lemma delete_tap:
  assumes "exec_delete_tap N n w = (r, w')"
  shows "view w' = (view w) \<lparr> nv_taps := nv_taps (view w) - {n} \<rparr>" "r = Inr ()"
proof -
  obtain q where q: "nt_proc N [''ip'', ''link'', ''del'', n] [] w = (q, w')" and "r = Inr ()"
    using assms by (auto simp: exec_delete_tap_def proc_ignored_def split: prod.splits)
  show "view w' = (view w) \<lparr> nv_taps := nv_taps (view w) - {n} \<rparr>"
  proof (cases "succeeded q")
    case False
    then have "n \<notin> nv_taps (view w)" using link_del [OF q] by blast
    then show ?thesis unfolding proc [OF q] if_not_P [OF False] by (rule nothing_to_delete(1) [symmetric])
  qed (simp add: proc [OF q] effects)
  show "r = Inr ()" by fact
qed

lemma remove_allow:
  assumes "exec_remove_tap_allow N n w = (r, w')"
  shows "view w' = (view w) \<lparr> nv_allow := (nv_allow (view w))(n := nv_allow (view w) n - 1) \<rparr>" "r = Inr ()"
proof -
  obtain q where q: "nt_proc N [''iptables'', ''-D'', ''INPUT'', ''-i'', n, ''-j'', ''ACCEPT''] [] w = (q, w')" and "r = Inr ()"
    using assms by (auto simp: exec_remove_tap_allow_def proc_ignored_def split: prod.splits)
  show "view w' = (view w) \<lparr> nv_allow := (nv_allow (view w))(n := nv_allow (view w) n - 1) \<rparr>"
  proof (cases "succeeded q")
    case False
    then have "nv_allow (view w) n = 0" using rule_del [OF q] by blast
    then show ?thesis unfolding proc [OF q] if_not_P [OF False] by (rule nothing_to_delete(3) [symmetric])
  qed (simp add: proc [OF q] effects)
  show "r = Inr ()" by fact
qed

lemma delete_table:
  assumes "exec_delete_nft N n w = (r, w')"
  shows "view w' = (view w) \<lparr> nv_tables := nv_tables (view w) - {n} \<rparr>" "r = Inr ()"
proof -
  obtain q where q: "nt_proc N [''nft'', ''delete'', ''table'', ''inet'', n] [] w = (q, w')" and "r = Inr ()"
    using assms by (auto simp: exec_delete_nft_def proc_ignored_def split: prod.splits)
  show "view w' = (view w) \<lparr> nv_tables := nv_tables (view w) - {n} \<rparr>"
  proof (cases "succeeded q")
    case False
    then have "n \<notin> nv_tables (view w)" using table_del [OF q] by blast
    then show ?thesis unfolding proc [OF q] if_not_P [OF False] by (rule nothing_to_delete(2) [symmetric])
  qed (simp add: proc [OF q] effects)
  show "r = Inr ()" by fact
qed

lemma proc_ok_view:
  "proc_ok N c args i f w = (r, w') \<Longrightarrow>
     view w' = (if isl r then view w else net_effect tables_of args i (view w))"
  by (auto simp: proc_ok_def proc split: prod.splits proc_result.splits if_splits)

lemma call: "net_call N c w = run_actor_cmd N c w"
  by (simp add: net_call_def queue)

lemma call_delete_tap:
  "net_call N (DeleteTap n) w = (r, w') \<Longrightarrow> view w' = (view w) \<lparr> nv_taps := nv_taps (view w) - {n} \<rparr> \<and> r = Inr Done"
  by (auto simp: call run_actor_cmd_def unit_reply_def abind_def split: prod.splits sum.splits dest: delete_tap)

lemma call_remove_allow:
  "net_call N (RemoveTapAllow n) w = (r, w') \<Longrightarrow>
     view w' = (view w) \<lparr> nv_allow := (nv_allow (view w))(n := nv_allow (view w) n - 1) \<rparr> \<and> r = Inr Done"
  by (auto simp: call run_actor_cmd_def unit_reply_def abind_def split: prod.splits sum.splits dest: remove_allow)

lemma call_delete_table:
  "net_call N (DeleteNft t) w = (r, w') \<Longrightarrow> view w' = (view w) \<lparr> nv_tables := nv_tables (view w) - {t} \<rparr> \<and> r = Inr Done"
  by (auto simp: call run_actor_cmd_def unit_reply_def abind_def split: prod.splits sum.splits dest: delete_table)

lemma call_add_allow:
  "net_call N (AddTapAllow n) w = (r, w') \<Longrightarrow>
     view w' = (if isl r then view w else (view w) \<lparr> nv_allow := (nv_allow (view w))(n := Suc (nv_allow (view w) n)) \<rparr>)"
  by (auto simp: call run_actor_cmd_def unit_reply_def exec_add_tap_allow_def abind_def effects
      split: prod.splits sum.splits dest!: proc_ok_view)

lemma call_create_tap:
  assumes "net_call N (CreateTap n host len owner) w = (r, w')"
  shows "view w' = (view w) \<lparr> nv_taps := insert n (nv_taps (view w)) \<rparr> \<or> isl r \<and> view w' = view w"
  using assms
  by (auto simp: call run_actor_cmd_def unit_reply_def exec_create_tap_def abind_def Let_def effects
      split: prod.splits sum.splits dest!: proc_ok_view)

lemma call_apply:
  assumes "net_call N (ApplyNft (build_ruleset t tap host port dns)) w = (r, w')" "CHR '' '' \<notin> set t"
  shows "view w' = (if isl r then view w else (view w) \<lparr> nv_tables := insert t (nv_tables (view w)) \<rparr>)"
  using assms
  by (auto simp: call run_actor_cmd_def unit_reply_def exec_apply_nft_def abind_def effects ruleset
      split: prod.splits sum.splits dest!: proc_ok_view)

lemma keeps_sockets:
  "keeps view (net_call N (BindDns host port))" "keeps view (net_call N SpawnJournalctl)"
proof -
  have "keeps view (exec_bind_dns N host port)" "keeps view (exec_spawn_journalctl N)"
    by (rule keepsI, force simp: exec_bind_dns_def exec_spawn_journalctl_def split: prod.splits bool.splits
        dest: keepsD [OF sockets(1)] keepsD [OF sockets(2)] keepsD [OF sockets(3)])+
  then show "keeps view (net_call N (BindDns host port))" "keeps view (net_call N SpawnJournalctl)"
    unfolding call [abs_def] run_actor_cmd_def unit_reply_def net_cmd.case by (intro keeping; simp)+
qed

end

section \<open>What a Run leaves behind\<close>

text \<open>The network as it is when a Run has cleaned up.\<close>

definition cleaned :: "bool \<Rightarrow> string \<Rightarrow> string \<Rightarrow> net_view \<Rightarrow> net_view" where
  "cleaned managed tap t v =
     \<lparr> nv_taps = nv_taps v - {tap},
       nv_allow = (if managed then (nv_allow v)(tap := nv_allow v tap - 1) else nv_allow v),
       nv_tables = nv_tables v - {t} \<rparr>"

text \<open>The rest of what a Run does leaves devices, rules and tables alone.\<close>

locale run_host = net_kernel "rn_net M" view tables_of
  for M :: "'w run_sys" and view and tables_of +
  assumes vm: "keeps view (rn_vm M a)"
    and listeners: "keeps view (rn_spawn_proxy M ip policy)" "keeps view (rn_adopt_socket M)"
      "keeps view (rn_spawn_dns M upstream policy)"
    and log_tail: "keeps view (rn_take_stdout M)" "keeps view (rn_adapt_stdout M)" "keeps view (rn_spawn_pump M t)"
    and supervise: "keeps view (rn_supervise M spec dir)"
    and git: "keeps view (sys_git (ho_sys (rn_host M)) cwd args)" "keeps view (ho_spawn_git (rn_host M) c)"
    and extraction: "keeps view (ho_debugfs (rn_host M) args)" "keeps view (ho_tempdir (rn_host M))"
      "view (ho_set_fs (rn_host M) fs w) = view w" "view (rn_put_dest M d w) = view w"
begin

lemma keeps_start: "keeps view (start_firecracker (rn_vm M) T lossy tmp init_debug config bin)"
proof -
  have do: "keeps view (vm_do (rn_vm M) c a)" and ask: "keeps view (vm_ask (rn_vm M) c a)" for c a
    by (rule keepsI, force simp: vm_do_def vm_ask_def split: prod.splits vm_reply.splits dest: keepsD [OF vm])+
  have put: "keeps view (fc_put (rn_vm M) lossy socket path body)" for socket path body
    by (rule keepsI, force simp: fc_put_def split: prod.splits vm_reply.splits dest: keepsD [OF vm])
  have wait: "keeps view (wait_for_api_socket (rn_vm M) n path)" for n path
    by (induction n) (simp_all add: keeping do ask del: act_simps)
  have connect: "keeps view (connect_host_to_guest (rn_vm M) n uds port)" for n uds port
  proof (induction n)
    case 0
    show ?case by (simp only: connect_host_to_guest.simps keeping)
  next
    case (Suc n)
    show ?case
    proof (rule keepsI)
      fix w x w'
      assume run: "connect_host_to_guest (rn_vm M) (Suc n) uds port w = (x, w')"
      obtain q w1 where q: "rn_vm M (HostConnect uds (''CONNECT '' @ show_nat (unat port) @ [LF])) w = (q, w1)" by fastforce
      let ?rest = "\<lambda>reply. abind (vm_ask (rn_vm M) ''clock'' DeadlinePassed) (\<lambda>passed.
          if passed then afail (FcRejected reply)
          else abind (vm_do (rn_vm M) ''sleep'' (Sleep 50)) (\<lambda>_. connect_host_to_guest (rn_vm M) n uds port))"
      have rest: "keeps view (?rest reply)" for reply by (intro keeping ask do Suc)
      have "view w' = view w1"
      proof (cases q)
        case (RData ack)
        define reply where "reply = trim (unwrap_or [] (from_utf8 (take 64 ack)))"
        have "(if prefix ''OK'' reply then (Inr (), w1) else ?rest reply w1) = (x, w')"
          using run unfolding connect_host_to_guest.simps q prod.case RData vm_reply.case Let_def reply_def .
        then show ?thesis using keepsD [OF rest [of reply]] by (cases "prefix ''OK'' reply") auto
      qed (use run in \<open>simp_all only: connect_host_to_guest.simps q prod.case vm_reply.case prod.inject\<close>)
      then show "view w' = view w" using keepsD [OF vm q] by simp
    qed
  qed
  show ?thesis
    unfolding start_firecracker_def Let_def create_workspace_ext4_from_dir_def vm_process_def configure_vm_def
    by (intro keeping do ask put wait connect)
qed

lemma keeps_debugfs: "keeps view (debugfs_rdump (rn_host M) ext4 src dst)"
  by (rule keepsI) (auto simp: debugfs_rdump_def split: option.splits prod.splits git_result.splits if_splits
      dest: keepsD [OF extraction(1)])

lemma keeps_sandbox_fetch: "keeps view (sandbox_fetch_from_ext4 (rn_host M) ok pool ext4 rid branch uid)"
proof -
  have v: "keeps view (validate_run_output_targets (ho_sys (rn_host M)) pool rid branch)"
    by (intro keeps_validate_targets git)
  have f: "keeps view (fetch_pool_from_git_dir (rn_host M) pool src rid branch uid)" for src
    by (intro keeps_fetch_pool git)
  show ?thesis
    by (rule keepsI) (auto simp: sandbox_fetch_from_ext4_def Let_def extraction split: sum.splits prod.splits option.splits if_splits
        dest!: keepsD [OF v] keepsD [OF f] keepsD [OF extraction(2)] keepsD [OF keeps_debugfs])
qed

lemma keeps_extract:
  "keeps view (extract_workspace_from_ext4 (rn_host M) ok (rn_get_dest M) (rn_put_dest M) ext4 pool rid branch uid adapter dst)"
proof -
  have rdump: "keeps view (rdump_all (rn_host M) ext4 tmp subs)" for tmp subs
    by (induction subs) (simp_all add: keeping keeps_debugfs del: act_simps)
  have tail: "keeps view (\<lambda>w. case scrub_extracted_tree ok (ho_fs (rn_host M) w) p of
           (s, fs') \<Rightarrow>
             let w1 = ho_set_fs (rn_host M) fs' w in
             if \<not> s then (Inl ExIo, w1)
             else (case copy_agent_history_narrow ok fs' adapter p q (rn_get_dest M w1) of
                 (c, d) \<Rightarrow> (if c then (Inr (), rn_put_dest M d w1) else (Inl ExCopy, rn_put_dest M d w1))))" for p q
    by (rule keepsI) (auto simp: Let_def extraction split: prod.splits if_splits)
  show ?thesis
    unfolding extract_workspace_from_ext4_def
    by (intro keeping keeps_sandbox_fetch rdump tail extraction)
qed

lemma keeps_listeners:
  "keeps view (start_dns M host policy)" "keeps view (start_drop_log M t loaded)"
  unfolding start_dns_def start_drop_log_def
  by (intro keeping keeps_sockets listeners log_tail)+

lemma aor_cases:
  assumes "aor d m w = (r, w')"
  obtains a where "m w = (Inr a, w')" "r = Inr a" | e where "m w = (Inl e, w')" "r = Inr d"
  using assms by (auto simp: aor_def split: prod.splits sum.splits)

text \<open>The table is there exactly if the rules were loaded.\<close>

lemma load_rules_view:
  assumes "load_rules M t tap host proxy dns w = (r, w')" "CHR '' '' \<notin> set t"
  shows "view w' = (view w) \<lparr> nv_tables := (if r = Inr True then insert t (nv_tables (view w)) else nv_tables (view w) - {t}) \<rparr>
    \<and> \<not> isl r"
proof -
  obtain q w1 where q: "net_call (rn_net M) (DeleteNft t) w = (q, w1)" by fastforce
  have v1: "view w1 = (view w) \<lparr> nv_tables := nv_tables (view w) - {t} \<rparr>" "q = Inr Done"
    using call_delete_table [OF q] by simp_all
  show ?thesis
  proof (cases proxy)
    case None
    then show ?thesis using assms(1) v1 by (auto simp: load_rules_def abind_def aor_def q)
  next
    case (Some port)
    obtain q2 w2 where q2: "net_call (rn_net M) (ApplyNft (build_ruleset t tap host port dns)) w1 = (q2, w2)" by fastforce
    have "w' = w2 \<and> r = Inr (\<not> isl q2)"
      using assms(1) v1(2) Some by (cases q2) (auto simp: load_rules_def abind_def aor_def q q2)
    then show ?thesis using call_apply [OF q2 assms(2)] v1(1) by auto
  qed
qed

lemma run_vm_view:
  assumes "run_vm M spec run_id t extraction run_dir w = (r, w')"
  shows "view w' = (view w) \<lparr> nv_tables := nv_tables (view w) - {t} \<rparr>"
proof -
  let ?ex = "case extraction of None \<Rightarrow> aret ()
     | Some ext \<Rightarrow> aerr (RunIo \<circ> rn_show_extract M)
         (extract_workspace_from_ext4 (rn_host M) (rn_fs_ok M) (rn_get_dest M) (rn_put_dest M)
           (join_path run_dir ''workspace.ext4'') (pe_pool ext) run_id (pe_output_branch ext)
           (pe_user_script_uid ext) (rs_adapter spec) (pe_agent_history_dst ext))"
  have ex: "keeps view ?ex" by (intro keeping keeps_extract)
  obtain q1 w1 where 1: "rn_supervise M spec run_dir w = (q1, w1)" by fastforce
  obtain q2 w2 where 2: "?ex w1 = (q2, w2)" by fastforce
  obtain q3 w3 where 3: "net_call (rn_net M) (DeleteNft t) w2 = (q3, w3)" by fastforce
  have "w' = w3"
    using assms 1 2 3 by (cases extraction; cases q1) (auto simp: run_vm_def)
  then show ?thesis
    using keepsD [OF supervise 1] keepsD [OF ex 2] call_delete_table [OF 3] by simp
qed

lemma listeners_succeed: "start_dns M host policy w = (q, w1) \<Longrightarrow> \<not> isl q" "start_drop_log M t loaded w = (q', w1) \<Longrightarrow> \<not> isl q'"
  unfolding start_dns_def start_drop_log_def
  by (auto simp: abind_def aor_def apure_def split: prod.splits sum.splits if_splits)

text \<open>Inside the guards: the table is gone at the end, unless the VM did not start.\<close>

lemma run_guarded_view:
  assumes "run_guarded M k rf bin spec run_id ws extraction tap w = (r, w')" "derive_table_name run_id = Some t"
  shows "view w' = (view w) \<lparr> nv_tables := nv_tables (view w) - {t} \<rparr> \<or>
    (\<exists>e. r = Inl (RunIo (rn_show_fc M e))) \<and> view w' = (view w) \<lparr> nv_tables := insert t (nv_tables (view w)) \<rparr>"
proof -
  let ?net = "derive_run_network run_id" and ?policy = "effective_egress_policy spec"
  obtain port w1 where 1: "rn_spawn_proxy M (net_host ?net) ?policy w = (port, w1)" by fastforce
  have p: "apure (rn_spawn_proxy M (net_host ?net) ?policy) w = (Inr port, w1)" by (simp add: apure_def 1)
  obtain q2 w2 where 2: "start_dns M (net_host ?net) ?policy w1 = (q2, w2)" by fastforce
  obtain dns where dns: "q2 = Inr dns" using listeners_succeed(1) [OF 2] by (cases q2) auto
  obtain q3 w3 where 3: "load_rules M t tap (net_host ?net) port dns w2 = (q3, w3)" by fastforce
  have "CHR '' '' \<notin> set t"
  proof -
    have "\<not> is_alnum (CHR '' '')" by code_simp
    then show ?thesis using table_name_shape [OF assms(2)] by auto
  qed
  note rules = load_rules_view [OF 3 this]
  then obtain loaded where loaded: "q3 = Inr loaded" by (cases q3) auto
  obtain q4 w4 where 4: "start_drop_log M t loaded w3 = (q4, w4)" by fastforce
  obtain lg where lg: "q4 = Inr lg" using listeners_succeed(2) [OF 4] by (cases q4) auto
  let ?config = "\<lparr> sc_kernel_path = k, sc_rootfs_path = rf, sc_workspace_host_path = ws,
      sc_spec_json = build_sandbox_spec_json spec (map_option (Pair (net_host ?net)) port) (Some ?net),
      sc_vcpus = rs_vcpus spec, sc_mem_mib = rs_memory_mb spec, sc_workspace_disk_mib = rs_disk_mb spec,
      sc_run_id = run_id, sc_tap_name = tap \<rparr>"
  obtain q5 w5 where 5: "start_firecracker (rn_vm M) (rn_json_text M) (rn_lossy M) (rn_tmp M) (rn_init_debug M) ?config bin w4 = (q5, w5)"
    by fastforce
  have v4: "view w4 = (view w) \<lparr> nv_tables := (if loaded then insert t (nv_tables (view w)) else nv_tables (view w) - {t}) \<rparr>"
    using rules keepsD [OF listeners(1) 1] keepsD [OF keeps_listeners(1) 2] keepsD [OF keeps_listeners(2) 4]
    by (simp add: loaded)
  have v5: "view w5 = view w4" by (rule keepsD [OF keeps_start 5])
  have run: "(case q5 of Inl e \<Rightarrow> (Inl (RunIo (rn_show_fc M e)), w5)
      | Inr d \<Rightarrow> with_guard (rn_vm M (RemoveDir d)) (run_vm M spec run_id t extraction d) w5) = (r, w')"
    using assms(1)
    unfolding run_guarded_def Let_def abind_def or_panic_def assms(2) option.case
    by (auto simp: p 2 dns 3 loaded 4 lg 5 aerr_def split: sum.splits)
  show ?thesis
  proof (cases q5)
    case (Inl e)
    then show ?thesis using run v4 v5 by (auto split: if_splits)
  next
    case (Inr d)
    obtain q6 w6 where 6: "run_vm M spec run_id t extraction d w5 = (q6, w6)" by fastforce
    obtain q7 w7 where 7: "rn_vm M (RemoveDir d) w6 = (q7, w7)" by fastforce
    have "w' = w7" using run by (simp add: Inr with_guard_def 6 7)
    then show ?thesis using run_vm_view [OF 6] keepsD [OF vm 7] v4 v5 by (auto split: if_splits)
  qed
qed

lemma managed_view:
  assumes "(if manage then abind (aor Done (net_call (rn_net M) (RemoveTapAllow tap))) (\<lambda>_.
             abind (aerr (RunIo \<circ> rn_show_net M) (net_call (rn_net M) (AddTapAllow tap))) (\<lambda>_.
             with_guard (exec_remove_tap_allow (rn_net M) tap)
               (run_guarded M k rf bin spec run_id ws extraction tap)))
        else run_guarded M k rf bin spec run_id ws extraction tap) w = (r, w')"
    and t: "derive_table_name run_id = Some t"
  defines "allow \<equiv> if manage then (nv_allow (view w))(tap := nv_allow (view w) tap - 1) else nv_allow (view w)"
  shows "view w' = (view w) \<lparr> nv_allow := allow, nv_tables := nv_tables (view w) - {t} \<rparr>
    \<or> (\<exists>e. r = Inl (RunIo (rn_show_fc M e))) \<and>
        view w' = (view w) \<lparr> nv_allow := allow, nv_tables := insert t (nv_tables (view w)) \<rparr>
    \<or> (\<exists>e. r = Inl (RunIo (rn_show_net M e))) \<and> view w' = (view w) \<lparr> nv_allow := allow \<rparr>"
proof (cases manage)
  case False
  then have "run_guarded M k rf bin spec run_id ws extraction tap w = (r, w')" using assms(1) by simp
  from run_guarded_view [OF this t] show ?thesis using False by (auto simp: allow_def)
next
  case True
  obtain q1 w1 where 1: "net_call (rn_net M) (RemoveTapAllow tap) w = (q1, w1)" by fastforce
  have v1: "view w1 = (view w) \<lparr> nv_allow := allow \<rparr>" "q1 = Inr Done"
    using call_remove_allow [OF 1] True by (simp_all add: allow_def)
  obtain q2 w2 where 2: "net_call (rn_net M) (AddTapAllow tap) w1 = (q2, w2)" by fastforce
  have v2: "view w2 = (if isl q2 then view w1 else (view w1) \<lparr> nv_allow := (nv_allow (view w1))(tap := Suc (nv_allow (view w1) tap)) \<rparr>)"
    by (rule call_add_allow [OF 2])
  show ?thesis
  proof (cases q2)
    case (Inl e)
    have "r = Inl (RunIo (rn_show_net M e)) \<and> w' = w2"
      using assms(1) True Inl v1(2) by (auto simp: abind_def aor_def aerr_def 1 2)
    then show ?thesis using v1 v2 Inl by auto
  next
    case (Inr u)
    have "with_guard (exec_remove_tap_allow (rn_net M) tap) (run_guarded M k rf bin spec run_id ws extraction tap) w2 = (r, w')"
      using assms(1) True Inr v1(2) by (auto simp: abind_def aor_def aerr_def 1 2)
    then obtain w3 q where 3: "run_guarded M k rf bin spec run_id ws extraction tap w2 = (r, w3)"
      and 4: "exec_remove_tap_allow (rn_net M) tap w3 = (q, w')" by (rule with_guard_run)
    show ?thesis
      using run_guarded_view [OF 3 t] remove_allow(1) [OF 4] v1(1) v2 Inr True
      by (auto simp: allow_def)
  qed
qed

lemma sandbox_run_view:
  assumes "sandbox_run M k rf bin manage spec run_id ws extraction owner w = (r, w')"
    and tap: "derive_tap_name run_id = Some tap" and t: "derive_table_name run_id = Some t"
  shows "view w' = cleaned manage tap t (view w)
    \<or> (\<exists>e. r = Inl (RunIo (rn_show_fc M e))) \<and>
        view w' = (cleaned manage tap t (view w)) \<lparr> nv_tables := insert t (nv_tables (view w)) \<rparr>
    \<or> (\<exists>e. r = Inl (RunIo (rn_show_net M e))) \<and> nv_taps (view w') - {tap} = nv_taps (view w) - {tap}
        \<and> nv_tables (view w') = nv_tables (view w)
        \<and> nv_allow (view w') \<in> {nv_allow (view w), nv_allow (cleaned manage tap t (view w))}"
proof -
  define v where "v = view w"
  let ?net = "derive_run_network run_id"
  obtain q1 w1 where 1: "net_call (rn_net M) (DeleteTap tap) w = (q1, w1)" by fastforce
  have v1: "view w1 = v \<lparr> nv_taps := nv_taps v - {tap} \<rparr>" "q1 = Inr Done"
    using call_delete_tap [OF 1] by (simp_all add: v_def)
  obtain q2 w2 where 2: "net_call (rn_net M) (CreateTap tap (net_host ?net) (net_prefix_len ?net) owner) w1 = (q2, w2)" by fastforce
  note v2 = call_create_tap [OF 2]
  show ?thesis
  proof (cases q2)
    case (Inl e)
    have "r = Inl (RunIo (rn_show_net M e)) \<and> w' = w2"
      using assms(1) Inl v1(2) by (auto simp: sandbox_run_def Let_def or_panic_def tap abind_def aor_def aerr_def 1 2)
    then show ?thesis using v1 v2 by (auto simp: v_def)
  next
    case (Inr u)
    then have v2: "view w2 = v \<lparr> nv_taps := insert tap (nv_taps v) \<rparr>" using v2 v1 by auto
    have "with_guard (exec_delete_tap (rn_net M) tap)
       (if manage then abind (aor Done (net_call (rn_net M) (RemoveTapAllow tap))) (\<lambda>_.
             abind (aerr (RunIo \<circ> rn_show_net M) (net_call (rn_net M) (AddTapAllow tap))) (\<lambda>_.
             with_guard (exec_remove_tap_allow (rn_net M) tap)
               (run_guarded M k rf (unwrap_or ''firecracker'' bin) spec run_id ws extraction tap)))
        else run_guarded M k rf (unwrap_or ''firecracker'' bin) spec run_id ws extraction tap) w2 = (r, w')"
      using assms(1) Inr v1(2)
      unfolding sandbox_run_def Let_def or_panic_def tap option.case
      by (simp only: abind_def [of "aret _"] abind_def [of "aor _ _"] abind_def [of "aerr _ _"] aor_def [of _ _ w]
          aerr_def [of _ _ w1] 1 2 act_simps prod.case sum.case)
    then obtain w3 q where 3: "(if manage then abind (aor Done (net_call (rn_net M) (RemoveTapAllow tap))) (\<lambda>_.
             abind (aerr (RunIo \<circ> rn_show_net M) (net_call (rn_net M) (AddTapAllow tap))) (\<lambda>_.
             with_guard (exec_remove_tap_allow (rn_net M) tap)
               (run_guarded M k rf (unwrap_or ''firecracker'' bin) spec run_id ws extraction tap)))
        else run_guarded M k rf (unwrap_or ''firecracker'' bin) spec run_id ws extraction tap) w2 = (r, w3)"
      and 4: "exec_delete_tap (rn_net M) tap w3 = (q, w')" by (rule with_guard_run)
    have "view w' = (view w3) \<lparr> nv_taps := nv_taps (view w3) - {tap} \<rparr>" by (rule delete_tap(1) [OF 4])
    then show ?thesis
      using managed_view [OF 3 t] v2 by (auto simp: v_def cleaned_def)
  qed
qed

end

section \<open>A small host\<close>

text \<open>The world is the network itself; the commands in \<open>fails\<close> fail, and the VM answers as
  \<open>answer\<close> says.\<close>

definition ruleset_tables :: "string \<Rightarrow> string set" where
  "ruleset_tables s = (case split_once (CHR '' '') (drop 11 s) of Some (t, _) \<Rightarrow> {t} | None \<Rightarrow> {})"

definition sim_net :: "(string list \<Rightarrow> bool) \<Rightarrow> net_view net_ops" where
  "sim_net fails =
     \<lparr> nt_queue_open = (\<lambda>_. True),
       nt_proc = (\<lambda>args input v. if fails args then (Exited False [] [], v)
                    else (Exited True [] [], net_effect ruleset_tables args input v)),
       nt_bind_dns = (\<lambda>_ _ v. (True, v)), nt_nonblocking = (\<lambda>v. (True, v)), nt_spawn = (\<lambda>_ v. (True, v)) \<rparr>"

definition sim_run :: "(string list \<Rightarrow> bool) \<Rightarrow> (vm_action \<Rightarrow> vm_reply) \<Rightarrow> net_view run_sys" where
  "sim_run fails answer =
     \<lparr> rn_net = sim_net fails, rn_vm = (\<lambda>a v. (answer a, v)),
       rn_texts = \<lparr> tx_json_text = (\<lambda>_. ''{}''), tx_lossy = plain_text, tx_tmp = ''/tmp'', tx_init_debug = None,
         tx_show_net = (\<lambda>_. ''net''), tx_show_fc = (\<lambda>_. ''vm''), tx_show_extract = (\<lambda>_. ''extract'') \<rparr>,
       rn_dns = \<lparr> de_upstream_env = None, de_parse_addr = (\<lambda>_. None), de_parse_v6 = (\<lambda>_. None), de_resolv_conf = None \<rparr>,
       rn_disk = \<lparr> dk_host = \<lparr> ho_sys = \<lparr> sys_git = (\<lambda>_ _ v. (GitIoErr, v)), sys_create_dir = (\<lambda>_ v. (True, v)),
            sys_exists = (\<lambda>_ _. True), sys_remove_dir = (\<lambda>_ v. (True, v)) \<rparr>,
         ho_spawn_git = (\<lambda>_ v. (GitIoErr, v)), ho_debugfs = (\<lambda>_ v. (GitIoErr, v)), ho_tempdir = (\<lambda>v. (None, v)),
         ho_fs = (\<lambda>_. NSpecial), ho_set_fs = (\<lambda>_ v. v), ho_euid = 0 \<rparr>,
         dk_fs_ok = (\<lambda>_ _. True), dk_get_dest = (\<lambda>_ _. None), dk_put_dest = (\<lambda>_ v. v) \<rparr>,
       rn_tasks = \<lparr> tk_spawn_proxy = (\<lambda>_ _ v. (Some 3128, v)), tk_adopt_socket = (\<lambda>v. (True, v)),
         tk_spawn_dns = (\<lambda>_ _ v. (Some 53, v)), tk_take_stdout = (\<lambda>v. (True, v)), tk_adapt_stdout = (\<lambda>v. (True, v)),
         tk_spawn_pump = (\<lambda>_ v. ((), v)), tk_supervise = (\<lambda>_ _ v. (Inr (), v)) \<rparr> \<rparr>"

lemma sim_run_host:
  assumes "\<And>args. take 3 args = [''ip'', ''link'', ''del''] \<or> take 2 args = [''iptables'', ''-D''] \<or>
    take 2 args = [''nft'', ''delete''] \<Longrightarrow> \<not> fails args"
  shows "run_host (sim_run fails answer) (\<lambda>v. v) ruleset_tables"
proof -
  have r: "ruleset_tables (build_ruleset t tap host port dns) = {t}" if "CHR '' '' \<notin> set t" for t tap host port dns
  proof -
    have "drop 11 (build_ruleset t tap host port dns) = t @ CHR '' '' # drop (Suc (length t)) (drop 11 (build_ruleset t tap host port dns))"
      by (simp add: build_ruleset_def Let_def)
    then show ?thesis using that split_once_append unfolding ruleset_tables_def by (metis (no_types, lifting) option.case(2) prod.case)
  qed
  show ?thesis
    by unfold_locales (auto simp: sim_run_def sim_net_def r assms intro!: keepsI split: if_splits)
qed

interpretation small_host: run_host "sim_run (\<lambda>_. False) healthy_vm" "\<lambda>v. v" ruleset_tables
  by (rule sim_run_host) simp

interpretation small_net: net_kernel "sim_net (\<lambda>_. False)" "\<lambda>v. v" ruleset_tables
  using small_host.net_kernel_axioms by (simp add: sim_run_def)

text \<open>C5: what a sandboxed Run leaves in the network of the host. A Run that succeeds leaves
  no TAP device, no table and no new accept rule of its own, and removes what an earlier Run of its
  name left; so does one whose supervisor, extraction or accept rule fails. When the VM does
  not start the table may stay, when a network command fails the TAP device may stay, with the
  error that says so. No device, rule or table of another name is ever touched. The
  hypotheses are the laws of the host's tools and the names of the Run.\<close>

theorem sandbox_run_cleans_up:
  assumes "run_host M view tables_of"
    and "derive_tap_name run_id = Some tap" "derive_table_name run_id = Some t"
    and "sandbox_run M kernel_path rootfs_path bin manage spec run_id ws extraction owner w = (r, w')"
  shows "view w' = cleaned manage tap t (view w)
    \<or> (\<exists>e. r = Inl (RunIo (rn_show_fc M e))) \<and>
        view w' = (cleaned manage tap t (view w)) \<lparr> nv_tables := insert t (nv_tables (view w)) \<rparr>
    \<or> (\<exists>e. r = Inl (RunIo (rn_show_net M e))) \<and> nv_taps (view w') - {tap} = nv_taps (view w) - {tap}
        \<and> nv_tables (view w') = nv_tables (view w)
        \<and> nv_allow (view w') \<in> {nv_allow (view w), nv_allow (cleaned manage tap t (view w))}"
  by (rule run_host.sandbox_run_view [OF assms(1,4,2,3)])

definition run_ulid :: string where "run_ulid = ''01HZX5R7Q8W9ABCDEFGHJKMNPQ''"

lemma run_ulid_names:
  "derive_tap_name run_ulid = Some ''tap-DEFGHJKMNPQ''" "derive_table_name run_ulid = Some ''bunsen-01HZX5R7Q8W9ABCD''"
proof -
  have a: "is_ascii run_ulid" by (simp add: run_ulid_def is_ascii_def)
  then show "derive_tap_name run_ulid = Some ''tap-DEFGHJKMNPQ''"
    by (simp add: derive_tap_name_ascii) (simp add: run_ulid_def)
  have "derive_table_name run_ulid = map_option (\<lambda>(pre, _). ''bunsen-'' @ map table_char pre) (Some (take 16 run_ulid, drop 16 run_ulid))"
    unfolding derive_table_name_def Let_def length_str_bytes_ascii [OF a]
    by (subst split_at_byte_ascii [OF a]) (simp_all add: run_ulid_def)
  also have "\<dots> = Some ''bunsen-01HZX5R7Q8W9ABCD''"
    unfolding run_ulid_def by code_simp
  finally show "derive_table_name run_ulid = Some ''bunsen-01HZX5R7Q8W9ABCD''" .
qed

theorem sandbox_run_cleans_up_witness:
  "\<exists>r w'. sandbox_run (sim_run (\<lambda>_. False) healthy_vm) ''/k'' ''/r'' None True example_spec run_ulid ''/w'' None ''root''
       \<lparr> nv_taps = {''eth0'', ''tap-DEFGHJKMNPQ''}, nv_allow = (\<lambda>_. 0), nv_tables = {''other''} \<rparr> = (r, w')
     \<and> nv_taps w' - {''tap-DEFGHJKMNPQ''} = {''eth0''}"
proof -
  let ?w = "\<lparr> nv_taps = {''eth0'', ''tap-DEFGHJKMNPQ''}, nv_allow = (\<lambda>_. 0), nv_tables = {''other''} \<rparr>"
  obtain r w' where run: "sandbox_run (sim_run (\<lambda>_. False) healthy_vm) ''/k'' ''/r'' None True example_spec run_ulid ''/w'' None ''root'' ?w = (r, w')"
    by fastforce
  have "nv_taps w' - {''tap-DEFGHJKMNPQ''} = {''eth0''}"
    using sandbox_run_cleans_up [OF small_host.run_host_axioms run_ulid_names run] by (auto simp: cleaned_def)
  then show ?thesis using run by blast
qed

end
