(* ===== verification/Kernel.thy ===== *)
theory Kernel
  imports TargetUser
begin

text \<open>
  \<open>bunsen-core/src/kernel.rs\<close>: the guest kernel, from the override, the cache or the
  download, with its checksum. Files and HTTP are the parameter \<open>cache_ops\<close>, the hash
  function among them; the locale \<open>cache_files\<close> states what the file operations do. An error
  is its outermost context, without the causes and the paths.
\<close>

record http_reply =
  hr_status :: u16
  hr_www_authenticate :: "string option"
  hr_body :: "bytes option"

definition is_success :: "http_reply \<Rightarrow> bool" where
  "is_success r \<longleftrightarrow> 200 \<le> hr_status r \<and> hr_status r < 300"

record 'w cache_ops =
  co_exists :: "string \<Rightarrow> 'w \<Rightarrow> bool"
  co_read :: "string \<Rightarrow> 'w \<Rightarrow> bytes option"
  co_remove :: "string \<Rightarrow> 'w \<Rightarrow> bool \<times> 'w"
  co_create_dir :: "string \<Rightarrow> 'w \<Rightarrow> bool \<times> 'w"
  co_write :: "string \<Rightarrow> bytes \<Rightarrow> 'w \<Rightarrow> bool \<times> 'w"
  co_rename :: "string \<Rightarrow> string \<Rightarrow> 'w \<Rightarrow> bool \<times> 'w"
  co_get :: "string \<Rightarrow> (string \<times> string) list \<Rightarrow> 'w \<Rightarrow> http_reply option \<times> 'w"
  co_sha256 :: "bytes \<Rightarrow> string"

definition KERNEL_VERSION :: string where "KERNEL_VERSION = ''6.1.155''"

definition KERNEL_URL :: string where
  "KERNEL_URL = ''https://s3.amazonaws.com/spec.ccfc.min/firecracker-ci/v1.15/x86_64/vmlinux-6.1.155''"

definition KERNEL_SHA256 :: string where
  "KERNEL_SHA256 = ''e20e46d0c36c55c0d1014eb20576171b3f3d922260d9f792017aeff53af3d4f2''"

text \<open>An operation whose failure has a context.\<close>

definition ctx :: "string \<Rightarrow> ('w \<Rightarrow> bool \<times> 'w) \<Rightarrow> ('w, string, unit) act" where
  "ctx context m w = (case m w of (ok, w') \<Rightarrow> (if ok then Inr () else Inl context, w'))"

definition download ::
  "'w cache_ops \<Rightarrow> string \<Rightarrow> string \<Rightarrow> string \<Rightarrow> string \<Rightarrow> string \<Rightarrow> ('w, string, string) act" where
  "download K dest cache_dir url expected_sha256 version =
     abind (ctx ''create kernel cache dir'' (co_create_dir K cache_dir)) (\<lambda>_.
     abind (apure (co_get K url [])) (\<lambda>reply.
     case reply of
       None \<Rightarrow> afail ''download kernel''
     | Some resp \<Rightarrow>
         if \<not> is_success resp then afail ''kernel download returned HTTP error''
         else (case hr_body resp of
             None \<Rightarrow> afail ''read kernel body''
           | Some bs \<Rightarrow>
               let tmp = join_path cache_dir (''vmlinux-'' @ version @ ''.tmp'') in
               abind (ctx ''write temp kernel'' (co_write K tmp bs)) (\<lambda>_.
               if co_sha256 K bs \<noteq> expected_sha256
               then abind (apure (co_remove K tmp)) (\<lambda>_. afail ''kernel SHA-256 mismatch on download'')
               else abind (ctx ''rename'' (co_rename K tmp dest)) (\<lambda>_. aret dest)))))"

definition ensure_kernel_with ::
  "'w cache_ops \<Rightarrow> string option \<Rightarrow> string \<Rightarrow> string \<Rightarrow> string \<Rightarrow> string \<Rightarrow> ('w, string, string) act" where
  "ensure_kernel_with K env_override cache_dir url expected_sha256 version w =
     (if env_override \<noteq> None \<and> env_override \<noteq> Some [] then (Inr (the env_override), w)
      else
        let dest = join_path cache_dir (''vmlinux-'' @ version) in
        if co_exists K dest w then
          (case co_read K dest w of
             None \<Rightarrow> (Inl ''hash cached kernel'', w)
           | Some bs \<Rightarrow>
               if co_sha256 K bs = expected_sha256 then (Inr dest, w)
               else abind (ctx ''remove corrupt cache file'' (co_remove K dest))
                      (\<lambda>_. download K dest cache_dir url expected_sha256 version) w)
        else download K dest cache_dir url expected_sha256 version w)"

definition ensure_kernel :: "'w cache_ops \<Rightarrow> environment \<Rightarrow> ('w, string, string) act" where
  "ensure_kernel K env =
     (if KERNEL_URL = [] then afail ''no embedded kernel for this target architecture''
      else ensure_kernel_with K (env ''BUNSEN_KERNEL'') (kernel_cache env) KERNEL_URL KERNEL_SHA256 KERNEL_VERSION)"

section \<open>The laws of the cache\<close>

text \<open>A rename replaces the target at once or changes nothing; a write that fails may leave
  anything in its own file.\<close>

locale cache_files =
  fixes K :: "'w cache_ops" and files :: "'w \<Rightarrow> string \<Rightarrow> bytes option"
  assumes read: "co_read K p w = Some b \<Longrightarrow> files w p = Some b"
    and remove: "co_remove K p w = (ok, w') \<Longrightarrow> files w' = (if ok then (files w)(p := None) else files w)"
    and create_dir: "keeps files (co_create_dir K d)"
    and get: "keeps files (co_get K url hs)"
    and write_done: "co_write K p b w = (True, w') \<Longrightarrow> files w' = (files w)(p \<mapsto> b)"
    and write_failed: "co_write K p b w = (False, w') \<Longrightarrow> \<exists>x. files w' = (files w)(p := x)"
    and rename: "co_rename K p q w = (ok, w') \<Longrightarrow>
        files w' = (if ok then (files w)(q := files w p, p := None) else files w)"
begin

text \<open>The file at the destination is verified or unchanged, and only the temporary file and
  the destination are written.\<close>

lemma download_result:
  assumes "download K dest dir url sha version w = (r, w')"
    and "dest \<noteq> join_path dir (''vmlinux-'' @ version @ ''.tmp'')"
  shows "(case r of
       Inr p \<Rightarrow> p = dest \<and> (\<exists>b. files w' dest = Some b \<and> co_sha256 K b = sha)
     | Inl _ \<Rightarrow> files w' dest = files w dest)
    \<and> (\<forall>q. q \<noteq> dest \<longrightarrow> q \<noteq> join_path dir (''vmlinux-'' @ version @ ''.tmp'') \<longrightarrow> files w' q = files w q)"
proof -
  define tmp where "tmp = join_path dir (''vmlinux-'' @ version @ ''.tmp'')"
  have D: "download K dest dir url sha version = abind (ctx ''create kernel cache dir'' (co_create_dir K dir)) (\<lambda>_.
     abind (apure (co_get K url [])) (\<lambda>reply.
     case reply of
       None \<Rightarrow> afail ''download kernel''
     | Some resp \<Rightarrow>
         if \<not> is_success resp then afail ''kernel download returned HTTP error''
         else (case hr_body resp of
             None \<Rightarrow> afail ''read kernel body''
           | Some bs \<Rightarrow>
               abind (ctx ''write temp kernel'' (co_write K tmp bs)) (\<lambda>_.
               if co_sha256 K bs \<noteq> sha
               then abind (apure (co_remove K tmp)) (\<lambda>_. afail ''kernel SHA-256 mismatch on download'')
               else abind (ctx ''rename'' (co_rename K tmp dest)) (\<lambda>_. aret dest)))))"
    unfolding download_def Let_def tmp_def by (rule refl)
  have n: "dest \<noteq> tmp" using assms(2) unfolding tmp_def .
  obtain ok w1 where 1: "co_create_dir K dir w = (ok, w1)" by fastforce
  obtain reply w2 where 2: "co_get K url [] w1 = (reply, w2)" by fastforce
  have f2: "files w1 = files w" "files w2 = files w"
    using keepsD [OF create_dir 1] keepsD [OF get 2] by simp_all
  have "(case r of
       Inr p \<Rightarrow> p = dest \<and> (\<exists>b. files w' dest = Some b \<and> co_sha256 K b = sha)
     | Inl _ \<Rightarrow> files w' dest = files w dest)
    \<and> (\<forall>q. q \<noteq> dest \<longrightarrow> q \<noteq> tmp \<longrightarrow> files w' q = files w q)"
  proof (cases "ok \<and> (\<exists>resp bs. reply = Some resp \<and> is_success resp \<and> hr_body resp = Some bs)")
    case False
    then have "isl r \<and> (w' = w1 \<or> w' = w2)"
      using assms(1) by (auto simp: D abind_def ctx_def apure_def 1 2
          split: if_splits option.splits)
    then show ?thesis using f2 by (cases r) auto
  next
    case True
    then obtain resp bs where resp: "reply = Some resp" "is_success resp" "hr_body resp = Some bs" "ok" by blast
    obtain ok3 w3 where 3: "co_write K tmp bs w2 = (ok3, w3)" by fastforce
    have rest: "abind (ctx ''write temp kernel'' (co_write K tmp bs)) (\<lambda>_.
        if co_sha256 K bs \<noteq> sha
        then abind (apure (co_remove K tmp)) (\<lambda>_. afail ''kernel SHA-256 mismatch on download'')
        else abind (ctx ''rename'' (co_rename K tmp dest)) (\<lambda>_. aret dest)) w2 = (r, w')"
      using assms(1) resp by (simp add: D abind_def ctx_def apure_def 1 2)
    show ?thesis
    proof (cases ok3)
      case False
      then have "co_write K tmp bs w2 = (False, w3)" using 3 by simp
      from write_failed [OF this] obtain x where "files w3 = (files w2)(tmp := x)" by blast
      then show ?thesis using False 3 rest f2 n by (auto simp: abind_def ctx_def)
    next
      case True
      then have f3: "files w3 = (files w)(tmp \<mapsto> bs)" using write_done 3 f2 by auto
      show ?thesis
      proof (cases "co_sha256 K bs = sha")
        case False
        obtain ok4 w4 where 4: "co_remove K tmp w3 = (ok4, w4)" by fastforce
        have "isl r \<and> w' = w4" using rest True False by (auto simp: abind_def ctx_def apure_def 3 4)
        then show ?thesis using remove [OF 4] f3 n by (cases r) (auto split: if_splits)
      next
        case sha: True
        obtain ok4 w4 where 4: "co_rename K tmp dest w3 = (ok4, w4)" by fastforce
        have "r = (if ok4 then Inr dest else Inl ''rename'') \<and> w' = w4"
          using rest True sha by (auto simp: abind_def ctx_def 3 4)
        then show ?thesis using rename [OF 4] f3 n sha by (auto split: if_splits)
      qed
    qed
  qed
  then show ?thesis unfolding tmp_def .
qed

end

lemma join_path_suffix: "b \<noteq> [] \<Longrightarrow> join_path a (b @ c) = join_path a b @ c"
  by (cases b) (auto simp: join_path_def)

section \<open>A cache in memory\<close>

definition mem_cache :: "(bytes \<Rightarrow> string) \<Rightarrow> (string \<Rightarrow> http_reply option) \<Rightarrow> (string \<Rightarrow> bytes option) cache_ops" where
  "mem_cache hash net =
     \<lparr> co_exists = (\<lambda>p fs. fs p \<noteq> None), co_read = (\<lambda>p fs. fs p), co_remove = (\<lambda>p fs. (True, fs(p := None))),
       co_create_dir = (\<lambda>_ fs. (True, fs)), co_write = (\<lambda>p b fs. (True, fs(p \<mapsto> b))),
       co_rename = (\<lambda>p q fs. (True, fs(q := fs p, p := None))), co_get = (\<lambda>url _ fs. (net url, fs)),
       co_sha256 = hash \<rparr>"

interpretation mem_files: cache_files "mem_cache hash net" "\<lambda>fs. fs"
  by unfold_locales (auto simp: mem_cache_def intro: keepsI)

lemma ensure_kernel_without_override:
  assumes "env_override \<in> {None, Some []}" and "dest = join_path dir (''vmlinux-'' @ version)"
  shows "ensure_kernel_with K env_override dir url sha version w =
    (if co_exists K dest w then
       (case co_read K dest w of
          None \<Rightarrow> (Inl ''hash cached kernel'', w)
        | Some bs \<Rightarrow>
            if co_sha256 K bs = sha then (Inr dest, w)
            else abind (ctx ''remove corrupt cache file'' (co_remove K dest)) (\<lambda>_. download K dest dir url sha version) w)
     else download K dest dir url sha version w)"
  using assms by (auto simp: ensure_kernel_with_def Let_def)

text \<open>C13: without an override the guest kernel is the pinned one. When \<open>ensure_kernel_with\<close>
  succeeds, its path is the cache file of the version, and what is stored there then has the
  expected checksum, whether it was found or downloaded. When it fails, that file is as before
  or gone, never an unverified download. Besides it only the temporary file is written.\<close>

theorem kernel_is_verified:
  assumes "cache_files K files"
    and "ensure_kernel_with K env_override dir url sha version w = (r, w')"
    and "env_override \<in> {None, Some []}"
    and "dest = join_path dir (''vmlinux-'' @ version)"
  shows "(case r of
       Inr p \<Rightarrow> p = dest \<and> (\<exists>b. files w' dest = Some b \<and> co_sha256 K b = sha)
     | Inl _ \<Rightarrow> files w' dest \<in> {files w dest, None})
    \<and> (\<forall>q. q \<notin> {dest, dest @ ''.tmp''} \<longrightarrow> files w' q = files w q)"
proof -
  have tmp: "join_path dir (''vmlinux-'' @ version @ ''.tmp'') = dest @ ''.tmp''"
    using join_path_suffix [of "''vmlinux-'' @ version" dir "''.tmp''"] assms(4) by simp
  have d: "(case r of Inr p \<Rightarrow> p = dest \<and> (\<exists>b. files w' dest = Some b \<and> co_sha256 K b = sha)
      | Inl _ \<Rightarrow> files w' dest = files w1 dest) \<and> (\<forall>q. q \<noteq> dest \<longrightarrow> q \<noteq> dest @ ''.tmp'' \<longrightarrow> files w' q = files w1 q)"
    if "download K dest dir url sha version w1 = (r, w')" for w1
    using cache_files.download_result [OF assms(1) that, unfolded tmp] by simp
  note e = assms(2) [unfolded ensure_kernel_without_override [OF assms(3,4)]]
  show ?thesis
  proof (cases "co_exists K dest w")
    case False
    then show ?thesis using d [of w] e by (cases r) auto
  next
    case True
    show ?thesis
    proof (cases "co_read K dest w")
      case None
      then show ?thesis using e True by auto
    next
      case (Some bs)
      note rd = cache_files.read [OF assms(1) Some]
      obtain ok w1 where 1: "co_remove K dest w = (ok, w1)" by fastforce
      note rm = cache_files.remove [OF assms(1) 1]
      show ?thesis
      proof (cases "co_sha256 K bs = sha \<or> \<not> ok")
        case True
        then show ?thesis using e \<open>co_exists K dest w\<close> Some rd rm
          by (auto simp: abind_def ctx_def 1 split: if_splits)
      next
        case False
        then have "download K dest dir url sha version w1 = (r, w')"
          using e \<open>co_exists K dest w\<close> Some by (simp add: abind_def ctx_def 1)
        from d [OF this] show ?thesis using rm False by (cases r) auto
      qed
    qed
  qed
qed

definition example_cache :: "(string \<Rightarrow> bytes option) cache_ops" where
  "example_cache = mem_cache (\<lambda>b. if b = [1, 2] then ''ok'' else ''bad'')
     (\<lambda>_. Some \<lparr> hr_status = 200, hr_www_authenticate = None, hr_body = Some [1, 2] \<rparr>)"

theorem kernel_is_verified_witness:
  "\<exists>w' b. ensure_kernel_with example_cache None ''/c'' ''u'' ''ok'' ''1'' [''/c/vmlinux-1'' \<mapsto> [9]] = (Inr ''/c/vmlinux-1'', w')
     \<and> w' ''/c/vmlinux-1'' = Some b \<and> co_sha256 example_cache b = ''ok''"
proof -
  obtain r w' where run: "ensure_kernel_with example_cache None ''/c'' ''u'' ''ok'' ''1'' [''/c/vmlinux-1'' \<mapsto> [9]] = (r, w')"
    by (rule prod.exhaust)
  have d: "''/c/vmlinux-1'' = join_path ''/c'' (''vmlinux-'' @ ''1'')"
    by code_simp
  have "join_path ''/c'' ''vmlinux-1'' = ''/c/vmlinux-1''" by code_simp
  then have "\<not> isl r"
    using run by (auto simp: ensure_kernel_with_def download_def example_cache_def mem_cache_def abind_def ctx_def apure_def
        is_success_def Let_def)
  moreover have "cache_files example_cache (\<lambda>fs. fs)"
    unfolding example_cache_def by (rule mem_files.cache_files_axioms)
  from kernel_is_verified [OF this run _ d]
  have "case r of Inr p \<Rightarrow> p = ''/c/vmlinux-1'' \<and> (\<exists>b. w' ''/c/vmlinux-1'' = Some b \<and> co_sha256 example_cache b = ''ok'')
      | Inl _ \<Rightarrow> True"
    by (cases r) simp_all
  ultimately show ?thesis using run by (cases r) auto
qed

end
