(* ===== verification/OciCache.thy ===== *)
theory OciCache
  imports Kernel Json
begin

text \<open>
  \<open>bunsen-core/src/oci_cache.rs\<close>: from a digest-pinned image reference to a root file system
  in the cache. HTTP, files and the hash are the \<open>cache_ops\<close> of \<open>Kernel\<close>; the decoder of an
  archive, the file operations on the extracted tree, \<open>du\<close> and \<open>mkfs.ext4\<close> are \<open>image_ops\<close>.
  A path of an archive entry is the list of its components with a flag for absolute ones. Errors
  have the text of their outermost context.
\<close>

definition DEFAULT_ROOTFS_IMAGE :: string where
  "DEFAULT_ROOTFS_IMAGE =
     ''ghcr.io/xenolf/bunsen/bunsen-base'' @ [CHR 0x40] @ ''sha256:4b8bd93732bae93a0448bd019583a47b249db6197cd1331d1ddaaa0b16b19b36''"

section \<open>Image references\<close>

record oci_image_ref =
  oi_registry :: string
  oi_name :: string
  oi_digest :: string

definition split_registry_and_name :: "string \<Rightarrow> string \<times> string" where
  "split_registry_and_name path =
     (case split_once (CHR ''/'') path of
        Some (candidate, rest) \<Rightarrow>
          if CHR ''.'' \<in> set candidate \<or> CHR '':'' \<in> set candidate \<or> candidate = ''localhost''
          then (candidate, rest) else (''registry-1.docker.io'', path)
      | None \<Rightarrow> (''registry-1.docker.io'', path))"

definition oci_parse :: "string \<Rightarrow> string + oci_image_ref" where
  "oci_parse s =
     (case rsplit_once (CHR 0x40) s of
        None \<Rightarrow> Inl ''OCI reference must be digest-pinned''
      | Some (path, digest) \<Rightarrow>
          (case strip_prefix ''sha256:'' digest of
             None \<Rightarrow> Inl ''OCI digest must use sha256 algorithm''
           | Some hex \<Rightarrow>
               if length (str_bytes hex) \<noteq> 64 then Inl ''OCI sha256 digest must be exactly 64 hex chars''
               else if \<not> list_all is_hexdigit hex then Inl ''OCI sha256 digest contains non-hex chars''
               else (case split_registry_and_name path of
                   (registry, name) \<Rightarrow> Inr \<lparr> oi_registry = registry, oi_name = name, oi_digest = digest \<rparr>)))"

definition digest_hex :: "oci_image_ref \<Rightarrow> string" where
  "digest_hex r = unwrap_or [] (strip_prefix ''sha256:'' (oi_digest r))"

definition registry_scheme :: "string \<Rightarrow> string" where
  "registry_scheme registry =
     (let host = hd (split_on (CHR '':'') registry) in
      if host = ''localhost'' \<or> host = ''127.0.0.1'' \<or> host = ''::1'' then ''http'' else ''https'')"

section \<open>The world\<close>

type_synonym tar_path = "bool \<times> string list"

record ('w, 'e) image_ops =
  io_parse :: "string \<Rightarrow> json option"
  io_text :: "bytes \<Rightarrow> string"
  io_untar :: "bytes \<Rightarrow> (tar_path \<times> 'e) option list"
  io_exists :: "path \<Rightarrow> 'w \<Rightarrow> bool"
  io_is_dir :: "path \<Rightarrow> 'w \<Rightarrow> bool"
  io_read_dir :: "path \<Rightarrow> 'w \<Rightarrow> string list option"
  io_remove_all :: "path \<Rightarrow> 'w \<Rightarrow> 'w"
  io_remove_file :: "path \<Rightarrow> 'w \<Rightarrow> 'w"
  io_unpack :: "path \<Rightarrow> tar_path \<Rightarrow> 'e \<Rightarrow> 'w \<Rightarrow> bool \<times> 'w"
  io_tempdir :: "'w \<Rightarrow> string option \<times> 'w"
  io_drop_tempdir :: "string \<Rightarrow> 'w \<Rightarrow> unit \<times> 'w"
  io_du :: "string list \<Rightarrow> 'w \<Rightarrow> string option \<times> 'w"
  io_mkfs :: "string list \<Rightarrow> 'w \<Rightarrow> bool option \<times> 'w"
  io_pid :: nat

section \<open>The registry\<close>

definition OCI_ACCEPT_HEADERS :: "string list" where
  "OCI_ACCEPT_HEADERS =
     [''application/vnd.oci.image.manifest.v1+json'', ''application/vnd.docker.distribution.manifest.v2+json'',
      ''application/vnd.docker.distribution.manifest.list.v2+json'', ''application/vnd.oci.image.index.v1+json'']"

fun intercalate :: "string \<Rightarrow> string list \<Rightarrow> string" where
  "intercalate sep [] = []"
| "intercalate sep [x] = x"
| "intercalate sep (x # y # xs) = x @ sep @ intercalate sep (y # xs)"

definition accept_header :: "string \<times> string" where
  "accept_header = (''Accept'', intercalate '', '' OCI_ACCEPT_HEADERS)"

definition bearer :: "string option \<Rightarrow> (string \<times> string) list" where
  "bearer token = (case token of None \<Rightarrow> [] | Some t \<Rightarrow> [(''Authorization'', ''Bearer '' @ t)])"

definition parse_www_auth_field :: "string \<Rightarrow> string \<Rightarrow> string + string" where
  "parse_www_auth_field header field =
     (let needle = field @ ''='' @ [CHR 0x22] in
      case find_sub needle header of
        None \<Rightarrow> Inl (''no '' @ field @ ''= in Www-Authenticate'')
      | Some start \<Rightarrow>
          (case split_once (CHR 0x22) (drop (start + length needle) header) of
             None \<Rightarrow> Inl (''unterminated '' @ field @ '' value in Www-Authenticate'')
           | Some (v, _) \<Rightarrow> Inr v))"

definition parse_www_authenticate :: "string \<Rightarrow> string + (string \<times> string)" where
  "parse_www_authenticate www_auth =
     rbind (parse_www_auth_field www_auth ''realm'') (\<lambda>realm.
       Inr (realm, case parse_www_auth_field www_auth ''service'' of Inr s \<Rightarrow> s | Inl _ \<Rightarrow> []))"

text \<open>A request that has to succeed, with the body it must have.\<close>

definition send :: "'w cache_ops \<Rightarrow> string \<Rightarrow> string \<Rightarrow> (string \<times> string) list \<Rightarrow> ('w, string, http_reply) act" where
  "send K context url headers =
     abind (apure (co_get K url headers)) (\<lambda>r. case r of None \<Rightarrow> afail context | Some resp \<Rightarrow> aret resp)"

definition body_of :: "string \<Rightarrow> http_reply \<Rightarrow> ('w, string, bytes) act" where
  "body_of context resp = (case hr_body resp of None \<Rightarrow> afail context | Some b \<Rightarrow> aret b)"

definition fetch_token_from_challenge ::
  "'w cache_ops \<Rightarrow> ('w, 'e) image_ops \<Rightarrow> string \<Rightarrow> string \<Rightarrow> ('w, string, string) act" where
  "fetch_token_from_challenge K I www_auth name =
     abind (of_result (parse_www_authenticate www_auth)) (\<lambda>(realm, service).
     abind (send K ''fetch registry token''
       (realm @ ''?scope=repository:'' @ name @ '':pull&service='' @ service) []) (\<lambda>resp.
     if \<not> is_success resp then afail ''token endpoint returned an error''
     else abind (body_of ''parse token response'' resp) (\<lambda>b.
       case Option.bind (from_utf8 b) (io_parse I) of
         None \<Rightarrow> afail ''parse token response''
       | Some body \<Rightarrow>
           (case get_str ''token'' body of
              Some t \<Rightarrow> aret t
            | None \<Rightarrow> (case get_str ''access_token'' body of Some t \<Rightarrow> aret t | None \<Rightarrow> afail ''no token in response'')))))"

definition read_manifest_bytes :: "'w cache_ops \<Rightarrow> http_reply \<Rightarrow> ('w, string, string \<times> string) act" where
  "read_manifest_bytes K resp =
     abind (body_of ''read manifest body'' resp) (\<lambda>b.
     case from_utf8 b of
       None \<Rightarrow> afail ''manifest is not valid UTF-8''
     | Some body_str \<Rightarrow> aret (body_str, ''sha256:'' @ co_sha256 K b))"

definition manifest_url :: "oci_image_ref \<Rightarrow> string \<Rightarrow> string" where
  "manifest_url r digest =
     registry_scheme (oi_registry r) @ ''://'' @ oi_registry r @ ''/v2/'' @ oi_name r @ ''/manifests/'' @ digest"

definition pull_manifest ::
  "'w cache_ops \<Rightarrow> ('w, 'e) image_ops \<Rightarrow> oci_image_ref \<Rightarrow> ('w, string, string \<times> string \<times> string option) act" where
  "pull_manifest K I r =
     (let url = manifest_url r (oi_digest r) in
      abind (send K ''pull manifest'' url [accept_header]) (\<lambda>resp.
      if is_success resp
      then abind (read_manifest_bytes K resp) (\<lambda>(body, digest). aret (body, digest, None))
      else if hr_status resp = 401 \<and> unwrap_or [] (hr_www_authenticate resp) \<noteq> []
      then abind (aerr (\<lambda>_. ''obtain Bearer token from manifest www-authenticate challenge'')
        (fetch_token_from_challenge K I (unwrap_or [] (hr_www_authenticate resp)) (oi_name r))) (\<lambda>token.
        abind (send K ''pull manifest (authenticated)'' url (accept_header # bearer (Some token))) (\<lambda>resp2.
        if \<not> is_success resp2 then afail ''manifest pull returned an error''
        else abind (read_manifest_bytes K resp2) (\<lambda>(body, digest). aret (body, digest, Some token))))
      else afail ''manifest pull returned an error''))"

text \<open>\<open>manifest[k]\<close> is null for a missing key.\<close>

definition jindex :: "string \<Rightarrow> json \<Rightarrow> json" where
  "jindex k j = unwrap_or JNull (jget k j)"

definition resolve_image_manifest ::
  "'w cache_ops \<Rightarrow> ('w, 'e) image_ops \<Rightarrow> oci_image_ref \<Rightarrow> string option \<Rightarrow> json \<Rightarrow> ('w, string, json) act" where
  "resolve_image_manifest K I r token manifest =
     (let media_type = unwrap_or [] (as_str (jindex ''mediaType'' manifest));
          is_list = media_type = ''application/vnd.docker.distribution.manifest.list.v2+json''
            \<or> media_type = ''application/vnd.oci.image.index.v1+json''
      in if \<not> is_list then aret manifest
         else case as_array (jindex ''manifests'' manifest) of
           None \<Rightarrow> afail ''manifest list has no manifests array''
         | Some manifests \<Rightarrow>
             (case find (\<lambda>m. let p = jindex ''platform'' m in
                  as_str (jindex ''os'' p) = Some ''linux'' \<and> as_str (jindex ''architecture'' p) = Some ''amd64'') manifests of
                None \<Rightarrow> afail ''no linux/amd64 manifest in manifest list''
              | Some child \<Rightarrow>
                  (case as_str (jindex ''digest'' child) of
                     None \<Rightarrow> afail ''child manifest missing digest''
                   | Some child_digest \<Rightarrow>
                       abind (send K ''pull child manifest'' (manifest_url r child_digest) (accept_header # bearer token)) (\<lambda>resp.
                       if \<not> is_success resp then afail ''child manifest returned an error''
                       else abind (body_of ''child manifest body'' resp) (\<lambda>b.
                         case io_parse I (io_text I b) of
                           None \<Rightarrow> afail ''parse child manifest'' | Some j \<Rightarrow> aret j)))))"

definition pull_blob :: "'w cache_ops \<Rightarrow> oci_image_ref \<Rightarrow> string \<Rightarrow> string option \<Rightarrow> ('w, string, bytes) act" where
  "pull_blob K r digest token =
     abind (send K ''pull blob'' (registry_scheme (oi_registry r) @ ''://'' @ oi_registry r @ ''/v2/'' @ oi_name r
         @ ''/blobs/'' @ digest) (bearer token)) (\<lambda>resp.
     if \<not> is_success resp then afail ''blob pull returned an error'' else body_of ''read blob'' resp)"

section \<open>Layers\<close>

datatype whiteout_kind = Opaque | Named string | NotWhiteout

definition classify_whiteout :: "string \<Rightarrow> whiteout_kind" where
  "classify_whiteout fname =
     (if fname = ''.wh..wh..opq'' then Opaque
      else case strip_prefix ''.wh.'' fname of Some name \<Rightarrow> Named name | None \<Rightarrow> NotWhiteout)"

definition entry_name :: "tar_path \<Rightarrow> string" where
  "entry_name p = (if snd p = [] \<or> last (snd p) = ''..'' then [] else last (snd p))"

definition entry_parent :: "tar_path \<Rightarrow> tar_path option" where
  "entry_parent p = (if snd p = [] then None else Some (fst p, butlast (snd p)))"

definition join_tar :: "path \<Rightarrow> tar_path \<Rightarrow> path" where
  "join_tar dest p = (if fst p then snd p else dest @ snd p)"

definition push_name :: "path \<Rightarrow> string \<Rightarrow> path" where
  "push_name p name = (if name = [] \<or> name = ''.'' then p else p @ [name])"

definition remove_path :: "('w, 'e) image_ops \<Rightarrow> path \<Rightarrow> 'w \<Rightarrow> 'w" where
  "remove_path I p w = (if io_is_dir I p w then io_remove_all I p w else io_remove_file I p w)"

definition apply_entry :: "('w, 'e) image_ops \<Rightarrow> path \<Rightarrow> tar_path \<times> 'e \<Rightarrow> ('w, string, unit) act" where
  "apply_entry I dest entry w =
     (let (p, content) = entry in
      case classify_whiteout (entry_name p) of
        Opaque \<Rightarrow>
          (case entry_parent p of
             None \<Rightarrow> (Inr (), w)
           | Some parent \<Rightarrow>
               let target = join_tar dest parent in
               if \<not> io_exists I target w then (Inr (), w)
               else (case io_read_dir I target w of
                   None \<Rightarrow> (Inl ''read_dir'', w)
                 | Some names \<Rightarrow> (Inr (), foldl (\<lambda>w n. remove_path I (target @ [n]) w) w names)))
      | Named name \<Rightarrow>
          (Inr (), remove_path I (push_name (join_tar dest (unwrap_or (False, []) (entry_parent p))) name) w)
      | NotWhiteout \<Rightarrow>
          (case io_unpack I dest p content w of (ok, w') \<Rightarrow> (if ok then Inr () else Inl ''unpack tar entry'', w')))"

fun apply_entries :: "('w, 'e) image_ops \<Rightarrow> path \<Rightarrow> (tar_path \<times> 'e) option list \<Rightarrow> ('w, string, unit) act" where
  "apply_entries I dest [] = aret ()"
| "apply_entries I dest (None # es) = afail ''read tar entry''"
| "apply_entries I dest (Some e # es) = abind (apply_entry I dest e) (\<lambda>_. apply_entries I dest es)"

definition apply_layer :: "('w, 'e) image_ops \<Rightarrow> path \<Rightarrow> bytes \<Rightarrow> ('w, string, unit) act" where
  "apply_layer I dest layer_data = apply_entries I dest (io_untar I layer_data)"

text \<open>The layers in the order of the manifest, each pulled and applied before the next.\<close>

fun apply_layers ::
  "'w cache_ops \<Rightarrow> ('w, 'e) image_ops \<Rightarrow> oci_image_ref \<Rightarrow> string option \<Rightarrow> path \<Rightarrow> json list \<Rightarrow> ('w, string, unit) act" where
  "apply_layers K I r token dest [] = aret ()"
| "apply_layers K I r token dest (layer # layers) =
     (case as_str (jindex ''digest'' layer) of
        None \<Rightarrow> afail ''layer has no digest''
      | Some layer_digest \<Rightarrow>
          abind (aerr (\<lambda>_. ''pull layer '' @ layer_digest) (pull_blob K r layer_digest token)) (\<lambda>bs.
          abind (aerr (\<lambda>_. ''apply layer'') (apply_layer I dest bs)) (\<lambda>_.
          apply_layers K I r token dest layers)))"

definition pull_and_flatten ::
  "'w cache_ops \<Rightarrow> ('w, 'e) image_ops \<Rightarrow> oci_image_ref \<Rightarrow> path \<Rightarrow> ('w, string, unit) act" where
  "pull_and_flatten K I r dest =
     abind (pull_manifest K I r) (\<lambda>(manifest_json, actual_digest, token).
     if actual_digest \<noteq> oi_digest r then afail ''OCI digest mismatch''
     else case io_parse I manifest_json of
       None \<Rightarrow> afail ''parse OCI manifest JSON''
     | Some manifest \<Rightarrow>
         abind (resolve_image_manifest K I r token manifest) (\<lambda>m.
         case as_array (jindex ''layers'' m) of
           None \<Rightarrow> afail ''OCI manifest has no layers field''
         | Some layers \<Rightarrow> apply_layers K I r token dest layers))"

section \<open>The root file system\<close>

text \<open>The output is named \<open><hex>.ext4\<close>, so that \<open>with_extension\<close> appends here.\<close>

definition create_ext4_from_dir ::
  "'w cache_ops \<Rightarrow> ('w, 'e) image_ops \<Rightarrow> string \<Rightarrow> string \<Rightarrow> ('w, string, unit) act" where
  "create_ext4_from_dir K I source_dir output =
     abind (apure (io_du I [''du'', ''-sm'', source_dir])) (\<lambda>du.
     case du of
       None \<Rightarrow> afail ''du -sm''
     | Some out \<Rightarrow>
         let size_mb = (case split_whitespace out of [] \<Rightarrow> 512 | s # _ \<Rightarrow> unwrap_or 512 (parse_u32 s)) :: u32;
             padded = max (size_mb * 3 div 2) 512 + 256;
             tmp_output = output @ ''.tmp.'' @ show_nat (io_pid I)
         in abind (apure (co_remove K tmp_output)) (\<lambda>_.
            abind (apure (io_mkfs I [''mkfs.ext4'', ''-F'', ''-d'', source_dir, ''-b'', ''4096'', tmp_output,
              show_nat (unat padded) @ ''M''])) (\<lambda>status.
            case status of
              None \<Rightarrow> afail ''mkfs.ext4''
            | Some success \<Rightarrow>
                if \<not> success then abind (apure (co_remove K tmp_output)) (\<lambda>_. afail ''mkfs.ext4 failed'')
                else ctx ''rename'' (co_rename K tmp_output output))))"

definition is_valid_ext4 :: "bytes option \<Rightarrow> bool" where
  "is_valid_ext4 file =
     (case file of None \<Rightarrow> False | Some b \<Rightarrow> 1082 \<le> length b \<and> b ! 1080 = 0x53 \<and> b ! 1081 = 0xEF)"

definition resolve_rootfs ::
  "'w cache_ops \<Rightarrow> ('w, 'e) image_ops \<Rightarrow> string \<Rightarrow> string \<Rightarrow> ('w, string, string) act" where
  "resolve_rootfs K I cache_dir image_ref =
     abind (of_result (oci_parse image_ref)) (\<lambda>r.
     let cache_path = join_path cache_dir (digest_hex r @ ''.ext4'') in
     abind (\<lambda>w. if \<not> co_exists K cache_path w then (Inr False, w)
               else if is_valid_ext4 (co_read K cache_path w) then (Inr True, w)
               else (case co_remove K cache_path w of (_, w') \<Rightarrow> (Inr False, w'))) (\<lambda>hit.
     if hit then aret cache_path
     else abind (apure (io_tempdir I)) (\<lambda>tmp. case tmp of None \<Rightarrow> afail ''create temp dir for OCI extraction''
       | Some tmp_path \<Rightarrow>
           with_guard (io_drop_tempdir I tmp_path)
            (abind (aerr (\<lambda>_. ''pull and flatten OCI image'') (pull_and_flatten K I r (path_comps tmp_path))) (\<lambda>_.
             abind (ctx ''create rootfs cache dir'' (co_create_dir K cache_dir)) (\<lambda>_.
             abind (aerr (\<lambda>_. ''create rootfs ext4'') (create_ext4_from_dir K I tmp_path cache_path)) (\<lambda>_.
             aret cache_path)))))))"

section \<open>Properties\<close>

lemma hexdigit_ascii: "list_all is_hexdigit s \<Longrightarrow> is_ascii s"
  by (induction s) (auto simp: is_hexdigit_def is_digit_def)

text \<open>An image reference is accepted exactly when it is digest-pinned: some path, an at sign, and
  \<open>sha256:\<close> with 64 hex digits. The registry is the first segment of the path if that
  looks like a host, Docker's otherwise, and the name and the digest are kept as written.\<close>

theorem image_references_are_pinned:
  "oci_parse s = Inr r \<longleftrightarrow>
     (\<exists>path hex. s = path @ CHR 0x40 # ''sha256:'' @ hex \<and> length hex = 64 \<and> list_all is_hexdigit hex
       \<and> r = \<lparr> oi_registry = fst (split_registry_and_name path), oi_name = snd (split_registry_and_name path),
               oi_digest = ''sha256:'' @ hex \<rparr>)"
proof -
  have at: "CHR 0x40 \<notin> set (''sha256:'' @ hex)" if "list_all is_hexdigit hex" for hex
  proof -
    have "\<not> is_hexdigit (CHR 0x40)" by code_simp
    then show ?thesis using that by (auto simp: list_all_iff)
  qed
  show ?thesis
  proof
    assume "oci_parse s = Inr r"
    then obtain path hex where "rsplit_once (CHR 0x40) s = Some (path, ''sha256:'' @ hex)"
      "length (str_bytes hex) = 64" "list_all is_hexdigit hex"
      "r = \<lparr> oi_registry = fst (split_registry_and_name path), oi_name = snd (split_registry_and_name path),
             oi_digest = ''sha256:'' @ hex \<rparr>"
      by (auto simp: oci_parse_def strip_prefix_Some split: option.splits if_splits prod.splits)
    then show "\<exists>path hex. s = path @ CHR 0x40 # ''sha256:'' @ hex \<and> length hex = 64 \<and> list_all is_hexdigit hex
       \<and> r = \<lparr> oi_registry = fst (split_registry_and_name path), oi_name = snd (split_registry_and_name path),
               oi_digest = ''sha256:'' @ hex \<rparr>"
      by (auto simp: rsplit_once_Some length_str_bytes_ascii [OF hexdigit_ascii])
  next
    assume "\<exists>path hex. s = path @ CHR 0x40 # ''sha256:'' @ hex \<and> length hex = 64 \<and> list_all is_hexdigit hex
       \<and> r = \<lparr> oi_registry = fst (split_registry_and_name path), oi_name = snd (split_registry_and_name path),
               oi_digest = ''sha256:'' @ hex \<rparr>"
    then obtain path hex where h: "s = path @ CHR 0x40 # ''sha256:'' @ hex" "length hex = 64" "list_all is_hexdigit hex"
       "r = \<lparr> oi_registry = fst (split_registry_and_name path), oi_name = snd (split_registry_and_name path),
               oi_digest = ''sha256:'' @ hex \<rparr>" by blast
    have 1: "rsplit_once (CHR 0x40) s = Some (path, ''sha256:'' @ hex)"
      unfolding rsplit_once_Some using h(1) at [OF h(3)] by (intro conjI)
    have 2: "strip_prefix ''sha256:'' (''sha256:'' @ hex) = Some hex" by (simp only: strip_prefix_append)
    have 3: "length (str_bytes hex) = 64" using length_str_bytes_ascii [OF hexdigit_ascii [OF h(3)]] h(2) by simp
    show "oci_parse s = Inr r"
      unfolding oci_parse_def 1 option.case prod.case 2 by (simp add: 3 h(3,4) split: prod.split)
  qed
qed

lemma keeps_send: "(\<And>url hs. keeps f (co_get K url hs)) \<Longrightarrow> keeps f (send K c url hs)"
  unfolding send_def by (intro keeping)

lemma keeps_body: "keeps f (body_of c resp)"
  unfolding body_of_def by (intro keeping)

lemma keeps_pull_manifest:
  assumes "\<And>url hs. keeps f (co_get K url hs)"
  shows "keeps f (pull_manifest K I r)"
proof -
  have r: "keeps f (read_manifest_bytes K resp)" for resp
    unfolding read_manifest_bytes_def by (intro keeping keeps_body)
  have t: "keeps f (fetch_token_from_challenge K I www name)" for www name
    unfolding fetch_token_from_challenge_def case_prod_beta by (intro keeping keeps_body keeps_send assms)
  show ?thesis
    unfolding pull_manifest_def Let_def case_prod_beta by (intro keeping keeps_send assms r t)
qed

lemma pull_manifest_digest:
  assumes "pull_manifest K I r w = (Inr (body, digest, token), w')"
  shows "\<exists>b. from_utf8 b = Some body \<and> digest = ''sha256:'' @ co_sha256 K b"
proof -
  have "\<exists>b. from_utf8 b = Some body \<and> digest = ''sha256:'' @ co_sha256 K b"
    if "read_manifest_bytes K resp w1 = (Inr (body, digest), w2)" for resp w1 w2
    using that by (auto simp: read_manifest_bytes_def abind_Inr body_of_def split: option.splits)
  then show ?thesis
    using assms by (auto simp: pull_manifest_def Let_def abind_Inr split: if_splits)
qed


text \<open>A registry that answers every request with an empty body, and a tree that is the list of the
  entries unpacked. The manifest lists one layer, of one file.\<close>

definition demo_registry :: "string list cache_ops" where
  "demo_registry =
     \<lparr> co_exists = (\<lambda>_ _. False), co_read = (\<lambda>_ _. None), co_remove = (\<lambda>_ w. (True, w)),
       co_create_dir = (\<lambda>_ w. (True, w)), co_write = (\<lambda>_ _ w. (True, w)), co_rename = (\<lambda>_ _ w. (True, w)),
       co_get = (\<lambda>_ _ w. (Some \<lparr> hr_status = 200, hr_www_authenticate = None, hr_body = Some [] \<rparr>, w)),
       co_sha256 = (\<lambda>_. ''h'') \<rparr>"

definition demo_image :: "(string list, unit) image_ops" where
  "demo_image =
     \<lparr> io_parse = (\<lambda>_. Some (JObj [(''layers'', JArr [JObj [(''digest'', JStr ''d'')]])])), io_text = (\<lambda>_. []),
       io_untar = (\<lambda>_. [Some ((False, [''f'']), ())]), io_exists = (\<lambda>_ _. False), io_is_dir = (\<lambda>_ _. False),
       io_read_dir = (\<lambda>_ _. None), io_remove_all = (\<lambda>_ w. w), io_remove_file = (\<lambda>_ w. w),
       io_unpack = (\<lambda>_ p _ w. (True, w @ snd p)), io_tempdir = (\<lambda>w. (Some ''/t'', w)), io_drop_tempdir = (\<lambda>_ w. ((), w)),
       io_du = (\<lambda>_ w. (None, w)), io_mkfs = (\<lambda>_ w. (None, w)), io_pid = 1 \<rparr>"

definition demo_ref :: oci_image_ref where
  "demo_ref = \<lparr> oi_registry = ''r'', oi_name = ''n'', oi_digest = ''sha256:h'' \<rparr>"


section \<open>Whiteouts\<close>

text \<open>A whiteout is joined to the tree as the archive names it. One below \<open>..\<close> or with an
  absolute path removes something outside of the tree, and one without a name removes the
  directory it is in.\<close>

lemma whiteouts_leave_the_tree:
  "apply_entry I dest ((False, [''..'', ''.wh.x'']), c) w = (Inr (), remove_path I (dest @ [''..'', ''x'']) w)"
  "apply_entry I dest ((True, [''etc'', ''.wh.x'']), c) w = (Inr (), remove_path I [''etc'', ''x''] w)"
  "apply_entry I dest ((False, [''.wh.'']), c) w = (Inr (), remove_path I dest w)"
proof -
  have 1: "classify_whiteout (entry_name (False, [''..'', ''.wh.x''])) = Named ''x''"
    "classify_whiteout (entry_name (True, [''etc'', ''.wh.x''])) = Named ''x''"
    "classify_whiteout (entry_name (False, [''.wh.''])) = Named []" by code_simp+
  show "apply_entry I dest ((False, [''..'', ''.wh.x'']), c) w = (Inr (), remove_path I (dest @ [''..'', ''x'']) w)"
    "apply_entry I dest ((True, [''etc'', ''.wh.x'']), c) w = (Inr (), remove_path I [''etc'', ''x''] w)"
    "apply_entry I dest ((False, [''.wh.'']), c) w = (Inr (), remove_path I dest w)"
    unfolding apply_entry_def Let_def prod.case 1
    by (simp_all add: entry_parent_def unwrap_or_def join_tar_def push_name_def)
qed

text \<open>An opaque whiteout that follows the files of its own layer removes these too.\<close>

definition set_image :: "(path list, unit) image_ops" where
  "set_image =
     \<lparr> io_parse = (\<lambda>_. None), io_text = (\<lambda>_. []),
       io_untar = (\<lambda>_. [Some ((False, [''d'', ''f'']), ()), Some ((False, [''d'', ''.wh..wh..opq'']), ())]),
       io_exists = (\<lambda>p w. list_ex (prefix p) w), io_is_dir = (\<lambda>p w. list_ex (strict_prefix p) w),
       io_read_dir = (\<lambda>p w. Some (if list_ex (prefix (p @ [''f''])) w then [''f''] else [])),
       io_remove_all = (\<lambda>p w. filter (\<lambda>q. \<not> prefix p q) w), io_remove_file = (\<lambda>p w. removeAll p w),
       io_unpack = (\<lambda>d p _ w. (True, (d @ snd p) # w)), io_tempdir = (\<lambda>w. (None, w)), io_drop_tempdir = (\<lambda>_ w. ((), w)),
       io_du = (\<lambda>_ w. (None, w)), io_mkfs = (\<lambda>_ w. (None, w)), io_pid = 1 \<rparr>"

lemma opaque_whiteout_hides_its_layer: "apply_layer set_image [] [] [] = (Inr (), [])"
  by code_simp

text \<open>The host of an IPv6 registry is cut at its first colon.\<close>

lemma loopback_v6_is_not_local: "registry_scheme ''[::1]:5000'' = ''https''" "registry_scheme ''::1'' = ''https''"
  by code_simp+

end
