(* ===== verification/CliRun.thy ===== *)
theory CliRun
  imports OciCache SandboxRun SessionCli
begin

text \<open>
  \<open>run_main\<close> and \<open>run_with_backend\<close> of \<open>bunsen-core/src/main.rs\<close>: the command \<open>run\<close>, with a
  Session or alone. It composes the image cache, the guest kernel, the firewall gate of
  the network actor, the Run directory and the sandboxed Run or the supervisor. The
  process ends with a value of \<open>cli_error\<close> or without one; \<open>unwrap\<close> is \<open>CliPanic\<close>.
\<close>

datatype cli_error =
    CliInputs run_main_message
  | CliKernel string
  | CliFirewall string
  | CliDirectory
  | CliSecrets
  | CliTranscript
  | CliPanic
  | CliBackend run_error

record ('w, 'e) cli_sys =
  cl_session :: "'w session_ops"
  cl_cache :: "'w cache_ops"
  cl_image :: "('w, 'e) image_ops"
  cl_run :: "'w run_sys"
  cl_owner :: "string option"
  cl_supervisor :: "run_spec \<Rightarrow> string \<Rightarrow> string \<Rightarrow> string option \<Rightarrow> ('w, string, unit) act"

record run_args =
  ra_spec :: string
  ra_kernel :: "string option"
  ra_rootfs :: "string option"
  ra_firecracker :: "string option"
  ra_session :: "string option"
  ra_manage_firewall :: bool
  ra_as_user :: "string option"

definition cli_session_dir :: "environment \<Rightarrow> string" where
  "cli_session_dir env = join_path (sessions_root env) ''__cli__''"

definition cli_kernel :: "('w, 'e) cli_sys \<Rightarrow> environment \<Rightarrow> run_args \<Rightarrow> run_spec \<Rightarrow> ('w, cli_error, string option) act" where
  "cli_kernel C env a spec =
     (case ra_kernel a of
        Some k \<Rightarrow> aret (Some k)
      | None \<Rightarrow>
          if rs_oci_image spec \<noteq> None \<or> ra_rootfs a \<noteq> None
          then abind (aerr CliKernel (ensure_kernel (cl_cache C) env)) (\<lambda>p. aret (Some p))
          else aret None)"

text \<open>The probe of the actor, as \<open>firewall::enforce_host_firewall_policy\<close> reads it.\<close>

definition probe_result :: "net_error + net_reply \<Rightarrow> net_error + string option" where
  "probe_result r = (case r of Inl e \<Rightarrow> Inl e | Inr (Text t) \<Rightarrow> Inr t | Inr Done \<Rightarrow> Inr None)"

definition cli_firewall :: "('w, 'e) cli_sys \<Rightarrow> run_args \<Rightarrow> ('w, cli_error, unit) act" where
  "cli_firewall C a =
     abind (apure (net_call (rn_net (cl_run C)) ProbeFirewall)) (\<lambda>r.
     case enforce_host_firewall_policy (ra_manage_firewall a) (probe_result r) of
       Inl msg \<Rightarrow> afail (CliFirewall msg)
     | Inr _ \<Rightarrow> aret ())"

definition cli_backend ::
  "('w, 'e) cli_sys \<Rightarrow> environment \<Rightarrow> run_args \<Rightarrow> string option \<Rightarrow> run_spec \<Rightarrow> string \<Rightarrow> string \<Rightarrow> string option
     \<Rightarrow> ('w, run_error, unit) act" where
  "cli_backend C env a resolved_kernel spec run_id workspace_path history =
     (case resolved_kernel of
        Some kernel_path \<Rightarrow>
          abind (case ra_rootfs a of
              Some p \<Rightarrow> aret p
            | None \<Rightarrow> aerr RunIo (resolve_rootfs (cl_cache C) (cl_image C) (rootfs_cache env)
                (unwrap_or DEFAULT_ROOTFS_IMAGE (resolve_oci_image spec)))) (\<lambda>rootfs.
          sandbox_run (cl_run C) kernel_path rootfs (ra_firecracker a) (ra_manage_firewall a) spec run_id
            workspace_path None (unwrap_or ''root'' (cl_owner C)))
      | None \<Rightarrow> aerr RunIo (cl_supervisor C spec run_id workspace_path history))"

text \<open>The first and the last metadata, and the directory that the Run has for itself.\<close>

definition cli_record ::
  "('w, 'e) cli_sys \<Rightarrow> run_spec \<Rightarrow> string \<Rightarrow> string \<Rightarrow> string \<Rightarrow> (run_error + unit) option \<Rightarrow> ('w, cli_error, string) act" where
  "cli_record C spec run_id run_dir started_at result =
     (case result of
        None \<Rightarrow> abind (aor () (run_dir_write_meta (cl_session C) run_dir (run_meta_of spec run_id started_at None None)))
                  (\<lambda>_. aret started_at)
      | Some r \<Rightarrow>
          abind (apure (so_now (cl_session C))) (\<lambda>ended_at.
          abind (aor () (run_dir_write_meta (cl_session C) run_dir (run_meta_of spec run_id started_at (Some ended_at)
              (Some (if isl r then ''supervisor_error'' else ''agent_exit''))))) (\<lambda>_.
          aret ended_at)))"

definition cli_secrets :: "run_spec \<Rightarrow> ('w, cli_error, redactor option) act" where
  "cli_secrets spec = aerr (\<lambda>_. CliSecrets) (build_redactor spec)"

definition run_main_alone ::
  "('w, 'e) cli_sys \<Rightarrow> environment \<Rightarrow> run_args \<Rightarrow> run_spec \<Rightarrow> ('w, cli_error, unit) act" where
  "run_main_alone C env a spec =
     (let K = cl_session C; session_path = cli_session_dir env in
      abind (cli_kernel C env a spec) (\<lambda>resolved_kernel.
      abind (if resolved_kernel \<noteq> None then cli_firewall C a else aret ()) (\<lambda>_.
      abind (apure (so_ulid K)) (\<lambda>run_id.
      abind (aerr (\<lambda>_. CliDirectory) (aio (sys_create_dir (so_sys K) session_path))) (\<lambda>_.
      abind (aerr (\<lambda>_. CliDirectory) (run_dir_create K session_path run_id)) (\<lambda>run_dir.
      abind (aor () (run_dir_write_spec K run_dir (ra_spec a))) (\<lambda>_.
      let workspace_path = join_path run_dir ''workspace'' in
      abind (aerr (\<lambda>_. CliDirectory) (aio (sys_create_dir (so_sys K) workspace_path))) (\<lambda>_.
      abind (apure (so_now K)) (\<lambda>started_at.
      abind (cli_record C spec run_id run_dir started_at None) (\<lambda>_.
      abind (cli_secrets spec) (\<lambda>rx.
      abind (aerr (\<lambda>_. CliTranscript) (aio (so_new_encoder K run_id (transcript_path run_dir) rx))) (\<lambda>_.
      abind (aerr (\<lambda>_. CliPanic) (emit_event K ''run_started'' (JObj (jmap_of
              [(''adapter'', JStr (rs_adapter spec)), (''workspace_path'', JStr workspace_path),
               (''transcript_path'', JStr (transcript_path run_dir))])))) (\<lambda>_.
      abind (apure (cli_backend C env a resolved_kernel spec run_id workspace_path (Some (agent_history_path run_dir)))) (\<lambda>result.
      abind (cli_record C spec run_id run_dir started_at (Some result)) (\<lambda>_.
      (case result of Inl e \<Rightarrow> afail (CliBackend e) | Inr _ \<Rightarrow> aret ()))))))))))))))))"

text \<open>The whole command; a Run in a Session prints its result.\<close>

definition run_main ::
  "('w, 'e) cli_sys \<Rightarrow> 'w proc_ops \<Rightarrow> system_context \<Rightarrow> environment \<Rightarrow> spec_parser \<Rightarrow> run_args
     \<Rightarrow> ('w, cli_error, json option) act" where
  "run_main C P system env parse a w =
     (case run_main_inputs P system env parse (ra_as_user a) (ra_spec a) w of
        Inl e \<Rightarrow> (Inl (CliInputs e), w)
      | Inr (spec, env') \<Rightarrow>
          (case ra_session a of
             Some sid \<Rightarrow> abind (aerr CliInputs (run_main_session (cl_session C) spec env'
                 \<lparr> rb_kernel = ra_kernel a, rb_rootfs = ra_rootfs a, rb_firecracker_bin = ra_firecracker a,
                   rb_manage_firewall = ra_manage_firewall a \<rparr> sid)) (\<lambda>j. aret (Some j))
           | None \<Rightarrow> abind (run_main_alone C env' a spec) (\<lambda>_. aret None)) w)"

text \<open>What a Run may do to the network: nothing, or what its own names allow.\<close>

definition within_names :: "bool \<Rightarrow> 'x + 'a \<Rightarrow> net_view \<Rightarrow> net_view \<Rightarrow> bool" where
  "within_names managed r v v' \<longleftrightarrow> v' = v \<or> (\<exists>run_id tap t. derive_tap_name run_id = Some tap \<and> derive_table_name run_id = Some t
     \<and> (v' = cleaned managed tap t v \<or> isl r \<and> nv_taps v' - {tap} = nv_taps v - {tap}
          \<and> nv_tables v' - {t} = nv_tables v - {t} \<and> nv_allow v' \<in> {nv_allow v, nv_allow (cleaned managed tap t v)}))"

section \<open>The network of the host\<close>

text \<open>Downloads, files, the clock and the supervisor on the host leave devices, rules and tables
  alone, and an identifier of a Run has names.\<close>

locale cli_host = run_host "cl_run C" view tables_of
  for C :: "('w, 'e) cli_sys" and view and tables_of +
  assumes files: "keeps view (co_create_dir (cl_cache C) p)" "keeps view (co_remove (cl_cache C) p)"
      "keeps view (co_write (cl_cache C) p b)" "keeps view (co_rename (cl_cache C) p q)"
    and get: "keeps view (co_get (cl_cache C) url hs)"
    and tree: "view (io_remove_all (cl_image C) t w) = view w" "view (io_remove_file (cl_image C) t w) = view w"
      "keeps view (io_unpack (cl_image C) t tp e)"
    and image_tools: "keeps view (io_tempdir (cl_image C))" "keeps view (io_drop_tempdir (cl_image C) p)"
      "keeps view (io_du (cl_image C) args)" "keeps view (io_mkfs (cl_image C) args)"
    and host: "keeps view (so_now (cl_session C))" "keeps view (so_ulid (cl_session C))"
      "keeps view (sys_create_dir (so_sys (cl_session C)) p)" "keeps view (so_write_file (cl_session C) p s)"
      "keeps view (so_new_encoder (cl_session C) p q rx)" "keeps view (so_emit (cl_session C) s j)"
    and supervisor: "keeps view (cl_supervisor C spec p q h)"
    and names: "so_ulid (cl_session C) w = (run_id, w') \<Longrightarrow>
        derive_tap_name run_id \<noteq> None \<and> derive_table_name run_id \<noteq> None"
begin

lemma keeps_ctx: "keeps view m \<Longrightarrow> keeps view (ctx c m)"
  by (rule keepsI) (auto simp: ctx_def split: prod.splits dest: keepsD)

lemma keeps_aio: "keeps view m \<Longrightarrow> keeps view (aio m)"
  by (rule keepsI) (auto simp: aio_def split: prod.splits bool.splits dest: keepsD)

lemma keeps_kernel: "keeps view (ensure_kernel (cl_cache C) env)"
proof -
  have d: "keeps view (download (cl_cache C) dest dir url sha v)" for dest dir url sha v
    unfolding download_def Let_def by (intro keeping keeps_ctx files get)
  have r: "keeps view (abind (ctx c (co_remove (cl_cache C) dest)) (\<lambda>_. download (cl_cache C) dest dir url sha v))"
    for c dest dir url sha v
    by (intro keeping keeps_ctx files d)
  have "keeps view (ensure_kernel_with (cl_cache C) ov dir url sha v)" for ov dir url sha v
  proof (rule keepsI)
    fix w x w'
    assume "ensure_kernel_with (cl_cache C) ov dir url sha v w = (x, w')"
    then show "view w' = view w"
      by (auto simp: ensure_kernel_with_def Let_def split: if_splits option.splits dest: keepsD [OF d] keepsD [OF r])
  qed
  then show ?thesis unfolding ensure_kernel_def by (intro keeping)
qed

lemma remove_path_view: "view (remove_path (cl_image C) t w) = view w"
  by (simp add: remove_path_def tree)

lemma keeps_layer: "keeps view (apply_layer (cl_image C) dest b)"
proof -
  have f: "view (foldl (\<lambda>w n. remove_path (cl_image C) (t @ [n]) w) w ns) = view w" for t w ns
    by (induction ns arbitrary: w) (simp_all add: remove_path_view)
  have e: "keeps view (apply_entry (cl_image C) dest x)" for dest x
  proof (rule keepsI)
    fix w r w'
    assume "apply_entry (cl_image C) dest x w = (r, w')"
    then show "view w' = view w"
      by (auto simp: apply_entry_def Let_def f remove_path_view split: prod.splits whiteout_kind.splits option.splits if_splits
          dest: keepsD [OF tree(3)])
  qed
  have "keeps view (apply_entries (cl_image C) dest es)" for es
  proof (induction "cl_image C" dest es rule: apply_entries.induct)
    case (3 dest x es)
    show ?case unfolding apply_entries.simps by (intro keeping e 3)
  qed (simp_all only: apply_entries.simps keeping)
  then show ?thesis unfolding apply_layer_def .
qed

lemma keeps_rootfs: "keeps view (resolve_rootfs (cl_cache C) (cl_image C) dir image_ref)"
proof -
  have s: "keeps view (send (cl_cache C) c url hs)" for c url hs
    by (intro keeps_send get)
  have b: "keeps view (pull_blob (cl_cache C) r d token)" for r d token
    unfolding pull_blob_def by (intro keeping s keeps_body)
  have l: "keeps view (apply_layers (cl_cache C) (cl_image C) r token dest ls)" for r token dest ls
  proof (induction ls)
    case (Cons x ls)
    show ?case unfolding apply_layers.simps by (intro keeping b keeps_layer Cons)
  qed (simp only: apply_layers.simps keeping)
  have m: "keeps view (resolve_image_manifest (cl_cache C) (cl_image C) r token j)" for r token j
    unfolding resolve_image_manifest_def Let_def by (intro keeping s keeps_body)
  have p: "keeps view (pull_and_flatten (cl_cache C) (cl_image C) r dest)" for r dest
    unfolding pull_and_flatten_def case_prod_beta by (intro keeping keeps_pull_manifest get m l)
  have x: "keeps view (create_ext4_from_dir (cl_cache C) (cl_image C) src out)" for src out
    unfolding create_ext4_from_dir_def Let_def by (intro keeping keeps_ctx files image_tools)
  have h: "keeps view (\<lambda>w. if \<not> co_exists (cl_cache C) p w then (Inr False, w)
      else if is_valid_ext4 (co_read (cl_cache C) p w) then (Inr True, w)
      else (case co_remove (cl_cache C) p w of (_, w') \<Rightarrow> (Inr False, w')))" for p
    by (rule keepsI) (auto split: if_splits prod.splits dest: keepsD [OF files(2)])
  show ?thesis
    unfolding resolve_rootfs_def Let_def by (intro keeping h p x keeps_ctx files image_tools)
qed

lemma keeps_net_probe: "keeps view (net_call (rn_net (cl_run C)) ProbeFirewall)"
  by (rule keepsI) (auto simp: call run_actor_cmd_def exec_probe_firewall_def abind_def proc net_effect_def
      split: prod.splits sum.splits proc_result.splits if_splits)

lemma keeps_firewall: "keeps view (cli_firewall C a)"
  unfolding cli_firewall_def by (intro keeping keeps_net_probe)

lemma keeps_cli_kernel: "keeps view (cli_kernel C env a spec)"
  unfolding cli_kernel_def by (intro keeping keeps_kernel)

lemma keeps_record: "keeps view (cli_record C spec run_id dir t r)"
  unfolding cli_record_def run_dir_write_meta_def by (intro keeping keeps_aio host)

definition tidy :: "bool \<Rightarrow> ('w, 'x, 'a) act \<Rightarrow> bool" where
  "tidy managed m \<longleftrightarrow> (\<forall>w r w'. m w = (r, w') \<longrightarrow> within_names managed r (view w) (view w'))"

lemma tidyD: "tidy managed m \<Longrightarrow> m w = (r, w') \<Longrightarrow> within_names managed r (view w) (view w')"
  unfolding tidy_def by blast

lemma tidy_keeps: "keeps view m \<Longrightarrow> tidy managed m"
  by (auto simp: tidy_def within_names_def dest: keepsD)

lemma tidy_bind_when:
  assumes m: "keeps view m" and P: "\<And>w x w'. m w = (Inr x, w') \<Longrightarrow> P x" and g: "\<And>x. P x \<Longrightarrow> tidy managed (g x)"
  shows "tidy managed (abind m g)"
  unfolding tidy_def
proof (intro allI impI)
  fix w r w'
  assume run: "abind m g w = (r, w')"
  obtain q w1 where q: "m w = (q, w1)" by fastforce
  show "within_names managed r (view w) (view w')"
  proof (cases q)
    case (Inl e)
    then show ?thesis using run q keepsD [OF m q] by (auto simp: abind_def within_names_def)
  next
    case (Inr x)
    then have "g x w1 = (r, w')" using run q by (simp add: abind_def)
    from tidyD [OF g [OF P [OF q [unfolded Inr]]] this] show ?thesis unfolding keepsD [OF m q] .
  qed
qed

lemma tidy_bind: "keeps view m \<Longrightarrow> (\<And>x. tidy managed (g x)) \<Longrightarrow> tidy managed (abind m g)"
  by (rule tidy_bind_when [of m "\<lambda>_. True"]) simp_all

text \<open>The last steps keep the network and report whether the Run failed.\<close>

lemma tidy_end:
  assumes m: "tidy managed m" and g: "\<And>x. keeps view (g x)"
    and r: "\<And>x w y w'. g x w = (y, w') \<Longrightarrow> isl y \<longleftrightarrow> isl x"
  shows "tidy managed (abind (apure m) g)"
  unfolding tidy_def
proof (intro allI impI)
  fix w r' w'
  assume run: "abind (apure m) g w = (r', w')"
  obtain q w1 where q: "m w = (q, w1)" by fastforce
  then have "g q w1 = (r', w')" using run by (simp add: abind_def apure_def)
  then show "within_names managed r' (view w) (view w')"
    using tidyD [OF m q] keepsD [OF g] r [of q w1 r' w'] unfolding within_names_def by (metis (full_types))
qed

lemma sandbox_run_tidy:
  assumes "derive_tap_name run_id \<noteq> None \<and> derive_table_name run_id \<noteq> None"
  shows "tidy managed (sandbox_run (cl_run C) kp rf bin managed spec run_id ws extraction owner)"
  unfolding tidy_def
proof (intro allI impI)
  fix w r w'
  assume run: "sandbox_run (cl_run C) kp rf bin managed spec run_id ws extraction owner w = (r, w')"
  obtain tap t where names: "derive_tap_name run_id = Some tap" "derive_table_name run_id = Some t" using assms by auto
  from sandbox_run_view [OF run names]
  have "view w' = cleaned managed tap t (view w) \<or> isl r \<and> nv_taps (view w') - {tap} = nv_taps (view w) - {tap}
        \<and> nv_tables (view w') - {t} = nv_tables (view w) - {t}
        \<and> nv_allow (view w') \<in> {nv_allow (view w), nv_allow (cleaned managed tap t (view w))}"
  proof (elim disjE)
    assume "(\<exists>e. r = Inl (RunIo (rn_show_fc (cl_run C) e))) \<and>
      view w' = (cleaned managed tap t (view w)) \<lparr> nv_tables := insert t (nv_tables (view w)) \<rparr>"
    then show ?thesis by (elim conjE exE) (simp add: cleaned_def)
  next
    assume "(\<exists>e. r = Inl (RunIo (rn_show_net (cl_run C) e))) \<and> nv_taps (view w') - {tap} = nv_taps (view w) - {tap}
      \<and> nv_tables (view w') = nv_tables (view w)
      \<and> nv_allow (view w') \<in> {nv_allow (view w), nv_allow (cleaned managed tap t (view w))}"
    then show ?thesis by (elim conjE exE) (simp only: sum.disc(1) simp_thms)
  qed (rule disjI1)
  then show "within_names managed r (view w) (view w')"
    unfolding within_names_def using names by blast
qed

lemma backend_tidy:
  assumes "derive_tap_name run_id \<noteq> None \<and> derive_table_name run_id \<noteq> None"
  shows "tidy (ra_manage_firewall a) (cli_backend C env a k spec run_id ws h)"
proof (cases k)
  case None
  then show ?thesis unfolding cli_backend_def by (simp only: option.case) (intro tidy_keeps keeping supervisor)
next
  case (Some kp)
  show ?thesis
    unfolding cli_backend_def Some option.case
    by (rule tidy_bind [OF _ sandbox_run_tidy [OF assms]])
      (cases "ra_rootfs a"; simp only: option.case; intro keeping keeps_rootfs)
qed

lemma record_never_fails: "cli_record C spec run_id dir t r w = (x, w') \<Longrightarrow> \<not> isl x"
  by (auto simp: cli_record_def abind_def aor_def apure_def aret_def split: option.splits prod.splits sum.splits)

lemma alone_tidy: "tidy (ra_manage_firewall a) (run_main_alone C env a spec)"
proof -
  have n: "derive_tap_name x \<noteq> None \<and> derive_table_name x \<noteq> None"
    if "apure (so_ulid (cl_session C)) w = (Inr x, w')" for w x w'
    using that names by (auto simp: apure_def split: prod.splits)
  have last: "tidy (ra_manage_firewall a) (abind (apure (cli_backend C env a k spec run_id ws h)) (\<lambda>result.
      abind (cli_record C spec run_id dir t (Some result)) (\<lambda>_.
      (case result of Inl e \<Rightarrow> afail (CliBackend e) | Inr _ \<Rightarrow> aret ()))))"
    if "derive_tap_name run_id \<noteq> None \<and> derive_table_name run_id \<noteq> None" for k run_id ws h dir t
  proof (rule tidy_end [OF backend_tidy [OF that]])
    show "keeps view (abind (cli_record C spec run_id dir t (Some x)) (\<lambda>_. case x of Inl e \<Rightarrow> afail (CliBackend e) | Inr _ \<Rightarrow> aret ()))" for x
      by (intro keeping keeps_record)
    show "isl y \<longleftrightarrow> isl x" if "abind (cli_record C spec run_id dir t (Some x)) (\<lambda>_. case x of Inl e \<Rightarrow> afail (CliBackend e) | Inr _ \<Rightarrow> aret ()) w = (y, w')"
      for x :: "run_error + unit" and w y w'
    proof -
      obtain q w1 where q: "cli_record C spec run_id dir t (Some x) w = (q, w1)" by fastforce
      with record_never_fails [OF q] that show ?thesis by (cases q; cases x) (auto simp: abind_def)
    qed
  qed
  show ?thesis
    unfolding run_main_alone_def Let_def run_dir_create_def run_dir_write_spec_def cli_secrets_def build_redactor_def emit_event_def
    apply (rule tidy_bind, rule keeps_cli_kernel)
    apply (rule tidy_bind, intro keeping keeps_firewall)
    apply (rule tidy_bind_when [where P = "\<lambda>x. derive_tap_name x \<noteq> None \<and> derive_table_name x \<noteq> None"])
      apply (intro keeping host)
     apply (rule n, assumption)
    apply ((rule last, assumption | rule tidy_bind, intro keeping keeps_aio keeps_record host))+
    done
qed

end

section \<open>A Run on the small host\<close>

definition sim_cli :: "(net_view, unit) cli_sys" where
  "sim_cli =
     \<lparr> cl_session = \<lparr> so_host = dk_host (rn_disk (sim_run (\<lambda>_. False) healthy_vm)), so_linux = True, so_uid = 0, so_username = ''root'',
         so_debug = (\<lambda>s. s), so_io_text = [], so_meta_text = (\<lambda>_. None), so_meta_parse = (\<lambda>_. None),
         so_run_meta_text = (\<lambda>_. []), so_json_text = (\<lambda>_. []), so_read_file = (\<lambda>_ _. ReadFailed IoNotFound),
         so_write_file = (\<lambda>_ _ w. (True, w)), so_rename = (\<lambda>_ _ w. (True, w)), so_read_dir = (\<lambda>_ _. None),
         so_is_dir = (\<lambda>_ _. True), so_now = (\<lambda>w. ([], w)), so_ulid = (\<lambda>w. (run_ulid, w)),
         so_ensure_kernel = (\<lambda>w. (Inr ''/k'', w)), so_resolve_rootfs = (\<lambda>_ w. (Inr ''/r'', w)),
         so_probe_firewall = (\<lambda>w. (Inr None, w)), so_new_encoder = (\<lambda>_ _ _ w. (True, w)), so_emit = (\<lambda>_ _ w. (True, w)),
         so_copy_history = (\<lambda>_ _ _ w. (True, w)), so_supervisor = (\<lambda>_ _ _ w. (Inr (), w)),
         so_sandbox = (\<lambda>_ _ _ _ _ _ _ w. (Inr (), w)) \<rparr>,
       cl_cache = \<lparr> co_exists = (\<lambda>_ _. False), co_read = (\<lambda>_ _. None), co_remove = (\<lambda>_ w. (True, w)),
         co_create_dir = (\<lambda>_ w. (True, w)), co_write = (\<lambda>_ _ w. (True, w)), co_rename = (\<lambda>_ _ w. (True, w)),
         co_get = (\<lambda>_ _ w. (None, w)), co_sha256 = (\<lambda>_. []) \<rparr>,
       cl_image = \<lparr> io_parse = (\<lambda>_. None), io_text = (\<lambda>_. []), io_untar = (\<lambda>_. []), io_exists = (\<lambda>_ _. False),
         io_is_dir = (\<lambda>_ _. False), io_read_dir = (\<lambda>_ _. None), io_remove_all = (\<lambda>_ w. w), io_remove_file = (\<lambda>_ w. w),
         io_unpack = (\<lambda>_ _ _ w. (True, w)), io_tempdir = (\<lambda>w. (None, w)), io_drop_tempdir = (\<lambda>_ w. ((), w)),
         io_du = (\<lambda>_ w. (None, w)), io_mkfs = (\<lambda>_ w. (None, w)), io_pid = 1 \<rparr>,
       cl_run = sim_run (\<lambda>_. False) healthy_vm, cl_owner = None, cl_supervisor = (\<lambda>_ _ _ _ w. (Inr (), w)) \<rparr>"

lemma sim_cli_host: "cli_host sim_cli (\<lambda>v. v) ruleset_tables"
proof (rule cli_host.intro)
  have "cl_run sim_cli = sim_run (\<lambda>_. False) healthy_vm" by (simp add: sim_cli_def)
  then show "run_host (cl_run sim_cli) (\<lambda>v. v) ruleset_tables" by (simp only: small_host.run_host_axioms)
  show "cli_host_axioms sim_cli (\<lambda>v. v)"
    by unfold_locales (auto simp: sim_cli_def sim_run_def so_sys_def run_ulid_names intro!: keepsI)
qed

interpretation small_cli: cli_host sim_cli "\<lambda>v. v" ruleset_tables
  by (rule sim_cli_host)


definition example_args :: run_args where
  "example_args = \<lparr> ra_spec = ''{}'', ra_kernel = Some ''/k'', ra_rootfs = Some ''/r'', ra_firecracker = None, ra_session = None,
     ra_manage_firewall = True, ra_as_user = None \<rparr>"

lemma within_names_taps:
  assumes "within_names managed r v v'"
  shows "nv_taps v' = nv_taps v \<or> (\<exists>run_id tap. derive_tap_name run_id = Some tap \<and> nv_taps v' - {tap} = nv_taps v - {tap})"
  using assms unfolding within_names_def
proof (elim disjE exE conjE)
  fix run_id tap t
  assume n: "derive_tap_name run_id = Some tap" and "v' = cleaned managed tap t v"
  then have "nv_taps v' - {tap} = nv_taps v - {tap}" by (simp add: cleaned_def)
  then show ?thesis using n by blast
qed blast+

definition example_proc :: "net_view proc_ops" where
  "example_proc =
     \<lparr> pr_geteuid = (\<lambda>_. 1000), pr_getuid = (\<lambda>_. 1000), pr_initgroups = (\<lambda>_ _ w. (True, w)),
       pr_setresgid = (\<lambda>_ _ _ w. (True, w)), pr_setresuid = (\<lambda>_ _ _ w. (True, w)) \<rparr>"

definition example_system :: system_context where
  "example_system =
     \<lparr> lookup_user_by_uid = (\<lambda>_. None), lookup_user_by_name = (\<lambda>_. None),
       get_supplementary_groups = (\<lambda>_ g. [g]), home_exists = (\<lambda>_. True) \<rparr>"

definition example_parse :: spec_parser where
  "example_parse _ = Some
     \<lparr> raw_adapter = ''black-box'', raw_cmd = [''true''], raw_env = None, raw_secrets = None, raw_strategy = None,
       raw_output_branch = None, raw_stop_grace = None, raw_wall_clock = None, raw_memory_mb = None, raw_vcpus = None,
       raw_disk_mb = None, raw_oci_image = None, raw_egress = None \<rparr>"


end
