(* ===== verification/GuestBoot.thy ===== *)
theory GuestBoot
  imports GuestInit Firecracker
begin

text \<open>
  \<open>bunsen-init\<close>: the boot of the guest, \<open>run\<close> of \<open>init_linux.rs\<close> with the mounts, the
  channels to the host, \<open>network.rs\<close> and the fork of the agent. What it asks of the kernel is a
  \<open>boot_action\<close>, answered by the parameter \<open>V\<close>; \<open>expect\<close> and \<open>unwrap\<close> that fail are
  \<open>Panic\<close>. The relay and control threads are started here and modelled in \<open>GuestInit\<close>; the
  debug log is left out. Then the host's script of \<open>Firecracker\<close> and the guest's are put
  side by side, as two processes that wait for each other.
\<close>

section \<open>Actions\<close>

datatype boot_action =
    MakeDir string
  | MountFs string string string bool
  | ReadCmdline
  | VsockConnect u32 u32
  | VsockListen u32
  | VsockAccept u32
  | ReadToEnd
  | OpenInet
  | CloseInet
  | SetAddr string ipv4
  | SetNetmask string u32
  | SetUp string
  | AddRoute ipv4
  | MakeParent string
  | WriteText string string
  | BindMount string string
  | Fork "string list" "(string \<times> string) list"
  | StartRelay u32
  | StartControl int u64
  | WaitAny int
  | JoinRelays
  | SyncDisks

datatype boot_reply = BOk | BErr | BBytes bytes | BPid int | BWaits "wait_result list"

datatype boot_error = Panic string | NeverEnds

type_synonym 'w boot_sys = "boot_action \<Rightarrow> 'w \<Rightarrow> boot_reply \<times> 'w"

text \<open>An action whose failure is a panic, is an error of its caller, or is not looked at.\<close>

definition bt_expect :: "'w boot_sys \<Rightarrow> string \<Rightarrow> boot_action \<Rightarrow> ('w, boot_error, boot_reply) act" where
  "bt_expect V msg a w = (case V a w of (r, w') \<Rightarrow> (if r = BErr then Inl (Panic msg) else Inr r, w'))"

definition bt_io :: "'w boot_sys \<Rightarrow> boot_action \<Rightarrow> ('w, unit, unit) act" where
  "bt_io V a w = (case V a w of (r, w') \<Rightarrow> (if r = BErr then Inl () else Inr (), w'))"

definition bt_try :: "'w boot_sys \<Rightarrow> boot_action \<Rightarrow> ('w, boot_error, unit) act" where
  "bt_try V a w = (case V a w of (_, w') \<Rightarrow> (Inr (), w'))"

fun bt_each :: "'w boot_sys \<Rightarrow> boot_action list \<Rightarrow> ('w, boot_error, unit) act" where
  "bt_each V [] = aret ()"
| "bt_each V (a # as) = abind (bt_try V a) (\<lambda>_. bt_each V as)"

section \<open>Mounts and channels\<close>

definition GUEST_SPEC_PORT :: u32 where "GUEST_SPEC_PORT = 5000"
definition GUEST_STDOUT_PORT :: u32 where "GUEST_STDOUT_PORT = 5001"
definition GUEST_STDERR_PORT :: u32 where "GUEST_STDERR_PORT = 5002"
definition GUEST_CONTROL_PORT :: u32 where "GUEST_CONTROL_PORT = 5003"
definition VMADDR_CID_HOST :: u32 where "VMADDR_CID_HOST = 2"

definition FILESYSTEMS :: "boot_action list" where
  "FILESYSTEMS =
     [MakeDir ''/proc'', MakeDir ''/sys'', MakeDir ''/tmp'', MakeDir ''/dev'', MakeDir ''/workspace'', MakeDir ''/run/bunsen'',
      MountFs ''proc'' ''/proc'' ''proc'' False, MountFs ''sysfs'' ''/sys'' ''sysfs'' False,
      MountFs ''devtmpfs'' ''/dev'' ''devtmpfs'' False,
      MakeDir ''/dev/shm'', MakeDir ''/dev/pts'',
      MountFs ''tmpfs'' ''/dev/shm'' ''tmpfs'' False, MountFs ''devpts'' ''/dev/pts'' ''devpts'' False,
      MountFs ''tmpfs'' ''/tmp'' ''tmpfs'' False, MountFs ''tmpfs'' ''/run'' ''tmpfs'' False,
      MakeDir ''/root'', MountFs ''tmpfs'' ''/root'' ''tmpfs'' False]"

definition mount_filesystems :: "'w boot_sys \<Rightarrow> ('w, boot_error, unit) act" where
  "mount_filesystems V = bt_each V FILESYSTEMS"

definition WORKSPACE_MOUNT :: boot_action where
  "WORKSPACE_MOUNT = MountFs ''/dev/vdb'' ''/workspace'' ''ext4'' True"

definition mount_workspace :: "'w boot_sys \<Rightarrow> ('w, boot_error, unit) act" where
  "mount_workspace V = bt_try V WORKSPACE_MOUNT"

definition read_spec_from_vsock :: "'w boot_sys \<Rightarrow> ('w, boot_error, string) act" where
  "read_spec_from_vsock V =
     abind (bt_expect V ''cannot connect spec vsock'' (VsockConnect VMADDR_CID_HOST GUEST_SPEC_PORT)) (\<lambda>_.
     abind (bt_expect V ''cannot read spec from vsock'' ReadToEnd) (\<lambda>r.
     case r of
       BBytes bs \<Rightarrow>
         (case from_utf8 bs of None \<Rightarrow> afail (Panic ''cannot read spec from vsock'') | Some s \<Rightarrow> aret s)
     | _ \<Rightarrow> aret []))"

definition vsock_accept :: "'w boot_sys \<Rightarrow> string \<Rightarrow> u32 \<Rightarrow> ('w, boot_error, unit) act" where
  "vsock_accept V msg port =
     abind (bt_expect V msg (VsockListen port)) (\<lambda>_.
     abind (bt_expect V msg (VsockAccept port)) (\<lambda>_. aret ()))"

section \<open>The network of the guest\<close>

definition IFNAME :: string where "IFNAME = ''eth0''"
definition RESOLV_CONF_SCRATCH :: string where "RESOLV_CONF_SCRATCH = ''/run/bunsen/resolv.conf''"
definition RESOLV_CONF_TARGET :: string where "RESOLV_CONF_TARGET = ''/etc/resolv.conf''"

definition configure_eth0 :: "'w boot_sys \<Rightarrow> guest_network \<Rightarrow> ('w, unit, unit) act" where
  "configure_eth0 V net =
     abind (bt_io V OpenInet) (\<lambda>_.
     with_guard (V CloseInet)
      (abind (bt_io V (SetAddr IFNAME (gn_guest_ip net))) (\<lambda>_.
       abind (bt_io V (SetNetmask IFNAME (prefix_len_to_netmask (gn_prefix_len net)))) (\<lambda>_.
       abind (bt_io V (SetUp IFNAME)) (\<lambda>_.
       bt_io V (AddRoute (gn_host_ip net)))))))"

definition stage_resolv_conf :: "'w boot_sys \<Rightarrow> guest_network \<Rightarrow> ('w, unit, unit) act" where
  "stage_resolv_conf V net =
     abind (bt_io V (MakeParent RESOLV_CONF_SCRATCH)) (\<lambda>_.
     bt_io V (WriteText RESOLV_CONF_SCRATCH (format_resolv_conf (gn_host_ip net))))"

definition install_resolv_conf :: "'w boot_sys \<Rightarrow> guest_network \<Rightarrow> ('w, unit, unit) act" where
  "install_resolv_conf V net =
     abind (stage_resolv_conf V net) (\<lambda>_. bt_io V (BindMount RESOLV_CONF_SCRATCH RESOLV_CONF_TARGET))"

definition bring_up :: "'w boot_sys \<Rightarrow> guest_network option \<Rightarrow> ('w, boot_error, unit) act" where
  "bring_up V net =
     (case net of
        None \<Rightarrow> aret ()
      | Some n \<Rightarrow> abind (aor () (configure_eth0 V n)) (\<lambda>_. aor () (install_resolv_conf V n)))"

section \<open>The agent\<close>

definition c_string :: "string \<Rightarrow> bool" where
  "c_string s \<longleftrightarrow> CHR 0x00 \<notin> set s"

definition fork_exec :: "'w boot_sys \<Rightarrow> init_spec \<Rightarrow> (string \<times> string) list \<Rightarrow> ('w, boot_error, int) act" where
  "fork_exec V spec inherited =
     (let env = env_pairs (is_env spec) inherited in
      if \<not> list_all c_string (is_cmd spec) then afail (Panic ''nul in command'')
      else if \<not> list_all (\<lambda>(k, v). c_string k \<and> c_string v) env then afail (Panic ''nul in environment'')
      else abind (bt_expect V ''fork failed'' (Fork (is_cmd spec) env)) (\<lambda>r.
        case r of BPid pid \<Rightarrow> aret pid | _ \<Rightarrow> aret 0))"

definition parse_init_spec :: "(string \<Rightarrow> json option) \<Rightarrow> string \<Rightarrow> ('w, boot_error, init_spec) act" where
  "parse_init_spec parse s =
     (case Option.bind (parse s) init_spec_of_json of None \<Rightarrow> afail (Panic ''invalid spec JSON'') | Some spec \<Rightarrow> aret spec)"

definition run_child :: "'w boot_sys \<Rightarrow> init_spec \<Rightarrow> int \<Rightarrow> ('w, boot_error, int) act" where
  "run_child V spec pid =
     abind (bt_each V [StartRelay GUEST_STDOUT_PORT, StartRelay GUEST_STDERR_PORT, StartControl pid (is_grace spec)]) (\<lambda>_.
     abind (bt_expect V ''waitpid'' (WaitAny pid)) (\<lambda>r.
     case (case r of BWaits ws \<Rightarrow> wait_for_agent pid ws | _ \<Rightarrow> Some (0, 0)) of
       None \<Rightarrow> afail NeverEnds
     | Some (exit_code, signal) \<Rightarrow> abind (bt_each V [JoinRelays, SyncDisks]) (\<lambda>_. aret exit_code)))"

text \<open>\<open>run\<close>; the result is the exit status of the first process.\<close>

definition guest_run ::
  "'w boot_sys \<Rightarrow> (string \<Rightarrow> json option) \<Rightarrow> (string \<times> string) list \<Rightarrow> ('w, boot_error, int) act" where
  "guest_run V parse inherited =
     abind (mount_filesystems V) (\<lambda>_.
     abind (bt_expect V ''cannot read /proc/cmdline'' ReadCmdline) (\<lambda>_.
     abind (read_spec_from_vsock V) (\<lambda>spec_json.
     abind (parse_init_spec parse spec_json) (\<lambda>spec.
     abind (mount_workspace V) (\<lambda>_.
     abind (bring_up V (is_network spec)) (\<lambda>_.
     abind (bt_expect V ''cannot connect stdout vsock'' (VsockConnect VMADDR_CID_HOST GUEST_STDOUT_PORT)) (\<lambda>_.
     abind (bt_expect V ''cannot connect stderr vsock'' (VsockConnect VMADDR_CID_HOST GUEST_STDERR_PORT)) (\<lambda>_.
     abind (vsock_accept V ''cannot accept control vsock'' GUEST_CONTROL_PORT) (\<lambda>_.
     abind (fork_exec V spec inherited) (\<lambda>pid.
     run_child V spec pid))))))))))"

section \<open>What the boot asks of the kernel\<close>

text \<open>The network is left out of the script: its steps may fail without an end of the boot.\<close>

fun visible :: "boot_action \<Rightarrow> bool" where
  "visible OpenInet = False"
| "visible CloseInet = False"
| "visible (SetAddr _ _) = False"
| "visible (SetNetmask _ _) = False"
| "visible (SetUp _) = False"
| "visible (AddRoute _) = False"
| "visible (MakeParent _) = False"
| "visible (WriteText _ _) = False"
| "visible (BindMount _ _) = False"
| "visible _ = True"

fun optional :: "boot_action \<Rightarrow> bool" where
  "optional (MakeDir _) = True"
| "optional (MountFs _ _ _ _) = True"
| "optional (StartRelay _) = True"
| "optional (StartControl _ _) = True"
| "optional JoinRelays = True"
| "optional SyncDisks = True"
| "optional _ = False"

definition fine :: "boot_action \<times> boot_reply \<Rightarrow> bool" where
  "fine x \<longleftrightarrow> optional (fst x) \<or> snd x \<noteq> BErr"

definition guest_script :: "init_spec \<Rightarrow> (string \<times> string) list \<Rightarrow> int \<Rightarrow> boot_action list" where
  "guest_script spec inherited pid =
     FILESYSTEMS
     @ [ReadCmdline, VsockConnect VMADDR_CID_HOST GUEST_SPEC_PORT, ReadToEnd, WORKSPACE_MOUNT,
        VsockConnect VMADDR_CID_HOST GUEST_STDOUT_PORT, VsockConnect VMADDR_CID_HOST GUEST_STDERR_PORT,
        VsockListen GUEST_CONTROL_PORT, VsockAccept GUEST_CONTROL_PORT,
        Fork (is_cmd spec) (env_pairs (is_env spec) inherited),
        StartRelay GUEST_STDOUT_PORT, StartRelay GUEST_STDERR_PORT, StartControl pid (is_grace spec),
        WaitAny pid, JoinRelays, SyncDisks]"

locale guest_log = action_log V log visible fine
  for V :: "'w boot_sys" and log :: "'w \<Rightarrow> (boot_action \<times> boot_reply) list"
begin

lemma expect_emits: "visible a \<Longrightarrow> emits (bt_expect V msg a) {[a]}"
  by (rule emits_step) (auto simp: bt_expect_def fine_def split: prod.splits if_splits)

lemma try_emits: "visible a \<Longrightarrow> optional a \<Longrightarrow> emits (bt_try V a) {[a]}"
  by (rule emits_step) (auto simp: bt_try_def fine_def split: prod.splits)

lemma each_emits:
  assumes "list_all visible as" "list_all optional as"
  shows "emits (bt_each V as) {as}"
  using assms
proof (induction as)
  case (Cons a as)
  then show ?case using emits_single [OF try_emits Cons.IH, of a] by simp
qed (simp add: emits_ret)

lemma io_emits: "\<not> visible a \<Longrightarrow> emits (bt_io V a) {[]}"
  by (rule emits_silent) (auto simp: bt_io_def split: prod.splits)

lemma aor_silent:
  assumes "emits m {[]}"
  shows "emits (aor d m) {[]}"
  unfolding emits_def
proof (intro allI impI)
  fix w r w'
  assume "aor d m w = (r, w')"
  then obtain q where "m w = (q, w')" by (auto simp: aor_def split: prod.splits sum.splits)
  from emitsD [OF assms this] obtain ts where "log w' = log w @ ts" "filter visible (map fst ts) = []" by auto
  then show "\<exists>ts. \<exists>xs\<in>{[]}. log w' = log w @ ts \<and> prefix (filter visible (map fst ts)) xs \<and>
      (isl r \<or> filter visible (map fst ts) = xs \<and> list_all fine (filter (visible \<circ> fst) ts))"
    by (intro exI [of _ ts]) (auto simp: filter_map)
qed

lemma guard_silent:
  assumes "emits m {[]}" and "\<not> visible a"
  shows "emits (with_guard (V a) m) {[]}"
  unfolding emits_def
proof (intro allI impI)
  fix w r w'
  assume "with_guard (V a) m w = (r, w')"
  then obtain w1 q where 1: "m w = (r, w1)" and 2: "V a w1 = (q, w')" by (rule with_guard_run)
  from emitsD [OF assms(1) 1] obtain ts where "log w1 = log w @ ts" "filter visible (map fst ts) = []"
      "isl r \<or> list_all fine (filter (visible \<circ> fst) ts)" by auto
  then show "\<exists>ts. \<exists>xs\<in>{[]}. log w' = log w @ ts \<and> prefix (filter visible (map fst ts)) xs \<and>
      (isl r \<or> filter visible (map fst ts) = xs \<and> list_all fine (filter (visible \<circ> fst) ts))"
    using logged [OF 2] assms(2) by (intro exI [of _ "ts @ [(a, q)]"]) auto
qed

lemma bring_up_silent: "emits (bring_up V net) {[]}"
proof (cases net)
  case (Some n)
  have "emits (configure_eth0 V n) {[]}" "emits (install_resolv_conf V n) {[]}"
    unfolding configure_eth0_def install_resolv_conf_def stage_resolv_conf_def
    by (intro emits_after_silent guard_silent io_emits; simp)+
  then show ?thesis
    unfolding Some bring_up_def option.case by (intro emits_after_silent aor_silent)
qed (simp add: bring_up_def emits_ret)

lemma fork_emits: "emits (fork_exec V spec inherited) {[Fork (is_cmd spec) (env_pairs (is_env spec) inherited)]}"
proof -
  have "emits (case r of BPid pid \<Rightarrow> aret pid | _ \<Rightarrow> aret 0) {[]}" for r
    by (cases r) (simp_all add: emits_ret)
  from emits_single [OF expect_emits this, of "Fork (is_cmd spec) (env_pairs (is_env spec) inherited)" "''fork failed''"]
  show ?thesis unfolding fork_exec_def Let_def by (intro emits_if emits_fail) simp_all
qed

lemma child_emits:
  "emits (run_child V spec pid) {[StartRelay GUEST_STDOUT_PORT, StartRelay GUEST_STDERR_PORT, StartControl pid (is_grace spec)]
     @ [WaitAny pid] @ [JoinRelays, SyncDisks]}"
proof -
  have e: "emits (abind (bt_each V [JoinRelays, SyncDisks]) (\<lambda>_. aret (c :: int))) {[JoinRelays, SyncDisks] @ []}" for c
    by (intro emits_single each_emits emits_ret) simp_all
  have "emits (case x of None \<Rightarrow> afail NeverEnds | Some (c, s) \<Rightarrow> abind (bt_each V [JoinRelays, SyncDisks]) (\<lambda>_. aret c))
      {[JoinRelays, SyncDisks]}" for x :: "(int \<times> int) option"
    using e by (auto simp: emits_fail split: option.split)
  then show ?thesis
    unfolding run_child_def by (intro emits_single each_emits expect_emits) simp_all
qed

lemma read_spec_emits:
  "emits (read_spec_from_vsock V) {[VsockConnect VMADDR_CID_HOST GUEST_SPEC_PORT] @ [ReadToEnd] @ []}"
proof -
  have "emits (case r of BBytes bs \<Rightarrow> (case from_utf8 bs of None \<Rightarrow> afail (Panic ''cannot read spec from vsock'') | Some s \<Rightarrow> aret s)
      | _ \<Rightarrow> aret []) {[]}" for r
    by (cases r) (auto simp: emits_ret split: option.split)
  then show ?thesis unfolding read_spec_from_vsock_def by (intro emits_single expect_emits) simp_all
qed

lemma guest_emits:
  "emits (guest_run V parse inherited) {guest_script spec inherited pid | spec pid. True}"
proof -
  define tail where "tail = (\<lambda>(spec :: init_spec) pid. [StartRelay GUEST_STDOUT_PORT, StartRelay GUEST_STDERR_PORT, StartControl pid (is_grace spec)]
     @ [WaitAny pid] @ [JoinRelays, SyncDisks])"
  define late where "late = (\<lambda>spec :: init_spec. (@) [Fork (is_cmd spec) (env_pairs (is_env spec) inherited)] ` range (tail spec))"
  have c: "emits (run_child V spec pid) (range (tail spec))" for spec pid
    by (rule emits_weaken [OF child_emits]) (auto simp: tail_def)
  have l: "emits (abind (fork_exec V spec inherited) (\<lambda>pid. run_child V spec pid)) (\<Union>s. late s)" for spec
    by (rule emits_weaken [OF emits_prepend [OF fork_emits c]]) (auto simp: late_def)
  have a: "emits (vsock_accept V msg port) {[VsockListen port] @ [VsockAccept port] @ []}" for msg port
    unfolding vsock_accept_def by (intro emits_single expect_emits emits_ret) simp_all
  have p: "emits (parse_init_spec parse s) {[]}" for s
    unfolding parse_init_spec_def by (auto simp: emits_ret split: option.split)
  have w: "emits (mount_workspace V) {[WORKSPACE_MOUNT]}"
    unfolding mount_workspace_def by (rule try_emits) (simp_all add: WORKSPACE_MOUNT_def)
  have f: "emits (mount_filesystems V) {FILESYSTEMS}"
    unfolding mount_filesystems_def by (rule each_emits) (simp_all add: FILESYSTEMS_def)
  have n: "(\<Union>s. late s) \<noteq> {}" by (auto simp: late_def)
  have "emits (guest_run V parse inherited) ((@) FILESYSTEMS ` (@) [ReadCmdline] `
      (@) ([VsockConnect VMADDR_CID_HOST GUEST_SPEC_PORT] @ [ReadToEnd] @ []) ` (@) [] ` (@) [WORKSPACE_MOUNT] ` (@) [] `
      (@) [VsockConnect VMADDR_CID_HOST GUEST_STDOUT_PORT] ` (@) [VsockConnect VMADDR_CID_HOST GUEST_STDERR_PORT] `
      (@) ([VsockListen GUEST_CONTROL_PORT] @ [VsockAccept GUEST_CONTROL_PORT] @ []) ` (\<Union>s. late s))"
    unfolding guest_run_def
    by (intro emits_prepend f p w a read_spec_emits bring_up_silent l expect_emits) (use n in simp_all)
  then show ?thesis
    by (rule emits_weaken) (auto simp: late_def tail_def guest_script_def)
qed

end

section \<open>Host and guest\<close>

text \<open>What one side does that the other may wait for. A guest runs once it is booted; its connection
  needs the host's listener, its read of the specification the host's half-close, its accept the
  host's connection; the host's accepts and its connection need the guest. Deadlines are
  left out, and the host's attempts to connect are one.\<close>

datatype host_event = HListen string | HBoot | HAccept u32 | HSend | HClose | HControl u32
datatype guest_event = GConnect u32 | GRead | GListen u32 | GAccept u32

fun host_event_of :: "vm_action \<Rightarrow> host_event option" where
  "host_event_of (Listen p) = Some (HListen p)"
| "host_event_of (HttpRequest _ request) = (if prefix ''PUT /actions '' request then Some HBoot else None)"
| "host_event_of (Accept port _) = Some (HAccept port)"
| "host_event_of (SendSpec _) = Some HSend"
| "host_event_of HalfCloseSpec = Some HClose"
| "host_event_of _ = None"

fun guest_event_of :: "boot_action \<Rightarrow> guest_event option" where
  "guest_event_of (VsockConnect cid port) = (if cid = VMADDR_CID_HOST then Some (GConnect port) else None)"
| "guest_event_of ReadToEnd = Some GRead"
| "guest_event_of (VsockListen port) = Some (GListen port)"
| "guest_event_of (VsockAccept port) = Some (GAccept port)"
| "guest_event_of _ = None"

record meet =
  host_done :: "host_event list"
  host_todo :: "host_event list"
  guest_done :: "guest_event list"
  guest_todo :: "guest_event list"

fun host_ready :: "meet \<Rightarrow> host_event \<Rightarrow> bool" where
  "host_ready s (HAccept port) = (GConnect port \<in> set (guest_done s))"
| "host_ready s (HControl port) = (GListen port \<in> set (guest_done s))"
| "host_ready s _ = True"

fun guest_ready :: "string \<Rightarrow> meet \<Rightarrow> guest_event \<Rightarrow> bool" where
  "guest_ready uds s (GConnect port) =
     (HBoot \<in> set (host_done s) \<and> HListen (vsock_socket_path uds port) \<in> set (host_done s))"
| "guest_ready uds s GRead = (HClose \<in> set (host_done s))"
| "guest_ready uds s (GListen _) = (HBoot \<in> set (host_done s))"
| "guest_ready uds s (GAccept port) = (HControl port \<in> set (host_done s))"

inductive meet_step :: "string \<Rightarrow> meet \<Rightarrow> meet \<Rightarrow> bool" for uds where
  host: "host_todo s = e # es \<Longrightarrow> host_ready s e \<Longrightarrow>
    meet_step uds s (s \<lparr> host_done := host_done s @ [e], host_todo := es \<rparr>)"
| guest: "guest_todo s = e # es \<Longrightarrow> guest_ready uds s e \<Longrightarrow>
    meet_step uds s (s \<lparr> guest_done := guest_done s @ [e], guest_todo := es \<rparr>)"

inductive_cases meet_stepE: "meet_step uds s s'"

definition meet_start :: "host_event list \<Rightarrow> guest_event list \<Rightarrow> meet" where
  "meet_start H G = \<lparr> host_done = [], host_todo = H, guest_done = [], guest_todo = G \<rparr>"

text \<open>A connection of a running guest that finds no listener is refused, which is its panic.\<close>

definition refused :: "string \<Rightarrow> meet \<Rightarrow> bool" where
  "refused uds s \<longleftrightarrow> (\<exists>port es. guest_todo s = GConnect port # es \<and> HBoot \<in> set (host_done s)
     \<and> HListen (vsock_socket_path uds port) \<notin> set (host_done s))"

definition meets :: "string \<Rightarrow> host_event list \<Rightarrow> guest_event list \<Rightarrow> bool" where
  "meets uds H G \<longleftrightarrow> (\<forall>s. (meet_step uds)\<^sup>*\<^sup>* (meet_start H G) s \<longrightarrow>
     \<not> refused uds s
     \<and> (host_todo s = [] \<and> guest_todo s = [] \<or> (\<exists>s'. meet_step uds s s'))
     \<and> (\<forall>s'. meet_step uds s s' \<longrightarrow>
          length (host_todo s') + length (guest_todo s') < length (host_todo s) + length (guest_todo s)))"

lemma meet_step_invariant:
  "(meet_step uds)\<^sup>*\<^sup>* (meet_start H G) s \<Longrightarrow> host_done s @ host_todo s = H \<and> guest_done s @ guest_todo s = G"
  by (induction rule: rtranclp_induct) (auto simp: meet_start_def elim!: meet_stepE)

lemma meet_step_smaller:
  "meet_step uds s s' \<Longrightarrow> length (host_todo s') + length (guest_todo s') < length (host_todo s) + length (guest_todo s)"
  by (auto elim!: meet_stepE)

lemma append_is_take_drop: "xs @ ys = zs \<Longrightarrow> \<exists>i \<le> length zs. xs = take i zs \<and> ys = drop i zs"
  by (intro exI [of _ "length xs"]) auto

definition meet_host :: "string \<Rightarrow> host_event list" where
  "meet_host uds =
     [HListen (vsock_socket_path uds 5000), HListen (vsock_socket_path uds 5001), HListen (vsock_socket_path uds 5002),
      HBoot, HAccept 5000, HSend, HClose, HAccept 5001, HAccept 5002, HControl 5003]"

definition meet_guest :: "guest_event list" where
  "meet_guest = [GConnect 5000, GRead, GConnect 5001, GConnect 5002, GListen 5003, GAccept 5003]"

lemma meet_progress:
  assumes "host_done s @ host_todo s = meet_host uds" "guest_done s @ guest_todo s = meet_guest"
  shows "\<not> refused uds s \<and> (host_todo s = [] \<and> guest_todo s = []
     \<or> (\<exists>e es. host_todo s = e # es \<and> host_ready s e) \<or> (\<exists>e es. guest_todo s = e # es \<and> guest_ready uds s e))"
proof -
  from append_is_take_drop [OF assms(1)] obtain i where i: "i \<le> length (meet_host uds)"
    and h: "host_done s = take i (meet_host uds)" "host_todo s = drop i (meet_host uds)" by blast
  from append_is_take_drop [OF assms(2)] obtain j where j: "j \<le> length meet_guest"
    and g: "guest_done s = take j meet_guest" "guest_todo s = drop j meet_guest" by blast
  have "i \<in> {0,1,2,3,4,5,6,7,8,9,10}" using i unfolding meet_host_def by (simp; arith)
  moreover have "j \<in> {0,1,2,3,4,5,6}" using j unfolding meet_guest_def by (simp; arith)
  ultimately show ?thesis
    unfolding insert_iff empty_iff
    by (elim disjE; simp add: h g refused_def meet_host_def meet_guest_def)
qed

lemma scripts_meet: "meets uds (meet_host uds) meet_guest"
  unfolding meets_def
proof (intro allI impI conjI)
  fix s s'
  assume "(meet_step uds)\<^sup>*\<^sup>* (meet_start (meet_host uds) meet_guest) s"
  then have "host_done s @ host_todo s = meet_host uds" "guest_done s @ guest_todo s = meet_guest"
    using meet_step_invariant by blast+
  note p = meet_progress [OF this]
  show "\<not> refused uds s" using p by blast
  show "host_todo s = [] \<and> guest_todo s = [] \<or> (\<exists>s'. meet_step uds s s')"
    using p by (metis meet_step.host meet_step.guest)
  show "length (host_todo s') + length (guest_todo s') < length (host_todo s) + length (guest_todo s)"
    if "meet_step uds s s'" using that by (rule meet_step_smaller)
qed

lemma host_script_events:
  "List.map_filter host_event_of (start_script T tmp init_debug config bin has) @ [HControl VSOCK_CONTROL_PORT]
     = meet_host (join_path (fc_run_dir tmp (sc_run_id config)) ''vsock.sock'')"
  by (simp add: start_script_def Let_def image_script_def settings_def map_filter_simps put_request_def meet_host_def
      VSOCK_SPEC_PORT_def VSOCK_STDOUT_PORT_def VSOCK_STDERR_PORT_def VSOCK_CONTROL_PORT_def)

lemma guest_script_events: "List.map_filter guest_event_of (guest_script spec inherited pid) = meet_guest"
  by (simp add: guest_script_def FILESYSTEMS_def WORKSPACE_MOUNT_def map_filter_simps meet_guest_def
      GUEST_SPEC_PORT_def GUEST_STDOUT_PORT_def GUEST_STDERR_PORT_def GUEST_CONTROL_PORT_def)

lemma map_filter_prefix: "prefix xs ys \<Longrightarrow> prefix (List.map_filter f xs) (List.map_filter f ys)"
  by (auto simp: prefix_def List.map_filter_def)

lemma map_filter_hidden:
  assumes "\<And>x. \<not> P x \<Longrightarrow> f x = None"
  shows "List.map_filter f (filter P xs) = List.map_filter f xs"
  using assms by (induction xs) (auto simp: map_filter_simps split: option.split)


section \<open>A guest that boots\<close>

definition healthy_boot :: "boot_action \<Rightarrow> boot_reply" where
  "healthy_boot a =
     (case a of
        ReadToEnd \<Rightarrow> BBytes (str_bytes ''spec'')
      | Fork _ _ \<Rightarrow> BPid 7
      | WaitAny _ \<Rightarrow> BWaits [Reaped 5 (ExitStatus 1), Reaped 7 (ExitStatus 3)]
      | _ \<Rightarrow> BOk)"

definition logging_boot :: "(boot_action \<Rightarrow> boot_reply) \<Rightarrow> (boot_action \<times> boot_reply) list boot_sys" where
  "logging_boot answer a w = (answer a, w @ [(a, answer a)])"

definition boot_parse :: "string \<Rightarrow> json option" where
  "boot_parse s = (if s = ''spec'' then Some (JObj [(''cmd'', JArr [JStr ''true''])]) else None)"

interpretation booted: guest_log "logging_boot healthy_boot" "\<lambda>w. w"
  by unfold_locales (simp add: logging_boot_def)

interpretation booted_log: action_log "logging_boot healthy_boot" "\<lambda>w. w" visible fine
  by unfold_locales

lemma healthy_guest: "fst (guest_run (logging_boot healthy_boot) boot_parse [] []) = Inr 3"
  by code_simp


end
