(* ===== verification/HostRun.thy ===== *)
theory HostRun
  imports Supervisor SandboxFetch RunSpec "HOL-Library.Sublist"
begin

text \<open>
  The rest of \<open>bunsen-core/src/supervisor.rs\<close>: the command of the agent, the tasks that read its
  output and the control channel, and the copy of its history from the Workspace. The messages
  of the readers reach the loop of \<open>Supervisor\<close> in any interleaving. A file that is copied is
  read through symbolic links; a FIFO, which would block, is an error here.
\<close>

section \<open>The command\<close>

record child_command =
  cc_program :: string
  cc_args :: "string list"
  cc_env :: "string \<rightharpoonup> string"
  cc_cwd :: string

text \<open>\<open>None\<close> is the panic of the index.\<close>

definition child_command_of :: "run_spec \<Rightarrow> string \<Rightarrow> child_command option" where
  "child_command_of spec workspace_path =
     (case rs_cmd spec of
        [] \<Rightarrow> None
      | program # args \<Rightarrow> Some \<lparr> cc_program = program, cc_args = args,
          cc_env = child_env (rs_adapter spec) workspace_path (map_of (rs_env spec)), cc_cwd = workspace_path \<rparr>)"

section \<open>The readers\<close>

type_synonym utf8_decoder = "bytes \<Rightarrow> string option"

text \<open>\<open>next_line\<close> until the end of the stream or a line that is not UTF-8; a line loses its
  line feed, and a carriage return before that.\<close>

definition strip_cr :: "string \<Rightarrow> string" where
  "strip_cr l = (if suffix [CR] l then butlast l else l)"

function next_lines :: "utf8_decoder \<Rightarrow> bytes \<Rightarrow> string list" where
  "next_lines utf8 bs =
     (if bs = [] then []
      else let raw = takeWhile (\<lambda>b. b \<noteq> 0x0A) bs; rest = dropWhile (\<lambda>b. b \<noteq> 0x0A) bs in
        case utf8 raw of
          None \<Rightarrow> []
        | Some l \<Rightarrow> (if rest = [] then l else strip_cr l) # next_lines utf8 (drop 1 rest))"
  by pat_completeness auto
termination
proof (relation "measure (length \<circ> snd)")
  fix utf8 :: utf8_decoder and bs rest :: bytes and raw l
  assume "bs \<noteq> []" and "rest = dropWhile (\<lambda>b. b \<noteq> 0x0A) bs"
  then have "length rest \<le> length bs" by (simp add: length_dropWhile_le)
  then show "((utf8, drop 1 rest), (utf8, bs)) \<in> measure (length \<circ> snd)" using \<open>bs \<noteq> []\<close> by (cases rest) auto
qed simp

declare next_lines.simps [simp del]

definition read_stream :: "utf8_decoder \<Rightarrow> out_stream \<Rightarrow> bytes \<Rightarrow> sv_msg list" where
  "read_stream utf8 s bs = map (\<lambda>l. OutLine s (l @ [LF])) (next_lines utf8 bs) @ [OutDone]"

definition read_control :: "utf8_decoder \<Rightarrow> json_parser \<Rightarrow> bytes \<Rightarrow> sv_msg list" where
  "read_control utf8 parse_json bs = map Cmd (List.map_filter (parse_cmd parse_json) (next_lines utf8 bs))"

section \<open>The history\<close>

definition copy_file :: "(fs_op \<Rightarrow> path \<Rightarrow> bool) \<Rightarrow> node \<Rightarrow> path \<Rightarrow> path \<Rightarrow> dest \<Rightarrow> bool \<times> dest" where
  "copy_file ok fs src dst d =
     (case stat fs src of
        Some (NFile m b) \<Rightarrow> if ok OpCopy dst then (True, d(dst \<mapsto> DFile m b)) else (False, d)
      | _ \<Rightarrow> (False, d))"

text \<open>The entries of a directory that is at the resolved path \<open>src\<close>.\<close>

fun copy_tree :: "(fs_op \<Rightarrow> path \<Rightarrow> bool) \<Rightarrow> node \<Rightarrow> node \<Rightarrow> path \<Rightarrow> path \<Rightarrow> dest \<Rightarrow> bool \<times> dest"
  and copy_tree_entries ::
    "(fs_op \<Rightarrow> path \<Rightarrow> bool) \<Rightarrow> node \<Rightarrow> (string \<times> node) list \<Rightarrow> path \<Rightarrow> path \<Rightarrow> dest \<Rightarrow> bool \<times> dest" where
  "copy_tree ok fs (NDir m es) src dst d =
     (if \<not> ok OpMkdir dst then (False, d)
      else if \<not> ok OpReadDir src then (False, mkdirs dst d)
      else copy_tree_entries ok fs es src dst (mkdirs dst d))"
| "copy_tree ok fs (NFile m b) src dst d = copy_file ok fs src dst d"
| "copy_tree ok fs (NLink a t) src dst d = copy_file ok fs src dst d"
| "copy_tree ok fs NSpecial src dst d = copy_file ok fs src dst d"
| "copy_tree_entries ok fs [] src dst d = (True, d)"
| "copy_tree_entries ok fs ((name, n) # es) src dst d =
     (case copy_tree ok fs n (src @ [name]) (dst @ [name]) d of
        (False, d') \<Rightarrow> (False, d')
      | (True, d') \<Rightarrow> copy_tree_entries ok fs es src dst d')"

definition copy_dir_all :: "(fs_op \<Rightarrow> path \<Rightarrow> bool) \<Rightarrow> node \<Rightarrow> path \<Rightarrow> path \<Rightarrow> dest \<Rightarrow> bool \<times> dest" where
  "copy_dir_all ok fs src dst d =
     (if \<not> ok OpMkdir dst then (False, d)
      else case walk MAX_LINKS fs True [] src of
        None \<Rightarrow> (False, mkdirs dst d)
      | Some c \<Rightarrow>
          (case lookup fs c of
             Some (NDir m es) \<Rightarrow> copy_tree ok fs (NDir m es) c dst d
           | _ \<Rightarrow> (False, mkdirs dst d)))"

definition AIDER_HISTORY_FILES :: "string list" where
  "AIDER_HISTORY_FILES = [''.aider.chat.history.md'', ''.aider.input.history'', ''.aider.llm.history'']"

fun copy_aider_files ::
  "(fs_op \<Rightarrow> path \<Rightarrow> bool) \<Rightarrow> node \<Rightarrow> path \<Rightarrow> path \<Rightarrow> bool \<Rightarrow> string list \<Rightarrow> dest \<Rightarrow> bool \<times> dest" where
  "copy_aider_files ok fs workspace dst any [] d = (True, d)"
| "copy_aider_files ok fs workspace dst any (name # names) d =
     (if stat fs (workspace @ [name]) = None then copy_aider_files ok fs workspace dst any names d
      else if \<not> any \<and> \<not> ok OpMkdir dst then (False, d)
      else (case copy_file ok fs (workspace @ [name]) (dst @ [name]) (if any then d else mkdirs dst d) of
          (False, d') \<Rightarrow> (False, d')
        | (True, d') \<Rightarrow> copy_aider_files ok fs workspace dst True names d'))"

definition copy_aider_history :: "(fs_op \<Rightarrow> path \<Rightarrow> bool) \<Rightarrow> node \<Rightarrow> path \<Rightarrow> path \<Rightarrow> dest \<Rightarrow> bool \<times> dest" where
  "copy_aider_history ok fs workspace dst d = copy_aider_files ok fs workspace dst False AIDER_HISTORY_FILES d"

definition copy_agent_history ::
  "(fs_op \<Rightarrow> path \<Rightarrow> bool) \<Rightarrow> node \<Rightarrow> string \<Rightarrow> path \<Rightarrow> path \<Rightarrow> dest \<Rightarrow> bool \<times> dest" where
  "copy_agent_history ok fs adapter workspace dst d =
     (if adapter = ''aider'' then copy_aider_history ok fs workspace dst d
      else if adapter = ''codex'' then (True, d)
      else if adapter = ''pi'' then
        (let sessions = workspace @ [''.pi'', ''agent'', ''sessions''] in
         if stat fs sessions = None then (True, d)
         else copy_dir_all ok fs sessions (dst @ [''.pi'', ''agent'', ''sessions'']) d)
      else
        (let dot_claude = workspace @ [''.claude''] in
         if stat fs dot_claude = None then (True, d) else copy_dir_all ok fs dot_claude dst d))"

section \<open>The whole Run\<close>

text \<open>\<open>run\<close>: the command, the loop, the flush of the parser, the history and \<open>run_ended\<close>. A failed copy
  of the history is only reported. \<open>spawn\<close> says whether the child starts.\<close>

datatype host_result = HostPanic | SpawnFailed | HostRun sv_result

definition save_history ::
  "(fs_op \<Rightarrow> path \<Rightarrow> bool) \<Rightarrow> node \<Rightarrow> string \<Rightarrow> path \<Rightarrow> path option \<Rightarrow> dest \<Rightarrow> dest" where
  "save_history ok fs adapter workspace hist_dst d =
     (case hist_dst of None \<Rightarrow> d | Some dst \<Rightarrow> snd (copy_agent_history ok fs adapter workspace dst d))"

definition host_end :: "(nat \<Rightarrow> bool) \<Rightarrow> nat option \<Rightarrow> (dest \<Rightarrow> dest) \<Rightarrow> sv_state \<Rightarrow> dest \<Rightarrow> sv_result \<times> dest" where
  "host_end io_ok exit_code history st d =
     (let (evs, p) = adapter_flush (sv_parser st) in
      case emit_events io_ok (sv_emitted st) evs of
        None \<Rightarrow> (EmitFailed, d)
      | Some out1 \<Rightarrow>
          (case emit_events io_ok out1
              [(''run_ended'', run_ended_payload (end_reason (sv_reason st) exit_code) exit_code)] of
            None \<Rightarrow> (EmitFailed, history d)
          | Some out2 \<Rightarrow> (Ended (st \<lparr> sv_parser := p, sv_emitted := out2 \<rparr>), history d)))"

definition host_run ::
  "adapter_env \<Rightarrow> (nat \<Rightarrow> bool) \<Rightarrow> (child_command \<Rightarrow> bool) \<Rightarrow> (dest \<Rightarrow> dest) \<Rightarrow> run_spec \<Rightarrow> string
     \<Rightarrow> nat option \<Rightarrow> sv_msg list \<Rightarrow> dest \<Rightarrow> host_result \<times> dest" where
  "host_run E io_ok spawn history spec workspace_path exit_code ms d =
     (case child_command_of spec workspace_path of
        None \<Rightarrow> (HostPanic, d)
      | Some c \<Rightarrow>
          if \<not> spawn c then (SpawnFailed, d)
          else (case sv_loop E io_ok (sv_init (rs_adapter spec)) ms of
              None \<Rightarrow> (HostRun EmitFailed, d)
            | Some (st, False) \<Rightarrow> (HostRun (Running st), d)
            | Some (st, True) \<Rightarrow> apfst HostRun (host_end io_ok exit_code history st d)))"

lemma fst_host_end:
  "fst (host_end io_ok exit_code history st d) =
     (case sv_finish io_ok exit_code st of None \<Rightarrow> EmitFailed | Some st' \<Rightarrow> Ended st')"
  by (simp add: host_end_def sv_finish_def case_prod_beta Let_def del: emit_events.simps split: option.splits)

text \<open>The result of a Run that starts is that of \<^const>\<open>supervisor_run\<close>: the history has no part in it.\<close>

lemma host_run_supervisor:
  assumes "child_command_of spec workspace_path = Some c" and "spawn c"
  shows "fst (host_run E io_ok spawn history spec workspace_path exit_code ms d) =
    HostRun (supervisor_run E io_ok (rs_adapter spec) exit_code ms)"
  using assms by (simp add: host_run_def supervisor_run_def fst_host_end split: option.splits bool.splits)

section \<open>What a Run makes of its output\<close>

text \<open>The events of the output, as if there were no commands.\<close>

fun transcript :: "adapter_env \<Rightarrow> adapter_parser \<Rightarrow> sv_msg list \<Rightarrow> event list" where
  "transcript E p [] = fst (adapter_flush p)"
| "transcript E p (OutLine Stdout l # ms) = fst (parse_stdout E p l) @ transcript E (snd (parse_stdout E p l)) ms"
| "transcript E p (OutLine Stderr l # ms) =
     (''output'', output_event_payload (ae_lossy E) ''stderr'' (str_bytes l)) # transcript E p ms"
| "transcript E p (m # ms) = transcript E p ms"

text \<open>The messages of two readers, \<open>k\<close> of which are done: each line comes before its end.\<close>

fun both_end :: "nat \<Rightarrow> sv_msg list \<Rightarrow> bool" where
  "both_end k [] \<longleftrightarrow> k = 2"
| "both_end k (OutLine s l # ms) \<longleftrightarrow> k < 2 \<and> both_end k ms"
| "both_end k (OutDone # ms) \<longleftrightarrow> k < 2 \<and> both_end (Suc k) ms"
| "both_end k (OutClosed # ms) \<longleftrightarrow> False"
| "both_end k (Cmd c # ms) \<longleftrightarrow> both_end k ms"

fun is_cmd :: "sv_msg \<Rightarrow> bool" where
  "is_cmd (Cmd c) = True"
| "is_cmd m = False"

lemma both_end_filter: "both_end k (filter (\<lambda>m. \<not> is_cmd m) ms) = both_end k ms"
  by (induction k ms rule: both_end.induct) auto

lemma transcript_filter: "transcript E p (filter (\<lambda>m. \<not> is_cmd m) ms) = transcript E p ms"
  by (induction E p ms rule: transcript.induct) auto

lemma both_end_done: "both_end 2 ms \<Longrightarrow> transcript E p ms = fst (adapter_flush p)"
  by (induction "2::nat" ms rule: both_end.induct) auto

lemma emit_events_all: "\<forall>n. io_ok n \<Longrightarrow> emit_events io_ok out evs = Some (out @ evs)"
  by (induction io_ok out evs rule: emit_events.induct) auto

lemma sv_loop_transcript:
  assumes "\<forall>n. io_ok n"
  shows "both_end (sv_done_count st) ms \<Longrightarrow> sv_done_count st < 2 \<Longrightarrow>
    \<exists>st'. sv_loop E io_ok st ms = Some (st', True)
      \<and> sv_emitted st' @ fst (adapter_flush (sv_parser st')) = sv_emitted st @ transcript E (sv_parser st) ms"
proof (induction ms arbitrary: st)
  case (Cons m ms)
  note emits = emit_events_all [OF assms]
  show ?case
  proof (cases m)
    case (OutLine s l)
    then obtain st1 where "sv_step E io_ok st m = Some (st1, False)" "sv_done_count st1 = sv_done_count st"
      "sv_emitted st1 @ transcript E (sv_parser st1) ms = sv_emitted st @ transcript E (sv_parser st) (m # ms)"
      by (cases s) (simp_all add: sv_step_def case_prod_beta emits del: emit_events.simps)
    then show ?thesis using Cons.IH [of st1] Cons.prems OutLine by simp
  next
    case OutDone
    show ?thesis
    proof (cases "sv_done_count st = 1")
      case True
      then show ?thesis
        using Cons.prems OutDone by (simp add: sv_step_def both_end_done numeral_2_eq_2)
    next
      case False
      then have "sv_step E io_ok st m = Some (st \<lparr> sv_done_count := 1 \<rparr>, False)"
        using Cons.prems OutDone by (simp add: sv_step_def)
      then show ?thesis
        using Cons.IH [of "st \<lparr> sv_done_count := 1 \<rparr>"] Cons.prems OutDone False
        by (cases "sv_done_count st") simp_all
    qed
  next
    case OutClosed
    then show ?thesis using Cons.prems by simp
  next
    case (Cmd c)
    have "sv_parser (sv_cmd c st) = sv_parser st" by (cases c) (simp_all add: sv_cmd_def)
    then show ?thesis using Cons.IH [of "sv_cmd c st"] Cons.prems Cmd by (simp add: sv_step_def)
  qed
qed simp

text \<open>What a reader has still to send: lines and its end, or nothing.\<close>

fun reader_left :: "sv_msg list \<Rightarrow> bool" where
  "reader_left [] \<longleftrightarrow> True"
| "reader_left (OutLine s l # ms) \<longleftrightarrow> ms \<noteq> [] \<and> reader_left ms"
| "reader_left (m # ms) \<longleftrightarrow> m = OutDone \<and> ms = []"

lemma reader_left_read_stream: "reader_left (read_stream utf8 s bs)"
proof -
  have "reader_left (map (\<lambda>l. OutLine s (l @ [LF])) ls @ [OutDone])" for ls by (induction ls) simp_all
  then show ?thesis by (simp add: read_stream_def)
qed

lemma both_end_shuffles:
  "ms \<in> shuffles xs ys \<Longrightarrow> reader_left xs \<Longrightarrow> reader_left ys \<Longrightarrow>
    both_end (of_bool (xs = []) + of_bool (ys = [])) ms"
proof (induction xs ys arbitrary: ms rule: shuffles.induct)
  case (1 ys)
  have "reader_left ys \<Longrightarrow> both_end (Suc (of_bool (ys = []))) ys" for ys
    by (induction ys rule: reader_left.induct) (simp_all add: numeral_2_eq_2)
  with 1 show ?case by simp
next
  case (2 xs)
  have "reader_left ys \<Longrightarrow> both_end (Suc (of_bool (ys = []))) ys" for ys
    by (induction ys rule: reader_left.induct) (simp_all add: numeral_2_eq_2)
  from this [of xs] 2 show ?case by simp
next
  case (3 x xs y ys ms)
  from "3.prems"(1) consider zs where "ms = x # zs" "zs \<in> shuffles xs (y # ys)"
    | zs where "ms = y # zs" "zs \<in> shuffles (x # xs) ys" by auto
  then show ?case
  proof cases
    case (1 zs)
    then have "both_end (of_bool (xs = [])) zs"
      using "3.IH"(1) [of zs] "3.prems" by (cases x) auto
    with 1 "3.prems" show ?thesis by (cases x) auto
  next
    case (2 zs)
    then have "both_end (of_bool (ys = [])) zs"
      using "3.IH"(2) [of zs] "3.prems" by (cases y) auto
    with 2 "3.prems" show ?thesis by (cases y) auto
  qed
qed

lemma not_cmd_shuffles:
  assumes "out \<in> shuffles (read_stream utf8 Stdout o1) (read_stream utf8 Stderr o2)" and "ms \<in> shuffles out (map Cmd cs)"
  shows "filter (\<lambda>m. \<not> is_cmd m) ms = out"
proof -
  let ?f = "filter (\<lambda>m. \<not> is_cmd m)"
  have "?f (map Cmd cs) = []" by (simp add: filter_empty_conv)
  then have "?f ` shuffles out (map Cmd cs) = {?f out}" by (simp add: filter_shuffles)
  moreover have "?f out = out"
    using set_shuffles [OF assms(1)] by (auto simp: filter_id_conv read_stream_def)
  ultimately show ?thesis using assms(2) by auto
qed

section \<open>What the readers and the command do not handle\<close>

text \<open>A line that is not UTF-8 ends its reader: the rest of the stream is lost.\<close>

lemma non_utf8_line_ends_the_reader:
  assumes "0x0A \<notin> set raw" and "utf8 raw = None"
  shows "read_stream utf8 s (raw @ 0x0A # bs) = [OutDone]"
proof -
  have "takeWhile (\<lambda>b. b \<noteq> 0x0A) (raw @ 0x0A # bs) = raw"
    using assms(1) by (subst takeWhile_append2) auto
  then have "next_lines utf8 (raw @ 0x0A # bs) = []"
    using assms(2) by (simp add: next_lines.simps [of utf8 "raw @ 0x0A # bs"])
  then show ?thesis by (simp add: read_stream_def)
qed

text \<open>A specification with an empty command, which \<open>RunSpec::from_json\<close> accepts, panics.\<close>

lemma empty_command_panics:
  "rs_cmd spec = [] \<Longrightarrow>
    host_run E io_ok spawn history spec workspace_path exit_code ms d = (HostPanic, d)"
  by (simp add: host_run_def child_command_of_def)

section \<open>The history stays below its directory\<close>

text \<open>Only entries below \<open>dst\<close> change, apart from the directories that lead to it.\<close>

definition below :: "path \<Rightarrow> dest \<Rightarrow> dest \<Rightarrow> bool" where
  "below dst d d' \<longleftrightarrow> (\<forall>q. d' q = d q \<or> prefix dst q \<or> prefix q dst)"

lemma below_refl [simp]: "below dst d d" by (simp add: below_def)

lemma below_trans: "below dst d d' \<Longrightarrow> below dst d' d'' \<Longrightarrow> below dst d d''"
  unfolding below_def by metis

lemma below_deeper: "below (dst @ p) d d' \<Longrightarrow> below dst d d'"
  unfolding below_def by (metis prefix_order.trans prefix_same_cases prefixI)

lemma below_mkdirs [simp]: "below dst d (mkdirs dst d)"
  by (simp add: below_def mkdirs_def)

lemma below_copy_file [simp]: "below dst d (snd (copy_file ok fs src dst d))"
  by (simp add: below_def copy_file_def split: option.splits node.splits)

lemma below_copy_tree:
  "below dst d (snd (copy_tree ok fs n src dst d))"
  "below dst d (snd (copy_tree_entries ok fs es src dst d))"
proof (induction ok fs n src dst d and ok fs es src dst d rule: copy_tree_copy_tree_entries.induct)
  case (1 ok fs m es src dst d)
  then show ?case by (auto intro: below_trans [OF below_mkdirs])
next
  case (6 ok fs name n es src dst d)
  then show ?case
    by (auto split: prod.splits bool.splits dest: below_deeper intro: below_trans)
qed simp_all

lemma below_copy_dir_all: "below dst d (snd (copy_dir_all ok fs src dst d))"
  by (auto simp: copy_dir_all_def simp del: copy_tree.simps split: option.splits node.splits intro: below_copy_tree(1))

lemma below_copy_aider_files: "below dst d (snd (copy_aider_files ok fs workspace dst any names d))"
proof (induction ok fs workspace dst any names d rule: copy_aider_files.induct)
  case (2 ok fs workspace dst any name names d)
  let ?d = "if any then d else mkdirs dst d"
  have "below dst d ?d" by simp
  moreover have "below dst ?d (snd (copy_file ok fs (workspace @ [name]) (dst @ [name]) ?d))"
    by (rule below_deeper [OF below_copy_file])
  ultimately have "below dst d (snd (copy_file ok fs (workspace @ [name]) (dst @ [name]) ?d))"
    by (rule below_trans)
  then show ?case using 2 by (auto split: prod.splits bool.splits intro: below_trans)
qed simp

theorem history_stays_below: "below dst d (snd (copy_agent_history ok fs adapter workspace dst d))"
  by (auto simp: copy_agent_history_def copy_aider_history_def Let_def
      intro: below_copy_aider_files below_copy_dir_all below_deeper)

section \<open>Property\<close>



end
