(* ===== verification/TwoSupervisors.thy ===== *)
theory TwoSupervisors
  imports HostRun SandboxSupervisor
begin

text \<open>
  \<open>supervisor.rs\<close> and \<open>sandbox_supervisor.rs\<close> side by side. The second repeats the code of the first
  with control lines in place of signals and with the channel of the denials; here the two
  loops run on the same messages, and the Sandbox Run is shown to be the host Run with denials.
\<close>

section \<open>The host's view of a Sandbox Run\<close>

fun host_msg :: "ss_msg \<Rightarrow> sv_msg option" where
  "host_msg (SOutLine s l) = Some (OutLine s l)"
| "host_msg SOutDone = Some OutDone"
| "host_msg SOutClosed = Some OutClosed"
| "host_msg (SCmd c) = Some (Cmd c)"
| "host_msg (SDenial d) = None"
| "host_msg SDenialClosed = None"

definition host_view :: "ss_msg list \<Rightarrow> sv_msg list" where
  "host_view ms = List.map_filter host_msg ms"

fun signal_op :: "signal \<Rightarrow> string" where
  "signal_op SIGKILL = ''kill''"
| "signal_op SIGTERM = ''stop''"
| "signal_op SIGSTOP = ''pause''"
| "signal_op SIGCONT = ''resume''"

definition no_denials :: "event list \<Rightarrow> event list" where
  "no_denials evs = filter (\<lambda>e. fst e \<noteq> EVENT_TYPE) evs"

definition same_run :: "sv_state \<Rightarrow> ss_state \<Rightarrow> bool" where
  "same_run st ss \<longleftrightarrow>
     ss_parser ss = sv_parser st \<and> ss_done_count ss = sv_done_count st
   \<and> ss_reason ss = sv_reason st \<and> ss_grace_timers ss = sv_grace_timers st
   \<and> ss_control ss = map (\<lambda>s. control_line (signal_op s)) (sv_signals st)
   \<and> no_denials (ss_emitted ss) = sv_emitted st"

lemma host_view_simps [simp]:
  "host_view [] = []"
  "host_view (m # ms) = (case host_msg m of None \<Rightarrow> host_view ms | Some h \<Rightarrow> h # host_view ms)"
  by (simp_all add: host_view_def List.map_filter_def split: option.split)

lemma no_denials_append [simp]: "no_denials (xs @ ys) = no_denials xs @ no_denials ys"
  by (simp add: no_denials_def)

lemma no_denials_ok: "list_all event_ok evs \<Longrightarrow> no_denials evs = evs"
  by (auto simp: no_denials_def filter_id_conv list_all_iff dest: event_ok_not_denial)

lemma no_denials_agent [simp]:
  "no_denials (fst (parse_stdout E p l)) = fst (parse_stdout E p l)"
  "no_denials (fst (adapter_flush p)) = fst (adapter_flush p)"
  "no_denials [(''output'', output_event_payload f s bs)] = [(''output'', output_event_payload f s bs)]"
  by (rule no_denials_ok, simp add: dispatch.parse_ok dispatch.flush_ok stderr_event_ok)+

lemma no_denials_emit [simp]: "no_denials (map emit_denial ds) = []"
  by (induction ds) (simp_all add: no_denials_def emit_denial_def)

section \<open>Step by step\<close>

lemma ss_emit_all: "\<forall>n. io_ok n \<Longrightarrow> ss_emit io_ok evs ss = Some (ss \<lparr> ss_emitted := ss_emitted ss @ evs \<rparr>)"
  by (simp add: ss_emit_def emit_events_all)

lemma same_run_cmd: "same_run st ss \<Longrightarrow> same_run (sv_cmd c st) (ss_cmd c ss)"
  by (cases c) (simp_all add: same_run_def sv_cmd_def ss_cmd_def write_control_def)

lemma same_step:
  assumes "\<forall>n. io_ok n" and "same_run st ss" and "host_msg m = Some h"
  obtains st' ss' b where "sv_step E io_ok st h = Some (st', b)" "ss_step E io_ok ss m = Some (ss', b)" "same_run st' ss'"
proof -
  note emits = emit_events_all [OF assms(1)] ss_emit_all [OF assms(1)]
  have "\<exists>st' ss' b. sv_step E io_ok st h = Some (st', b) \<and> ss_step E io_ok ss m = Some (ss', b) \<and> same_run st' ss'"
  proof (cases m)
    case (SOutLine s l)
    with assms(2,3) show ?thesis
      by (cases s) (auto simp: sv_step_def ss_step_def emits same_run_def case_prod_beta simp del: emit_events.simps)
  next
    case (SCmd c)
    with assms(2,3) show ?thesis by (auto simp: sv_step_def ss_step_def same_run_cmd)
  qed (use assms(2,3) in \<open>auto simp: sv_step_def ss_step_def same_run_def Let_def\<close>)
  then show thesis using that by blast
qed

lemma denial_step:
  assumes "\<forall>n. io_ok n" and "same_run st ss" and "host_msg m = None"
  obtains ss' where "ss_step E io_ok ss m = Some (ss', False)" "same_run st ss'"
proof -
  have "no_denials [emit_denial d] = []" for d using no_denials_emit [of "[d]"] by simp
  then have "\<exists>ss'. ss_step E io_ok ss m = Some (ss', False) \<and> same_run st ss'"
    using assms(2,3) by (cases m) (auto simp: ss_step_def ss_emit_all [OF assms(1)] same_run_def)
  then show thesis using that by blast
qed

lemma same_loop:
  assumes "\<forall>n. io_ok n"
  shows "same_run st ss \<Longrightarrow> \<exists>st' ss' b. sv_loop E io_ok st (host_view ms) = Some (st', b)
    \<and> ss_loop E io_ok ss ms = Some (ss', b) \<and> same_run st' ss'"
proof (induction ms arbitrary: st ss)
  case (Cons m ms)
  show ?case
  proof (cases "host_msg m")
    case None
    obtain ss' where "ss_step E io_ok ss m = Some (ss', False)" "same_run st ss'"
      by (rule denial_step [OF assms Cons.prems None])
    then show ?thesis using Cons.IH [of st ss'] None by simp
  next
    case (Some h)
    obtain st' ss' b where "sv_step E io_ok st h = Some (st', b)" "ss_step E io_ok ss m = Some (ss', b)"
      "same_run st' ss'" by (rule same_step [OF assms Cons.prems Some])
    then show ?thesis using Cons.IH [of st' ss'] Some by (cases b) auto
  qed
qed (auto intro: exI [of _ False])

section \<open>Properties\<close>

text \<open>C35: a Sandbox Run is a host Run with denials. When every emit succeeds, the two supervisors agree
  on the messages that both know: one has ended exactly when the other has, the events other
  than denials are the same up to the payload of \<open>run_ended\<close>, the control lines are the
  signals under other names, and as many grace timers run.\<close>

theorem sandbox_run_is_a_host_run:
  assumes "\<forall>n. io_ok n"
  shows "case supervisor_run E io_ok adapter exit_code (host_view ms) of
      Ended st \<Rightarrow> (\<exists>ss. sandbox_supervisor_run E io_ok adapter queued ms = SEnded ss
        \<and> no_denials (ss_emitted ss) = butlast (sv_emitted st)
            @ [(''run_ended'', JObj (jmap_of [(''reason'', JStr (unwrap_or ''agent_exit'' (sv_reason st)))]))]
        \<and> ss_control ss = map (\<lambda>s. control_line (signal_op s)) (sv_signals st)
        \<and> ss_grace_timers ss = sv_grace_timers st)
    | Running st \<Rightarrow> (\<exists>ss. sandbox_supervisor_run E io_ok adapter queued ms = SRunning ss \<and> same_run st ss)
    | EmitFailed \<Rightarrow> False"
proof -
  note emits = emit_events_all [OF assms] ss_emit_all [OF assms]
  have "same_run (sv_init adapter) (ss_init adapter)"
    by (simp add: same_run_def sv_init_def ss_init_def no_denials_def)
  then obtain st ss b where l: "sv_loop E io_ok (sv_init adapter) (host_view ms) = Some (st, b)"
    "ss_loop E io_ok (ss_init adapter) ms = Some (ss, b)" "same_run st ss"
    using same_loop [OF assms] by blast
  have "no_denials [(''run_ended'', p)] = [(''run_ended'', p)]" for p
    by (simp add: no_denials_def EVENT_TYPE_def)
  with l show ?thesis
    by (cases b) (simp_all add: supervisor_run_def sandbox_supervisor_run_def sv_finish_def ss_finish_def
        emits same_run_def case_prod_beta butlast_append del: emit_events.simps)
qed

theorem sandbox_run_is_a_host_run_witness:
  "case supervisor_run sample_env (\<lambda>_. True) ''none'' (Some 0)
        (host_view [SOutLine Stdout ''a'', SDenial \<lparr> den_destination = ''b'', den_protocol = Https, den_reason = ''no'' \<rparr>, SCmd Stop, SOutDone, SOutDone]) of
      Ended st \<Rightarrow> (\<exists>ss. sandbox_supervisor_run sample_env (\<lambda>_. True) ''none'' []
          [SOutLine Stdout ''a'', SDenial \<lparr> den_destination = ''b'', den_protocol = Https, den_reason = ''no'' \<rparr>, SCmd Stop, SOutDone, SOutDone] = SEnded ss
        \<and> no_denials (ss_emitted ss) = butlast (sv_emitted st)
            @ [(''run_ended'', JObj (jmap_of [(''reason'', JStr (unwrap_or ''agent_exit'' (sv_reason st)))]))]
        \<and> ss_control ss = map (\<lambda>s. control_line (signal_op s)) (sv_signals st)
        \<and> ss_grace_timers ss = sv_grace_timers st)
    | Running st \<Rightarrow> (\<exists>ss. sandbox_supervisor_run sample_env (\<lambda>_. True) ''none'' []
          [SOutLine Stdout ''a'', SDenial \<lparr> den_destination = ''b'', den_protocol = Https, den_reason = ''no'' \<rparr>, SCmd Stop, SOutDone, SOutDone] = SRunning ss \<and> same_run st ss)
    | EmitFailed \<Rightarrow> False"
  by (rule sandbox_run_is_a_host_run) simp

end
