(* ===== verification/EgressTasks.thy ===== *)
theory EgressTasks
  imports Dns SandboxSupervisor "HOL-Library.Multiset"
begin

text \<open>
  The listeners of \<open>bunsen-core/src/dns.rs\<close> and \<open>egress_proxy.rs\<close>: one task accepts, and each
  connection or datagram has a task of its own. A task is the list of the actions it has still
  to perform, and \<open>egress_next\<close> is one event of the scheduler, so that a list of events is one
  interleaving of all the tasks. An aborted listener accepts nothing more; its tasks go on.
\<close>

section \<open>The upstream resolver\<close>

text \<open>The socket of one query. \<open>us_recv\<close> is what arrives for it and after how many seconds: nothing,
  an error or a datagram.\<close>

record udp_socket =
  us_bind :: "ip_addr \<times> u16 \<Rightarrow> bool"
  us_connect :: "ip_addr \<times> u16 \<Rightarrow> bool"
  us_send :: "bytes \<Rightarrow> bool"
  us_recv :: "bytes \<Rightarrow> (nat \<times> bytes option) option"

definition DNS_BUFFER :: nat where
  "DNS_BUFFER = 4096"

definition DNS_TIMEOUT :: nat where
  "DNS_TIMEOUT = 5"

fun any_addr :: "ip_addr \<Rightarrow> ip_addr" where
  "any_addr (IpV4 a) = IpV4 (0, 0, 0, 0)"
| "any_addr (IpV6 a) = IpV6 0"

definition udp_resolve :: "udp_socket \<Rightarrow> ip_addr \<times> u16 \<Rightarrow> nat \<Rightarrow> bytes \<Rightarrow> bytes option" where
  "udp_resolve U upstream timeout query_bytes =
     (if us_bind U (any_addr (fst upstream), 0) \<and> us_connect U upstream \<and> us_send U query_bytes
      then (case us_recv U query_bytes of
          None \<Rightarrow> None
        | Some (t, answer) \<Rightarrow> if timeout < t then None else map_option (take DNS_BUFFER) answer)
      else None)"

section \<open>The tasks\<close>

datatype egress_act =
    Proxy proxy_act
  | Forward bytes
  | DnsDenied denial_event
  | SendTo bytes nat

record client_conn =
  cl_reader :: reader
  cl_connect_ok :: "string \<Rightarrow> u16 \<Rightarrow> bool"
  cl_write_ok :: bool

definition proxy_task :: "egress_policy \<Rightarrow> client_conn \<Rightarrow> egress_act list" where
  "proxy_task policy c = map Proxy (serve_connection (cl_connect_ok c) (cl_write_ok c) policy (cl_reader c))"

text \<open>The datagram is cut at the buffer; a peer is a number.\<close>

definition dns_task :: "egress_policy \<Rightarrow> (bytes \<Rightarrow> bytes option) \<Rightarrow> bytes \<Rightarrow> nat \<Rightarrow> egress_act list" where
  "dns_task policy resolve datagram peer =
     (case handle_dns_query resolve (take DNS_BUFFER datagram) policy of
        (outcome, forwarded, events) \<Rightarrow>
          map Forward forwarded @ map DnsDenied events
          @ (case outcome of Reply r \<Rightarrow> [SendTo r peer] | NoReply \<Rightarrow> []))"

section \<open>The scheduler\<close>

datatype listener = ProxyListener | DnsListener

datatype egress_event =
    Accepted client_conn
  | AcceptFailed
  | Datagram "bytes \<Rightarrow> bytes option" bytes nat
  | RecvFailed
  | Runs nat
  | Aborted listener

record egress_state =
  eg_open :: "listener \<Rightarrow> bool"
  eg_tasks :: "egress_act list list"
  eg_log :: "egress_act list"

definition egress_init :: egress_state where
  "egress_init = \<lparr> eg_open = (\<lambda>_. True), eg_tasks = [], eg_log = [] \<rparr>"

definition spawn_task :: "listener \<Rightarrow> egress_act list \<Rightarrow> egress_state \<Rightarrow> egress_state" where
  "spawn_task l t S = (if eg_open S l then S \<lparr> eg_tasks := eg_tasks S @ [t] \<rparr> else S)"

definition run_task :: "nat \<Rightarrow> egress_state \<Rightarrow> egress_state" where
  "run_task i S =
     (if i < length (eg_tasks S)
      then (case eg_tasks S ! i of
          [] \<Rightarrow> S
        | a # t \<Rightarrow> S \<lparr> eg_tasks := (eg_tasks S)[i := t], eg_log := eg_log S @ [a] \<rparr>)
      else S)"

fun egress_next :: "egress_policy \<Rightarrow> egress_event \<Rightarrow> egress_state \<Rightarrow> egress_state" where
  "egress_next policy (Accepted c) S = spawn_task ProxyListener (proxy_task policy c) S"
| "egress_next policy (Datagram resolve b peer) S = spawn_task DnsListener (dns_task policy resolve b peer) S"
| "egress_next policy AcceptFailed S = S"
| "egress_next policy RecvFailed S = S"
| "egress_next policy (Runs i) S = run_task i S"
| "egress_next policy (Aborted l) S = S \<lparr> eg_open := (eg_open S)(l := False) \<rparr>"

definition egress_run :: "egress_policy \<Rightarrow> egress_event list \<Rightarrow> egress_state" where
  "egress_run policy evs = fold (egress_next policy) evs egress_init"

text \<open>The tasks that the events spawn while their listener is open.\<close>

fun spawned :: "egress_policy \<Rightarrow> (listener \<Rightarrow> bool) \<Rightarrow> egress_event list \<Rightarrow> egress_act list list" where
  "spawned policy up [] = []"
| "spawned policy up (Accepted c # evs) =
     (if up ProxyListener then [proxy_task policy c] else []) @ spawned policy up evs"
| "spawned policy up (Datagram resolve b peer # evs) =
     (if up DnsListener then [dns_task policy resolve b peer] else []) @ spawned policy up evs"
| "spawned policy up (Aborted l # evs) = spawned policy (up(l := False)) evs"
| "spawned policy up (e # evs) = spawned policy up evs"

section \<open>What a task may do\<close>

text \<open>The gate: an upstream is opened and a datagram is forwarded only as the policy allows, and a
  denial is of a destination that it does not allow.\<close>

fun act_ok :: "egress_policy \<Rightarrow> egress_act \<Rightarrow> bool" where
  "act_ok policy (Proxy (UpstreamConnect h p)) = allows policy h"
| "act_ok policy (Proxy (Denied d)) = (\<not> allows policy (den_destination d))"
| "act_ok policy (DnsDenied d) = (\<not> allows policy (den_destination d))"
| "act_ok policy (Forward b) =
     (case parse_dns_query b of
        Inl e \<Rightarrow> False
      | Inr q \<Rightarrow> list_all (\<lambda>x. allows policy (dq_name x)) (dns_questions q))"
| "act_ok policy a = True"

lemma proxy_task_ok: "list_all (act_ok policy) (proxy_task policy c)"
  by (simp add: proxy_task_def serve_connection_def evaluate_def bad_request_def
      split: sum.splits prod.splits proxy_parse_error.splits option.splits)

lemma denied_question_is_found:
  assumes "evaluate_questions qs policy = DnsDeny m"
  shows "find (\<lambda>q. \<not> allows policy (dq_name q)) qs \<noteq> None"
  using assms evaluate_questions_Allow [of qs policy] by (auto simp: find_None_iff list_all_iff)

lemma handle_dns_query_gate:
  assumes "handle_dns_query resolve b policy = (out, sent, evs)"
  shows "list_all (act_ok policy) (map Forward sent)" "list_all (act_ok policy) (map DnsDenied evs)"
  using assms
  by (auto simp: handle_dns_query_def evaluate_dns_query_def evaluate_questions_Allow find_Some_iff
      Let_def split: sum.splits dns_decision.splits option.splits dest: denied_question_is_found)

lemma dns_task_ok: "list_all (act_ok policy) (dns_task policy resolve b peer)"
proof -
  obtain out sent evs where h: "handle_dns_query resolve (take DNS_BUFFER b) policy = (out, sent, evs)"
    by (metis prod_cases3)
  then show ?thesis
    using handle_dns_query_gate [OF h] by (simp add: dns_task_def split: dns_outcome.splits)
qed

lemma spawned_ok: "t \<in> set (spawned policy up evs) \<Longrightarrow> list_all (act_ok policy) t"
  by (induction policy up evs rule: spawned.induct) (auto simp: proxy_task_ok dns_task_ok split: if_splits)

section \<open>Nothing is lost or made up\<close>

definition acts :: "egress_state \<Rightarrow> egress_act multiset" where
  "acts S = mset (eg_log S) + mset (concat (eg_tasks S))"

lemma mset_concat_update:
  assumes "i < length ts" and "ts ! i = a # t"
  shows "add_mset a (mset (concat (ts[i := t]))) = mset (concat ts)"
proof -
  have "ts = take i ts @ (a # t) # drop (Suc i) ts" using assms id_take_nth_drop by metis
  then have "mset (concat ts) = mset (concat (take i ts @ (a # t) # drop (Suc i) ts))" by simp
  also have "\<dots> = add_mset a (mset (concat (ts[i := t])))"
    using assms(1) by (simp add: upd_conv_take_nth_drop)
  finally show ?thesis by simp
qed

lemma acts_run_task [simp]: "acts (run_task i S) = acts S"
  using mset_concat_update [of i "eg_tasks S"] by (auto simp: run_task_def acts_def split: list.splits)

lemma eg_open_run_task [simp]: "eg_open (run_task i S) = eg_open S"
  by (simp add: run_task_def split: list.splits)

lemma acts_fold: "acts (fold (egress_next policy) evs S) = acts S + mset (concat (spawned policy (eg_open S) evs))"
proof (induction evs arbitrary: S)
  case (Cons e evs)
  then show ?case by (cases e) (simp_all add: spawn_task_def acts_def add.assoc acts_run_task [unfolded acts_def])
qed simp

section \<open>Property\<close>

text \<open>C29: the gate holds for every interleaving. However the connections and datagrams arrive and
  their tasks are scheduled, what was done and what is still to do is exactly what the accepted
  connections and datagrams asked for, no action is lost, repeated or made up; and every upstream
  opened, datagram forwarded and denial raised is as the policy says.\<close>

theorem egress_tasks_keep_the_gate:
  "let S = egress_run policy evs in
     mset (eg_log S) + mset (concat (eg_tasks S)) = mset (concat (spawned policy (\<lambda>_. True) evs))
   \<and> list_all (act_ok policy) (eg_log S)"
proof -
  let ?S = "egress_run policy evs"
  have eq: "mset (eg_log ?S) + mset (concat (eg_tasks ?S)) = mset (concat (spawned policy (\<lambda>_. True) evs))"
    using acts_fold [of policy evs egress_init] by (simp add: egress_run_def egress_init_def acts_def)
  then have "set (eg_log ?S) \<subseteq> set (concat (spawned policy (\<lambda>_. True) evs))"
    by (metis mset_subset_eq_add_left set_mset_mono set_mset_mset)
  then have "list_all (act_ok policy) (eg_log ?S)"
    using spawned_ok [of _ policy "\<lambda>_. True" evs] by (fastforce simp: list_all_iff)
  with eq show ?thesis by (simp add: Let_def)
qed

end
