(* ===== verification/NetActor.thy ===== *)
theory NetActor
  imports PrivilegedNet "HOL-Library.Sublist"
begin

text \<open>
  The queue of \<open>bunsen-core/src/privileged_net.rs\<close>: any number of tasks call the handle, a method of
  which sends one command and awaits its reply, and one thread serves the commands. A list of
  events is one interleaving of the calls with the thread; a caller is a number.
\<close>

section \<open>The queue\<close>

definition ACTOR_QUEUE :: nat where
  "ACTOR_QUEUE = 64"

record 'w net_actor =
  na_queue :: "(nat \<times> net_cmd) list"
  na_replies :: "(nat \<times> (net_error + net_reply)) list"
  na_world :: 'w

definition start_actor :: "'w \<Rightarrow> 'w net_actor" where
  "start_actor w = \<lparr> na_queue = [], na_replies = [], na_world = w \<rparr>"

datatype actor_event = Calls nat net_cmd | Serves

text \<open>\<open>try_send\<close> refuses a command when the channel is full.\<close>

definition handle_send :: "nat \<Rightarrow> net_cmd \<Rightarrow> 'w net_actor \<Rightarrow> 'w net_actor" where
  "handle_send caller c A =
     (if length (na_queue A) < ACTOR_QUEUE then A \<lparr> na_queue := na_queue A @ [(caller, c)] \<rparr>
      else A \<lparr> na_replies := na_replies A @ [(caller, Inl NeQueue)] \<rparr>)"

definition actor_serve :: "'w net_ops \<Rightarrow> 'w net_actor \<Rightarrow> 'w net_actor" where
  "actor_serve N A =
     (case na_queue A of
        [] \<Rightarrow> A
      | (caller, c) # q \<Rightarrow>
          (case run_actor_cmd N c (na_world A) of (r, w) \<Rightarrow>
             A \<lparr> na_queue := q, na_replies := na_replies A @ [(caller, r)], na_world := w \<rparr>))"

fun actor_next :: "'w net_ops \<Rightarrow> actor_event \<Rightarrow> 'w net_actor \<Rightarrow> 'w net_actor" where
  "actor_next N (Calls caller c) A = handle_send caller c A"
| "actor_next N Serves A = actor_serve N A"

definition actor_run :: "'w net_ops \<Rightarrow> actor_event list \<Rightarrow> 'w \<Rightarrow> 'w net_actor" where
  "actor_run N evs w = fold (actor_next N) evs (start_actor w)"

definition calls_of :: "actor_event list \<Rightarrow> (nat \<times> net_cmd) list" where
  "calls_of evs = List.map_filter (\<lambda>e. case e of Calls k c \<Rightarrow> Some (k, c) | Serves \<Rightarrow> None) evs"

lemma calls_of_append [simp]:
  "calls_of (evs @ [Calls k c]) = calls_of evs @ [(k, c)]" "calls_of (evs @ [Serves]) = calls_of evs"
  "calls_of [] = []"
  by (simp_all add: calls_of_def List.map_filter_def)

text \<open>On an idle thread a call is \<^const>\<open>net_call\<close> with an open queue.\<close>

lemma idle_call_is_net_call:
  assumes "nt_queue_open N w"
  shows "(case net_call N c w of (r, w') \<Rightarrow>
    actor_run N [Calls k c, Serves] w = \<lparr> na_queue = [], na_replies = [(k, r)], na_world = w' \<rparr>)"
  using assms
  by (simp add: net_call_def actor_run_def start_actor_def handle_send_def actor_serve_def
      ACTOR_QUEUE_def split: prod.splits)

section \<open>The invariant\<close>

text \<open>The commands \<open>served\<close> were executed in the order of their calls and each reply went to its
  caller; the calls \<open>refused\<close> were told so.\<close>

definition actor_inv ::
  "'w net_ops \<Rightarrow> 'w \<Rightarrow> actor_event list \<Rightarrow> 'w net_actor \<Rightarrow> (nat \<times> net_cmd) list \<Rightarrow> (nat \<times> net_cmd) list
     \<Rightarrow> bool" where
  "actor_inv N w evs A served refused \<longleftrightarrow>
     length (na_queue A) \<le> ACTOR_QUEUE
   \<and> calls_of evs \<in> shuffles (served @ na_queue A) refused
   \<and> na_world A = snd (run_actor N (map snd served) w)
   \<and> na_replies A \<in> shuffles (zip (map fst served) (fst (run_actor N (map snd served) w)))
       (map (\<lambda>k. (fst k, Inl NeQueue)) refused)"

lemma run_actor_append:
  "run_actor N (cs @ [c]) w = (case run_actor N cs w of (rs, w1) \<Rightarrow>
     (case run_actor_cmd N c w1 of (r, w2) \<Rightarrow> (rs @ [r], w2)))"
  by (induction cs arbitrary: w) (simp_all split: prod.splits)

lemma length_run_actor [simp]: "length (fst (run_actor N cs w)) = length cs"
  by (induction cs arbitrary: w) (simp_all add: case_prod_beta)

lemma snoc_in_shuffles:
  assumes "zs \<in> shuffles xs ys"
  shows "zs @ [z] \<in> shuffles (xs @ [z]) ys" "zs @ [z] \<in> shuffles xs (ys @ [z])"
proof -
  have left: "zs @ [z] \<in> shuffles (xs @ [z]) ys" if "zs \<in> shuffles xs ys" for xs ys zs :: "'a list"
    using that
  proof (induction xs ys arbitrary: zs rule: shuffles.induct)
    case (1 ys)
    then have "zs = ys" by simp
    moreover have "ys @ [z] \<in> shuffles [z] ys" by (induction ys) (auto simp: Cons_in_shuffles_iff)
    ultimately show ?case by simp
  qed (auto simp: Cons_in_shuffles_iff)
  from left [OF assms] show "zs @ [z] \<in> shuffles (xs @ [z]) ys" .
  from left [of zs ys xs] assms show "zs @ [z] \<in> shuffles xs (ys @ [z])"
    by (simp add: shuffles_commutes)
qed

lemma actor_serve_inv:
  assumes "actor_inv N w evs A served refused"
  shows "\<exists>served'. actor_inv N w (evs @ [Serves]) (actor_serve N A) served' refused"
proof (cases "na_queue A")
  case Nil
  then show ?thesis using assms by (auto simp: actor_serve_def actor_inv_def)
next
  case (Cons kc q)
  obtain k c where kc: "kc = (k, c)" by (cases kc)
  obtain rs w1 where rs: "run_actor N (map snd served) w = (rs, w1)" by (cases "run_actor N (map snd served) w")
  obtain r w2 where r: "run_actor_cmd N c w1 = (r, w2)" by (cases "run_actor_cmd N c w1")
  have len: "length (map fst served) = length rs" using length_run_actor [of N "map snd served" w] rs by simp
  have "actor_inv N w (evs @ [Serves]) (actor_serve N A) (served @ [kc]) refused"
    using assms Cons kc rs r len snoc_in_shuffles(1)
    by (auto simp: actor_inv_def actor_serve_def run_actor_append)
  then show ?thesis ..
qed

lemma handle_send_inv:
  assumes "actor_inv N w evs A served refused"
  shows "\<exists>refused'. actor_inv N w (evs @ [Calls k c]) (handle_send k c A) served refused'"
proof (cases "length (na_queue A) < ACTOR_QUEUE")
  case True
  then have "actor_inv N w (evs @ [Calls k c]) (handle_send k c A) served refused"
    using assms snoc_in_shuffles(1) [of "calls_of evs" "served @ na_queue A" refused]
    by (simp add: actor_inv_def handle_send_def)
  then show ?thesis ..
next
  case False
  then have "actor_inv N w (evs @ [Calls k c]) (handle_send k c A) served (refused @ [(k, c)])"
    using assms by (auto simp: actor_inv_def handle_send_def intro: snoc_in_shuffles(2))
  then show ?thesis ..
qed

text \<open>C33: the thread serves in order. For every interleaving of calls with the thread, the queue
  holds at most 64 commands, the commands done are the first ones of those taken, in the order
  of their calls, the network is what they make of it one after another, each caller gets the reply
  of its own command, and a call that finds the queue full is refused and does nothing.\<close>

theorem actor_serves_in_order:
  "\<exists>served refused. let A = actor_run N evs w; (rs, w') = run_actor N (map snd served) w in
     length (na_queue A) \<le> ACTOR_QUEUE
   \<and> calls_of evs \<in> shuffles (served @ na_queue A) refused
   \<and> na_world A = w'
   \<and> na_replies A \<in> shuffles (zip (map fst served) rs) (map (\<lambda>k. (fst k, Inl NeQueue)) refused)"
proof -
  have "\<exists>served refused. actor_inv N w evs (actor_run N evs w) served refused"
  proof (induction evs rule: rev_induct)
    case Nil
    have "actor_inv N w [] (actor_run N [] w) [] []"
      by (simp add: actor_inv_def actor_run_def start_actor_def)
    then show ?case by blast
  next
    case (snoc e evs)
    have step: "actor_run N (evs @ [e]) w = actor_next N e (actor_run N evs w)" by (simp add: actor_run_def)
    show ?case
    proof (cases e)
      case (Calls k c)
      with snoc show ?thesis unfolding step by (auto dest!: handle_send_inv [of N w evs _ _ _ k c])
    next
      case Serves
      with snoc show ?thesis unfolding step by (auto dest!: actor_serve_inv [of N w evs])
    qed
  qed
  then show ?thesis by (simp add: actor_inv_def case_prod_beta Let_def)
qed

end
