(* ===== verification/SmokeTest.thy ===== *)
theory SmokeTest
  imports SandboxRun "HOL-Library.Sublist"
begin

text \<open>
  \<open>bunsen-core/src/smoke_test.rs\<close>, the command \<open>sandbox-smoke-test\<close>, with \<open>create_tap\<close> and
  \<open>delete_tap\<close> of \<open>firecracker.rs\<close>, which only it uses. The start of the VM is that of
  \<open>Firecracker\<close>; the reads of the guest's output, the control socket, the exit of the VM and the clock
  are parameters. The lines that it prints are left out.
\<close>

section \<open>Arguments\<close>

record smoke_args =
  sa_kernel :: "string option"
  sa_rootfs :: "string option"
  sa_firecracker :: string

datatype smoke_error =
    UnknownFlag string
  | KernelRequired
  | RootfsRequired
  | SmokePanic
  | SmNet net_error
  | SmFc fc_error
  | StartTimedOut
  | NoWorkspaceDir
  | OutputTimedOut
  | OutputError
  | OutputClosed
  | StillReading
  | ControlFailed
  | NoExit
  | WaitFailed

fun parse_flags :: "smoke_args \<Rightarrow> string list \<Rightarrow> smoke_error + smoke_args" where
  "parse_flags a [] = Inr a"
| "parse_flags a [flag] = Inl (UnknownFlag flag)"
| "parse_flags a (flag # v # rest) =
     (if flag = ''--kernel'' then parse_flags (a \<lparr> sa_kernel := Some v \<rparr>) rest
      else if flag = ''--rootfs'' then parse_flags (a \<lparr> sa_rootfs := Some v \<rparr>) rest
      else if flag = ''--firecracker'' then parse_flags (a \<lparr> sa_firecracker := v \<rparr>) rest
      else Inl (UnknownFlag flag))"

definition parse_args :: "string list \<Rightarrow> smoke_error + (string \<times> string \<times> string)" where
  "parse_args args =
     rbind (parse_flags \<lparr> sa_kernel = None, sa_rootfs = None, sa_firecracker = ''firecracker'' \<rparr> args) (\<lambda>a.
     case sa_kernel a of
       None \<Rightarrow> Inl KernelRequired
     | Some kernel_path \<Rightarrow>
         (case sa_rootfs a of None \<Rightarrow> Inl RootfsRequired | Some rootfs \<Rightarrow> Inr (kernel_path, rootfs, sa_firecracker a)))"

section \<open>The TAP device\<close>

definition create_tap :: "'w net_ops \<Rightarrow> string \<Rightarrow> ipv4 \<Rightarrow> u8 \<Rightarrow> ('w, net_error, unit) act" where
  "create_tap N name host_addr prefix_len =
     (let addr_arg = show_ipv4 host_addr @ ''/'' @ show_nat (unat prefix_len) in
      abind (proc_ok N ''ip'' [''ip'', ''tuntap'', ''add'', ''dev'', name, ''mode'', ''tap''] [] ''ip tuntap add failed'') (\<lambda>_.
      abind (proc_ok N ''ip'' [''ip'', ''link'', ''set'', name, ''up''] [] ''ip link set up failed'') (\<lambda>_.
      proc_ok N ''ip'' [''ip'', ''addr'', ''add'', addr_arg, ''dev'', name] []
        (''ip addr add '' @ addr_arg @ '' dev '' @ name @ '' failed''))))"

text \<open>The status of the command is not looked at.\<close>

definition delete_tap :: "'w net_ops \<Rightarrow> string \<Rightarrow> ('w, net_error, unit) act" where
  "delete_tap N name w =
     (case nt_proc N [''ip'', ''link'', ''del'', name] [] w of
        (SpawnErr _, w') \<Rightarrow> (Inl (NeSpawn ''ip''), w')
      | (Exited _ _ _, w') \<Rightarrow> (Inr (), w'))"

section \<open>The conversation\<close>

definition HELLO_WORLD :: string where
  "HELLO_WORLD = ''hello world'' @ [LF]"

definition TIMEOUT_SECS :: nat where
  "TIMEOUT_SECS = 60"

definition SMOKE_SPEC_JSON :: json where
  "SMOKE_SPEC_JSON = JObj [(''adapter'', JStr ''black-box''),
     (''cmd'', JArr [JStr ''sh'', JStr ''-c'', JStr ''echo hello world && sleep 30'']), (''env'', JObj [])]"

datatype smoke_read = ReadTimeout | ReadFailed | Got bytes

text \<open>The loop over what the reads return; \<^const>\<open>StillReading\<close> when they are used up.\<close>

fun check_hello_world :: "(bytes \<Rightarrow> string) \<Rightarrow> string \<Rightarrow> smoke_read list \<Rightarrow> smoke_error + unit" where
  "check_hello_world lossy got [] = Inl StillReading"
| "check_hello_world lossy got (ReadTimeout # rs) = Inl OutputTimedOut"
| "check_hello_world lossy got (ReadFailed # rs) = Inl OutputError"
| "check_hello_world lossy got (Got bs # rs) =
     (if bs = [] then Inl OutputClosed
      else let got' = got @ lossy bs in
        if contains got' HELLO_WORLD then Inr () else check_hello_world lossy got' rs)"

record 'w smoke_io =
  sm_start_cut :: "nat \<Rightarrow> 'w \<Rightarrow> 'w option"
  sm_reads :: "'w \<Rightarrow> smoke_read list \<times> 'w"
  sm_control :: "string \<Rightarrow> 'w \<Rightarrow> bool \<times> 'w"
  sm_wait :: "nat \<Rightarrow> 'w \<Rightarrow> bool option \<times> 'w"

text \<open>A future under a time limit: \<open>sm_start_cut\<close> gives the state in which it is cut off.\<close>

definition start_in_time ::
  "'w smoke_io \<Rightarrow> ('w, smoke_error, 'a) act \<Rightarrow> ('w, smoke_error, 'a) act" where
  "start_in_time I m w = (case sm_start_cut I TIMEOUT_SECS w of Some w' \<Rightarrow> (Inl StartTimedOut, w') | None \<Rightarrow> m w)"

definition send_control :: "'w smoke_io \<Rightarrow> string \<Rightarrow> ('w, smoke_error, unit) act" where
  "send_control I op w =
     (case sm_control I (control_line op) w of (ok, w') \<Rightarrow> (if ok then Inr () else Inl ControlFailed, w'))"

definition wait_exit :: "'w smoke_io \<Rightarrow> ('w, smoke_error, unit) act" where
  "wait_exit I w =
     (case sm_wait I 15 w of
        (None, w') \<Rightarrow> (Inl NoExit, w')
      | (Some ok, w') \<Rightarrow> (if ok then Inr () else Inl WaitFailed, w'))"

definition smoke_talk :: "'w run_sys \<Rightarrow> 'w smoke_io \<Rightarrow> ('w, smoke_error, unit) act" where
  "smoke_talk M I =
     abind (apure (sm_reads I)) (\<lambda>rs.
     abind (of_result (check_hello_world (rn_lossy M) [] rs)) (\<lambda>_.
     abind (send_control I ''pause'') (\<lambda>_.
     abind (apure (rn_vm M (Sleep 200))) (\<lambda>_.
     abind (send_control I ''resume'') (\<lambda>_.
     abind (send_control I ''stop'') (\<lambda>_.
     wait_exit I))))))"

definition smoke_config :: "string \<Rightarrow> string \<Rightarrow> string \<Rightarrow> string \<Rightarrow> sandbox_config" where
  "smoke_config tmp kernel_path rootfs tap_name =
     \<lparr> sc_kernel_path = kernel_path, sc_rootfs_path = rootfs,
       sc_workspace_host_path = join_path tmp ''bunsen-smoke-workspace'', sc_spec_json = SMOKE_SPEC_JSON,
       sc_vcpus = 1, sc_mem_mib = 512, sc_workspace_disk_mib = 128, sc_run_id = ''smoke01'',
       sc_tap_name = tap_name \<rparr>"

definition smoke_vm :: "'w run_sys \<Rightarrow> 'w smoke_io \<Rightarrow> sandbox_config \<Rightarrow> string \<Rightarrow> ('w, smoke_error, unit) act" where
  "smoke_vm M I config fc_bin =
     abind (aerr (\<lambda>_. NoWorkspaceDir) (vm_do (rn_vm M) ''create smoke workspace dir'' (CreateDir (sc_workspace_host_path config)))) (\<lambda>_.
     abind (start_in_time I (aerr SmFc
         (start_firecracker (rn_vm M) (rn_json_text M) (rn_lossy M) (rn_tmp M) (rn_init_debug M) config fc_bin)))
       (\<lambda>run_dir. with_guard (rn_vm M (RemoveDir run_dir)) (smoke_talk M I)))"

definition smoke_run :: "'w run_sys \<Rightarrow> 'w smoke_io \<Rightarrow> string list \<Rightarrow> ('w, smoke_error, unit) act" where
  "smoke_run M I raw_args =
     abind (of_result (parse_args raw_args)) (\<lambda>(kernel_path, rootfs, fc_bin).
     (let net = derive_run_network ''smoke01'' in
      abind (case derive_tap_name ''smoke01'' of None \<Rightarrow> afail SmokePanic | Some t \<Rightarrow> aret t) (\<lambda>tap_name.
      abind (aor () (delete_tap (rn_net M) tap_name)) (\<lambda>_.
      abind (aerr SmNet (create_tap (rn_net M) tap_name (net_host net) (net_prefix_len net))) (\<lambda>_.
      with_guard (exec_delete_tap (rn_net M) tap_name)
        (smoke_vm M I (smoke_config (rn_tmp M) kernel_path rootfs tap_name) fc_bin))))))"

section \<open>What it checks\<close>

text \<open>The greeting is found however the reads cut the output.\<close>

lemma contains_append: "contains s p \<Longrightarrow> contains (s @ t) p"
  unfolding contains_iff sublist_def by (metis append.assoc)

lemma hello_any_chunking:
  assumes "[] \<notin> set chunks"
  shows "\<not> contains got HELLO_WORLD \<Longrightarrow>
    check_hello_world lossy got (map Got chunks) = Inr () \<longleftrightarrow>
    contains (got @ concat (map lossy chunks)) HELLO_WORLD"
  using assms
proof (induction chunks arbitrary: got)
  case (Cons bs chunks)
  then show ?case
    by (cases "contains (got @ lossy bs) HELLO_WORLD")
      (auto simp: Let_def dest: contains_append [of _ _ "concat (map lossy chunks)"])
qed simp

lemma flags_in_any_order:
  "parse_args [''--kernel'', k, ''--rootfs'', r] = Inr (k, r, ''firecracker'')"
  "parse_args [''--rootfs'', r, ''--firecracker'', f, ''--kernel'', k] = Inr (k, r, f)"
  "parse_args [''--rootfs'', r] = Inl KernelRequired"
  "parse_args [''--kernel'', k, ''--rootfs''] = Inl (UnknownFlag ''--rootfs'')"
  by (simp_all add: parse_args_def)

section \<open>What it leaves behind\<close>

text \<open>The clock, the reads and the control socket leave devices, rules and tables alone.\<close>

definition smoke_io_keeps :: "('w \<Rightarrow> net_view) \<Rightarrow> 'w smoke_io \<Rightarrow> bool" where
  "smoke_io_keeps view I \<longleftrightarrow>
     keeps view (sm_reads I) \<and> (\<forall>t. keeps view (sm_control I t)) \<and> (\<forall>n. keeps view (sm_wait I n))
   \<and> (\<forall>n w w'. sm_start_cut I n w = Some w' \<longrightarrow> view w' = view w)"

lemma keeps_smoke_parts:
  assumes "smoke_io_keeps view I"
  shows "keeps view (send_control I op)" "keeps view (wait_exit I)"
    "keeps view m \<Longrightarrow> keeps view (start_in_time I m)"
  using assms
  by (auto simp: smoke_io_keeps_def keeps_def send_control_def wait_exit_def start_in_time_def
      split: prod.splits option.splits; metis)+

context run_host
begin

lemma keeps_smoke_talk: "smoke_io_keeps view I \<Longrightarrow> keeps view (smoke_talk M I)"
  unfolding smoke_talk_def
  by (intro keeping keeps_smoke_parts vm) (simp_all add: smoke_io_keeps_def)

lemma keeps_smoke_vm: "smoke_io_keeps view I \<Longrightarrow> keeps view (smoke_vm M I config fc_bin)"
proof -
  assume io: "smoke_io_keeps view I"
  have "keeps view (vm_do (rn_vm M) c a)" for c a
    by (rule keepsI, force simp: vm_do_def split: prod.splits vm_reply.splits dest: keepsD [OF vm])
  then show ?thesis
    unfolding smoke_vm_def by (intro keeping keeps_smoke_parts keeps_smoke_talk keeps_start vm io)
qed

lemma smoke_delete_tap:
  assumes "delete_tap (rn_net M) n w = (r, w')"
  shows "view w' = (view w) \<lparr> nv_taps := nv_taps (view w) - {n} \<rparr>"
proof -
  have "exec_delete_tap (rn_net M) n w = (Inr (), w')"
    using assms by (auto simp: delete_tap_def exec_delete_tap_def proc_ignored_def split: prod.splits proc_result.splits)
  then show ?thesis by (rule delete_tap(1))
qed

lemma smoke_create_tap:
  assumes "create_tap (rn_net M) n host len w = (r, w')"
  shows "view w' = (view w) \<lparr> nv_taps := insert n (nv_taps (view w)) \<rparr> \<or> isl r \<and> view w' = view w"
proof -
  have "net_effect tables_of [''ip'', ''tuntap'', ''add'', ''dev'', n, ''mode'', ''tap''] [] v
      = v \<lparr> nv_taps := insert n (nv_taps v) \<rparr>" for v
    by (simp add: net_effect_def)
  then show ?thesis
    using assms
    by (auto simp: create_tap_def abind_def Let_def effects split: prod.splits sum.splits dest!: proc_ok_view)
qed

text \<open>The device of the test is gone at the end, unless its creation failed half-way; nothing else changes.\<close>

lemma smoke_leaves_the_network:
  assumes io: "smoke_io_keeps view I" and run: "smoke_run M I args w = (r, w')"
    and tap: "derive_tap_name ''smoke01'' = Some tap"
  shows "view w' = view w \<or> view w' = (view w) \<lparr> nv_taps := nv_taps (view w) - {tap} \<rparr>
    \<or> (\<exists>e. r = Inl (SmNet e)) \<and> view w' = (view w) \<lparr> nv_taps := insert tap (nv_taps (view w)) \<rparr>"
proof (cases "parse_args args")
  case (Inl e)
  then show ?thesis using run by (simp add: smoke_run_def of_result_def abind_def)
next
  case (Inr a)
  obtain kernel_path rootfs fc_bin where a: "a = (kernel_path, rootfs, fc_bin)" by (cases a)
  let ?net = "derive_run_network ''smoke01''"
  let ?body = "smoke_vm M I (smoke_config (rn_tmp M) kernel_path rootfs tap) fc_bin"
  obtain q w1 where d: "delete_tap (rn_net M) tap w = (q, w1)" by fastforce
  obtain c w2 where c: "create_tap (rn_net M) tap (net_host ?net) (net_prefix_len ?net) w1 = (c, w2)" by fastforce
  have v1: "view w1 = (view w) \<lparr> nv_taps := nv_taps (view w) - {tap} \<rparr>" by (rule smoke_delete_tap [OF d])
  have go: "(case c of Inl e \<Rightarrow> (Inl (SmNet e), w2)
      | Inr x \<Rightarrow> with_guard (exec_delete_tap (rn_net M) tap) ?body w2) = (r, w')"
    using run Inr a tap d c
    by (auto simp: smoke_run_def of_result_def abind_def aor_def aerr_def Let_def split: sum.splits)
  show ?thesis
  proof (cases c)
    case (Inl e)
    then show ?thesis using go smoke_create_tap [OF c] v1 by auto
  next
    case (Inr x)
    then obtain w3 p where b: "?body w2 = (r, w3)" "exec_delete_tap (rn_net M) tap w3 = (p, w')"
      using go by (auto elim: with_guard_run)
    have "view w3 = view w2" using keepsD [OF keeps_smoke_vm [OF io] b(1)] .
    then show ?thesis using delete_tap(1) [OF b(2)] smoke_create_tap [OF c] v1 Inr by auto
  qed
qed

end

end
