(* ===== verification/GuestSyscalls.thy ===== *)
theory GuestSyscalls
  imports GuestBoot
begin

text \<open>
  The system calls behind the network and vsock actions of \<open>GuestBoot\<close>: the structures that
  \<open>bunsen-init/src/network.rs\<close> and \<open>init_linux.rs\<close> lay out in memory for the kernel, on a 64-bit
  little-endian target. The layouts of \<open>ifreq\<close>, \<open>rtentry\<close> and \<open>sockaddr_in\<close> are those of Linux;
  \<open>decode_call\<close> is how the kernel reads them.
\<close>

unbundle bit_operations_syntax

section \<open>Numbers in memory\<close>

definition le16 :: "u16 \<Rightarrow> bytes" where
  "le16 w = [ucast w, ucast (drop_bit 8 w)]"

definition le32 :: "u32 \<Rightarrow> bytes" where
  "le32 w = [ucast w, ucast (drop_bit 8 w), ucast (drop_bit 16 w), ucast (drop_bit 24 w)]"

definition be32 :: "u32 \<Rightarrow> bytes" where
  "be32 w = rev (le32 w)"

fun u32_of_ipv4 :: "ipv4 \<Rightarrow> u32" where
  "u32_of_ipv4 (a, b, c, d) =
     push_bit 24 (ucast a) OR push_bit 16 (ucast b) OR push_bit 8 (ucast c) OR ucast d"

section \<open>Structures\<close>

definition AF_INET :: u16 where "AF_INET = 2"
definition AF_VSOCK :: u16 where "AF_VSOCK = 40"
definition VMADDR_CID_ANY :: u32 where "VMADDR_CID_ANY = - 1"
definition IFNAMSIZ :: nat where "IFNAMSIZ = 16"
definition IFF_UP_RUNNING :: u16 where "IFF_UP_RUNNING = 0x41"

definition sockaddr_in_v4 :: "u32 \<Rightarrow> bytes" where
  "sockaddr_in_v4 ip = le16 AF_INET @ [0, 0] @ be32 ip @ replicate 8 0"

definition sockaddr_vm :: "u32 \<Rightarrow> u32 \<Rightarrow> bytes" where
  "sockaddr_vm cid port = le16 AF_VSOCK @ le16 0 @ le32 port @ le32 cid @ replicate 4 0"

text \<open>The name field; \<open>None\<close> is a panic: a NUL in the name, or no room for the last one.\<close>

definition ifr_name :: "string \<Rightarrow> bytes option" where
  "ifr_name ifname =
     (let b = str_bytes ifname in
      if 0 \<in> set b \<or> IFNAMSIZ < length b + 1 then None else Some (b @ replicate (IFNAMSIZ - length b) 0))"

definition ifreq_for :: "string \<Rightarrow> bytes \<Rightarrow> bytes option" where
  "ifreq_for ifname union_field = map_option (\<lambda>n. n @ take 24 (union_field @ replicate 24 0)) (ifr_name ifname)"

record rtentry =
  rt_dst :: bytes
  rt_gateway :: bytes
  rt_genmask :: bytes
  rt_flags :: u16

section \<open>Calls\<close>

datatype sys_call =
    IoctlIf nat bytes
  | IoctlRt nat rtentry
  | Connect bytes
  | BindSocket bytes

definition SIOCADDRT :: nat where "SIOCADDRT = 0x890B"
definition SIOCSIFFLAGS :: nat where "SIOCSIFFLAGS = 0x8914"
definition SIOCSIFADDR :: nat where "SIOCSIFADDR = 0x8916"
definition SIOCSIFNETMASK :: nat where "SIOCSIFNETMASK = 0x891C"

definition set_if_addr :: "string \<Rightarrow> ipv4 \<Rightarrow> sys_call option" where
  "set_if_addr ifname ip = map_option (IoctlIf SIOCSIFADDR) (ifreq_for ifname (sockaddr_in_v4 (u32_of_ipv4 ip)))"

definition set_if_netmask :: "string \<Rightarrow> u32 \<Rightarrow> sys_call option" where
  "set_if_netmask ifname netmask = map_option (IoctlIf SIOCSIFNETMASK) (ifreq_for ifname (sockaddr_in_v4 netmask))"

definition set_if_up :: "string \<Rightarrow> sys_call option" where
  "set_if_up ifname = map_option (IoctlIf SIOCSIFFLAGS) (ifreq_for ifname (le16 IFF_UP_RUNNING))"

definition add_default_route :: "ipv4 \<Rightarrow> sys_call" where
  "add_default_route gateway =
     IoctlRt SIOCADDRT \<lparr> rt_dst = sockaddr_in_v4 0, rt_gateway = sockaddr_in_v4 (u32_of_ipv4 gateway),
       rt_genmask = sockaddr_in_v4 0, rt_flags = 0x0001 OR 0x0002 \<rparr>"

definition vsock_connect_call :: "u32 \<Rightarrow> u32 \<Rightarrow> sys_call" where
  "vsock_connect_call cid port = Connect (sockaddr_vm cid port)"

definition vsock_bind_call :: "u32 \<Rightarrow> sys_call" where
  "vsock_bind_call port = BindSocket (sockaddr_vm VMADDR_CID_ANY port)"

text \<open>The call of an action, for the actions that have one of these structures.\<close>

fun call_of :: "boot_action \<Rightarrow> sys_call option" where
  "call_of (SetAddr n ip) = set_if_addr n ip"
| "call_of (SetNetmask n m) = set_if_netmask n m"
| "call_of (SetUp n) = set_if_up n"
| "call_of (AddRoute gw) = Some (add_default_route gw)"
| "call_of (VsockConnect cid port) = Some (vsock_connect_call cid port)"
| "call_of (VsockListen port) = Some (vsock_bind_call port)"
| "call_of a = None"

section \<open>How the kernel reads them\<close>

definition read_le16 :: "bytes \<Rightarrow> u16" where
  "read_le16 b = ucast (b ! 0) OR push_bit 8 (ucast (b ! 1))"

definition read_le32 :: "bytes \<Rightarrow> u32" where
  "read_le32 b = ucast (b ! 0) OR push_bit 8 (ucast (b ! 1)) OR push_bit 16 (ucast (b ! 2)) OR push_bit 24 (ucast (b ! 3))"

definition read_ip :: "bytes \<Rightarrow> ipv4 option" where
  "read_ip b = (if read_le16 b = AF_INET then Some (b ! 4, b ! 5, b ! 6, b ! 7) else None)"

definition read_name :: "bytes \<Rightarrow> string option" where
  "read_name b = from_utf8 (takeWhile (\<lambda>c. c \<noteq> 0) (take IFNAMSIZ b))"

definition read_vm :: "bytes \<Rightarrow> (u32 \<times> u32) option" where
  "read_vm b = (if read_le16 b = AF_VSOCK then Some (read_le32 (drop 8 b), read_le32 (drop 4 b)) else None)"

fun decode_call :: "sys_call \<Rightarrow> boot_action option" where
  "decode_call (IoctlIf r b) =
     Option.bind (read_name b) (\<lambda>n.
     if r = SIOCSIFADDR then map_option (SetAddr n) (read_ip (drop IFNAMSIZ b))
     else if r = SIOCSIFNETMASK then map_option (\<lambda>ip. SetNetmask n (u32_of_ipv4 ip)) (read_ip (drop IFNAMSIZ b))
     else if r = SIOCSIFFLAGS \<and> read_le16 (drop IFNAMSIZ b) = IFF_UP_RUNNING then Some (SetUp n)
     else None)"
| "decode_call (IoctlRt r e) =
     (if r = SIOCADDRT \<and> read_ip (rt_dst e) = Some (0, 0, 0, 0) \<and> read_ip (rt_genmask e) = Some (0, 0, 0, 0)
        \<and> rt_flags e = 3
      then map_option AddRoute (read_ip (rt_gateway e)) else None)"
| "decode_call (Connect b) = map_option (\<lambda>(cid, port). VsockConnect cid port) (read_vm b)"
| "decode_call (BindSocket b) =
     Option.bind (read_vm b) (\<lambda>(cid, port). if cid = VMADDR_CID_ANY then Some (VsockListen port) else None)"

section \<open>Reading what was written\<close>

text \<open>The byte of a 32-bit word that holds a bit.\<close>

lemma bit_of_byte:
  fixes n :: nat
  assumes "n < 32"
  obtains "n < 8" | "8 \<le> n" "n < 16" | "16 \<le> n" "n < 24" | "24 \<le> n" "n < 32"
  using assms by linarith

lemma no_high_bit: "8 \<le> n \<Longrightarrow> \<not> bit (b :: u8) n"
  using bit_imp_le_length [of b n] by auto

lemma read_le16_le16 [simp]: "read_le16 (le16 w @ xs) = w"
proof -
  have "ucast (ucast w :: u8) OR push_bit 8 (ucast (ucast (drop_bit 8 w) :: u8)) = w"
  proof (rule bit_word_eqI)
    fix n :: nat
    assume "n < LENGTH(16)"
    then consider "n < 8" | "8 \<le> n" "n < 16" by fastforce
    then show "bit ((ucast (ucast w :: u8) :: u16) OR push_bit 8 (ucast (ucast (drop_bit 8 w) :: u8))) n = bit w n"
      by cases (auto simp: bit_simps)
  qed
  then show ?thesis by (simp add: read_le16_def le16_def)
qed

definition join32 :: "u8 \<Rightarrow> u8 \<Rightarrow> u8 \<Rightarrow> u8 \<Rightarrow> u32" where
  "join32 a b c d = ucast a OR push_bit 8 (ucast b) OR push_bit 16 (ucast c) OR push_bit 24 (ucast d)"

lemma join32_bytes: "join32 (ucast w) (ucast (drop_bit 8 w)) (ucast (drop_bit 16 w)) (ucast (drop_bit 24 w)) = w"
proof (rule bit_word_eqI)
  fix n :: nat
  assume "n < LENGTH(32)"
  then have "n < 32" by simp
  then show "bit (join32 (ucast w) (ucast (drop_bit 8 w)) (ucast (drop_bit 16 w)) (ucast (drop_bit 24 w))) n = bit w n"
    by (cases rule: bit_of_byte) (auto simp: join32_def bit_simps)
qed

lemma bytes_join32:
  "ucast (join32 a b c d) = a" "ucast (drop_bit 8 (join32 a b c d)) = b"
  "ucast (drop_bit 16 (join32 a b c d)) = c" "ucast (drop_bit 24 (join32 a b c d)) = d"
  by (rule bit_word_eqI; auto simp: join32_def bit_simps no_high_bit)+

lemma read_le32_le32 [simp]: "read_le32 (le32 w @ xs) = w"
  using join32_bytes [of w] by (simp add: read_le32_def le32_def join32_def)

lemma u32_of_ipv4_join32: "u32_of_ipv4 (a, b, c, d) = join32 d c b a"
  by (simp add: join32_def or.assoc or.commute or.left_commute)

lemma be32_u32_of_ipv4: "be32 (u32_of_ipv4 (a, b, c, d)) = [a, b, c, d]"
  by (simp only: u32_of_ipv4_join32 be32_def le32_def bytes_join32 rev.simps append.simps)

lemma u32_of_be32: "(case be32 w of [a, b, c, d] \<Rightarrow> u32_of_ipv4 (a, b, c, d)) = w"
  using join32_bytes [of w] by (simp only: be32_def le32_def rev.simps append.simps list.case u32_of_ipv4_join32)

lemma length_le [simp]: "length (le16 w) = 2" "length (le32 x) = 4" "length (be32 x) = 4"
  by (simp_all add: le16_def le32_def be32_def)

lemma length_sockaddr_in [simp]: "length (sockaddr_in_v4 ip) = 16" "length (sockaddr_vm cid port) = 16"
  by (simp_all add: sockaddr_in_v4_def sockaddr_vm_def)

lemma read_ip_sockaddr [simp]: "read_ip (sockaddr_in_v4 (u32_of_ipv4 ip) @ xs) = Some ip"
proof -
  obtain a b c d where ip: "ip = (a, b, c, d)" by (cases ip)
  have "sockaddr_in_v4 (u32_of_ipv4 ip) @ xs = le16 AF_INET @ ([0, 0, a, b, c, d] @ replicate 8 0 @ xs)"
    by (simp add: sockaddr_in_v4_def ip be32_u32_of_ipv4 del: u32_of_ipv4.simps)
  moreover have "(le16 AF_INET @ ys) ! (k + 2) = ys ! k" for ys and k :: nat
    by (simp add: nth_append)
  from this [of _ 2] this [of _ 3] this [of _ 4] this [of _ 5]
  have "read_ip (le16 AF_INET @ ([0, 0, a, b, c, d] @ replicate 8 0 @ xs)) = Some (a, b, c, d)"
    by (simp add: read_ip_def)
  ultimately show ?thesis using ip by simp
qed

lemma read_ip_mask [simp]: "map_option u32_of_ipv4 (read_ip (sockaddr_in_v4 m @ xs)) = Some m"
proof -
  obtain a b c d where m: "be32 m = [a, b, c, d]" by (simp add: be32_def le32_def)
  then have "m = u32_of_ipv4 (a, b, c, d)" using u32_of_be32 [of m] by (simp del: u32_of_ipv4.simps)
  then show ?thesis by (simp del: u32_of_ipv4.simps)
qed

lemma read_ip_any [simp]: "read_ip (sockaddr_in_v4 0) = Some (0, 0, 0, 0)"
proof -
  have "u32_of_ipv4 (0, 0, 0, 0) = 0" by simp
  then show ?thesis using read_ip_sockaddr [of "(0, 0, 0, 0)" "[]"] by simp
qed

lemma read_vm_sockaddr [simp]: "read_vm (sockaddr_vm cid port) = Some (cid, port)"
proof -
  have "drop 4 (sockaddr_vm cid port) = le32 port @ le32 cid @ replicate 4 0"
    "drop 8 (sockaddr_vm cid port) = le32 cid @ replicate 4 0"
    "sockaddr_vm cid port = le16 AF_VSOCK @ (le16 0 @ le32 port @ le32 cid @ replicate 4 0)"
    by (simp_all add: sockaddr_vm_def)
  then show ?thesis by (simp only: read_vm_def read_le16_le16 read_le32_le32 simp_thms if_True)
qed

lemma eth0_name: "ifr_name IFNAME = Some ([0x65, 0x74, 0x68, 0x30] @ replicate 12 0)"
  by code_simp

lemma read_eth0: "read_name ([0x65, 0x74, 0x68, 0x30] @ replicate 12 0 @ xs) = Some IFNAME"
proof -
  have "take IFNAMSIZ ([0x65, 0x74, 0x68, 0x30] @ replicate 12 0 @ xs) = [0x65, 0x74, 0x68, 0x30] @ replicate 12 (0 :: u8)"
    by (simp add: IFNAMSIZ_def)
  moreover have "from_utf8 (takeWhile (\<lambda>c. c \<noteq> 0) ([0x65, 0x74, 0x68, 0x30] @ replicate 12 (0 :: u8))) = Some IFNAME"
    by code_simp
  ultimately show ?thesis by (simp only: read_name_def)
qed

text \<open>A request for \<open>eth0\<close>: the name, then the field of 24 bytes.\<close>

lemma ifreq_eth0:
  assumes "length u \<le> 24"
  shows "ifreq_for IFNAME u = Some ([0x65, 0x74, 0x68, 0x30] @ replicate 12 0 @ u @ replicate (24 - length u) 0)"
  using assms by (simp add: ifreq_for_def eth0_name)

lemma decode_eth0:
  "decode_call (IoctlIf r ([0x65, 0x74, 0x68, 0x30] @ replicate 12 0 @ u)) =
     (if r = SIOCSIFADDR then map_option (SetAddr IFNAME) (read_ip u)
      else if r = SIOCSIFNETMASK then map_option (\<lambda>ip. SetNetmask IFNAME (u32_of_ipv4 ip)) (read_ip u)
      else if r = SIOCSIFFLAGS \<and> read_le16 u = IFF_UP_RUNNING then Some (SetUp IFNAME)
      else None)"
proof -
  have "drop IFNAMSIZ ([0x65, 0x74, 0x68, 0x30] @ replicate 12 0 @ u) = u" by (simp add: IFNAMSIZ_def)
  then show ?thesis by (simp only: decode_call.simps read_eth0 Option.bind.simps)
qed

lemma requests_differ [simp]:
  "SIOCSIFNETMASK \<noteq> SIOCSIFADDR" "SIOCSIFFLAGS \<noteq> SIOCSIFADDR" "SIOCSIFFLAGS \<noteq> SIOCSIFNETMASK"
  by (simp_all add: SIOCSIFNETMASK_def SIOCSIFADDR_def SIOCSIFFLAGS_def)

section \<open>Property\<close>

text \<open>The kernel reads what the guest means. Every structure that the guest lays out for an
  address, a netmask, the flags of its interface, the default route, a connection to the host and a
  listener is read back as that very action, for all addresses, ports and contexts.\<close>

theorem kernel_reads_the_calls:
  "list_all (\<lambda>a. Option.bind (call_of a) decode_call = Some a)
     [SetAddr IFNAME ip, SetNetmask IFNAME m, SetUp IFNAME, AddRoute gw, VsockConnect cid port, VsockListen port]"
proof -
  note eth0 = ifreq_eth0 decode_eth0
  have "Option.bind (call_of (SetAddr IFNAME ip)) decode_call = Some (SetAddr IFNAME ip)"
    by (simp add: set_if_addr_def eth0 del: decode_call.simps append.simps u32_of_ipv4.simps)
  moreover have "Option.bind (call_of (SetNetmask IFNAME m)) decode_call = Some (SetNetmask IFNAME m)"
  proof -
    obtain q where "read_ip (sockaddr_in_v4 m @ replicate 8 0) = Some q" "u32_of_ipv4 q = m"
      using iffD1 [OF map_option_eq_Some read_ip_mask [of m "replicate 8 0"]] by blast
    then show ?thesis
      by (simp add: set_if_netmask_def eth0 del: decode_call.simps append.simps u32_of_ipv4.simps)
  qed
  moreover have "Option.bind (call_of (SetUp IFNAME)) decode_call = Some (SetUp IFNAME)"
    by (simp add: set_if_up_def eth0 del: decode_call.simps append.simps)
  moreover have "Option.bind (call_of (AddRoute gw)) decode_call = Some (AddRoute gw)"
    using read_ip_sockaddr [of gw "[]"] by (simp add: add_default_route_def)
  moreover have "Option.bind (call_of (VsockConnect cid port)) decode_call = Some (VsockConnect cid port)"
    "Option.bind (call_of (VsockListen port)) decode_call = Some (VsockListen port)"
    by (simp_all add: vsock_connect_call_def vsock_bind_call_def)
  ultimately show ?thesis by simp
qed

end
