(* ===== verification/SessionSandbox.thy ===== *)
theory SessionSandbox
  imports CliRun
begin

text \<open>
  A sandboxed Run of a Session, \<open>Session::run_with_backend\<close> and the Linux \<open>run_dispatch\<close> of
  \<open>bunsen-core/src/session.rs\<close>, with nothing left abstract that another theory models: the guest
  kernel is that of \<open>Kernel\<close>, the image that of \<open>OciCache\<close>, the probe goes through the network actor and the Run is that of
  \<open>SandboxRun\<close>, with the extraction into the Pool of the Session.
\<close>

section \<open>The operations of a Session, linked\<close>

definition session_extraction :: "'w session_ops \<Rightarrow> session \<Rightarrow> run_spec \<Rightarrow> string \<Rightarrow> pool_extraction" where
  "session_extraction K s spec history_dst =
     \<lparr> pe_pool = pool_path s, pe_output_branch = rs_output_branch spec, pe_agent_history_dst = Some history_dst,
       pe_user_script_uid = so_uid K \<rparr>"

definition session_sandbox ::
  "('w, 'e) cli_sys \<Rightarrow> (run_error \<Rightarrow> string) \<Rightarrow> session \<Rightarrow> string \<Rightarrow> string \<Rightarrow> run_backend \<Rightarrow> run_spec \<Rightarrow> string
     \<Rightarrow> string \<Rightarrow> string \<Rightarrow> ('w, string, unit) act" where
  "session_sandbox C show_run s kernel_path rootfs backend spec run_id ws history_dst =
     aerr show_run (sandbox_run (cl_run C) kernel_path rootfs (rb_firecracker_bin backend) (rb_manage_firewall backend)
       spec run_id ws (Some (session_extraction (cl_session C) s spec history_dst)) (so_username (cl_session C)))"

definition session_probe :: "('w, 'e) cli_sys \<Rightarrow> ('w, string, string option) act" where
  "session_probe C w =
     (case net_call (rn_net (cl_run C)) ProbeFirewall w of (r, w') \<Rightarrow>
        (case probe_result r of Inl e \<Rightarrow> Inl (rn_show_net (cl_run C) e) | Inr t \<Rightarrow> Inr t, w'))"

definition linked :: "('w, 'e) cli_sys \<Rightarrow> environment \<Rightarrow> (run_error \<Rightarrow> string) \<Rightarrow> session \<Rightarrow> 'w session_ops" where
  "linked C env show_run s = (cl_session C)
     \<lparr> so_ensure_kernel := ensure_kernel (cl_cache C) env,
       so_resolve_rootfs := resolve_rootfs (cl_cache C) (cl_image C) (rootfs_cache env),
       so_probe_firewall := session_probe C,
       so_sandbox := session_sandbox C show_run s \<rparr>"

definition session_run ::
  "('w, 'e) cli_sys \<Rightarrow> environment \<Rightarrow> (run_error \<Rightarrow> string) \<Rightarrow> run_spec \<Rightarrow> run_backend \<Rightarrow> session
     \<Rightarrow> ('w, session_error, run_result) act" where
  "session_run C env show_run spec backend s = run_with_backend (linked C env show_run s) spec backend s"

section \<open>The network of the host\<close>

text \<open>The rest of what a Session does leaves devices, rules and tables alone.\<close>

locale session_host = cli_host C view tables_of
  for C :: "('w, 'e) cli_sys" and view and tables_of +
  assumes session_git: "keeps view (sys_git (so_sys (cl_session C)) d args)"
      "keeps view (ho_spawn_git (so_host (cl_session C)) c)"
    and session_files: "keeps view (sys_remove_dir (so_sys (cl_session C)) p)"
      "keeps view (so_copy_history (cl_session C) a p d')"
    and session_supervisor: "keeps view (so_supervisor (cl_session C) spec run_id p)"
begin

lemma linked_fields:
  "so_sys (linked C env f s) = so_sys (cl_session C)" "so_host (linked C env f s) = so_host (cl_session C)"
  "so_now (linked C env f s) = so_now (cl_session C)" "so_ulid (linked C env f s) = so_ulid (cl_session C)"
  "so_write_file (linked C env f s) = so_write_file (cl_session C)" "so_emit (linked C env f s) = so_emit (cl_session C)"
  "so_new_encoder (linked C env f s) = so_new_encoder (cl_session C)"
  "so_copy_history (linked C env f s) = so_copy_history (cl_session C)"
  "so_supervisor (linked C env f s) = so_supervisor (cl_session C)"
  "so_ensure_kernel (linked C env f s) = ensure_kernel (cl_cache C) env"
  "so_resolve_rootfs (linked C env f s) = resolve_rootfs (cl_cache C) (cl_image C) (rootfs_cache env)"
  "so_probe_firewall (linked C env f s) = session_probe C"
  "so_sandbox (linked C env f s) = session_sandbox C f s"
  by (simp_all add: linked_def so_sys_def)

lemma keeps_session_git: "keeps view (session_git (linked C env f s) d args c)"
  unfolding session_git_def linked_fields
  by (rule keepsI) (auto split: prod.splits git_result.splits if_splits dest: keepsD [OF session_git(1)])

lemma keeps_reads:
  "keeps view (ws_rev_parse (linked C env f s) ws r)" "keeps view (read_pool_ref_sha (linked C env f s) s' r)"
  "keeps view (list_uncommitted (linked C env f s) ws)"
  "keeps view (resolve_base_sha_for_strategy (linked C env f s) ws st)"
proof -
  show rev: "keeps view (ws_rev_parse (linked C env f s) ws r)" for r
    unfolding ws_rev_parse_def by (intro keeping keeps_session_git)
  show "keeps view (resolve_base_sha_for_strategy (linked C env f s) ws st)"
    by (cases st) (simp_all add: resolve_base_sha_for_strategy_def rev)
  show "keeps view (read_pool_ref_sha (linked C env f s) s' r)" "keeps view (list_uncommitted (linked C env f s) ws)"
    unfolding read_pool_ref_sha_def list_uncommitted_def by (intro keeping keeps_session_git)+
qed

lemma keeps_output: "keeps view (extract_run_output (linked C env f s) s' ws run_id spec h)"
proof -
  have e: "keeps view (emit_event (linked C env f s) ty p)" for ty p
    unfolding emit_event_def linked_fields by (intro keeping host)
  have fetch: "keeps view (fetch_pool_from_git_dir (so_host (linked C env f s)) pool src rid ob uid)" for pool src rid ob uid
    unfolding linked_fields by (intro keeps_fetch_pool session_git(2) session_git(1) [unfolded so_sys_def])
  have x: "keeps view (extract_commits (linked C env f s) s' ws run_id spec)"
    unfolding extract_commits_def by (intro keeping keeps_reads e fetch)
  show ?thesis
    unfolding extract_run_output_def linked_fields by (intro keeping session_files e x)
qed

lemma keeps_after: "keeps view (after_dispatch (linked C env f s) s' ws run_id spec h d)"
proof (rule keepsI)
  fix w x w'
  assume "after_dispatch (linked C env f s) s' ws run_id spec h d w = (x, w')"
  then show "view w' = view w"
    by (auto simp: after_dispatch_def split: dispatch_outcome.splits sum.splits prod.splits
        dest: keepsD [OF keeps_output] keepsD [OF keeps_reads(2)])
qed

lemma tidy_aerr: "tidy m k \<Longrightarrow> tidy m (aerr f k)"
  unfolding tidy_def within_names_def aerr_def
  by (auto split: prod.splits sum.splits) (metis sum.disc(1), metis sum.disc(2))+

lemma sandbox_tidy:
  assumes "derive_tap_name run_id \<noteq> None \<and> derive_table_name run_id \<noteq> None"
  shows "tidy (rb_manage_firewall b) (session_sandbox C f s k rf b spec run_id ws h)"
  unfolding session_sandbox_def by (intro tidy_aerr sandbox_run_tidy assms)

lemma agent_tidy:
  assumes "derive_tap_name run_id \<noteq> None \<and> derive_table_name run_id \<noteq> None"
  shows "tidy (rb_manage_firewall b) (run_agent (linked C env f s) spec b inputs s run_id dir ws t)"
  unfolding tidy_def
proof (intro allI impI)
  let ?K = "linked C env f s"
  fix w r w'
  assume run: "run_agent ?K spec b inputs s run_id dir ws t w = (r, w')"
  let ?h = "agent_history_path dir"
  obtain d w1 where 1: "run_dispatch ?K b inputs spec run_id ws ?h w = (d, w1)" by fastforce
  obtain sr ex w2 where 2: "after_dispatch ?K s ws run_id spec ?h d w1 = ((sr, ex), w2)" by (metis surj_pair)
  obtain now w3 where 3: "so_now ?K w2 = (now, w3)" by fastforce
  obtain m w4 where 4: "run_dir_write_meta ?K dir (run_meta_of spec run_id t (Some now) (Some (exit_reason_of sr ex))) w3 = (m, w4)"
    by fastforce
  obtain q w5 where 5: "sys_remove_dir (so_sys ?K) ws w4 = (q, w5)" by fastforce
  have r: "r = (case sr of Inl e \<Rightarrow> Inl e | Inr _ \<Rightarrow> ex)" "w' = w5"
    using run 1 2 3 4 5 by (auto simp: run_agent_def split: sum.splits)
  have k4: "keeps view (run_dir_write_meta ?K dir x)" for x
    unfolding run_dir_write_meta_def linked_fields by (intro keeping host)
  have v: "view w' = view w1"
    using keepsD [OF keeps_after 2] keepsD [OF host(1) 3 [unfolded linked_fields]] keepsD [OF k4 4]
      keepsD [OF session_files(1) 5 [unfolded linked_fields]] r(2) by simp
  show "within_names (rb_manage_firewall b) r (view w) (view w')"
  proof (cases inputs)
    case None
    then have "view w1 = view w"
      using 1 by (auto simp: run_dispatch_def linked_fields split: prod.splits sum.splits dest: keepsD [OF session_supervisor])
    then show ?thesis using v by (simp add: within_names_def)
  next
    case (Some i)
    obtain k rf where i: "i = (k, rf)" by fastforce
    obtain x where x: "d = SandboxRun x" "session_sandbox C f s k rf b spec run_id ws ?h w = (x, w1)"
      using 1 Some i by (auto simp: run_dispatch_def linked_fields split: prod.splits)
    have "isl r \<longleftrightarrow> isl x"
      using 2 x(1) r(1) by (cases x) (auto simp: after_dispatch_def split: prod.splits)
    then show ?thesis
      using tidyD [OF sandbox_tidy [OF assms] x(2)] v unfolding within_names_def by simp
  qed
qed

lemma keeps_inputs: "keeps view (resolve_sandbox_inputs (linked C env f s) b spec)"
  unfolding resolve_sandbox_inputs_def linked_fields by (intro keeping keeps_kernel keeps_rootfs)

lemma keeps_probe: "keeps view (session_probe C)"
  unfolding session_probe_def
  by (rule keepsI) (auto split: prod.splits dest: keepsD [OF keeps_net_probe])

lemma keeps_materialize: "keeps view (materialize (so_sys (cl_session C)) pool st ws run_id ob)"
  unfolding materialize_def pool_clone_def
  by (cases st) (auto intro!: keeping keeps_verify keeps_mat_git keeps_clear session_git session_files)

lemma prepared_tidy: "tidy (rb_manage_firewall b) (run_prepared (linked C env f s) spec b inputs s)"
proof -
  let ?K = "linked C env f s"
  have n: "derive_tap_name x \<noteq> None \<and> derive_table_name x \<noteq> None"
    if "apure (so_ulid ?K) w = (Inr x, w')" for w x w'
    using that names by (auto simp: apure_def linked_fields split: prod.splits)
  have ulid: "keeps view (apure (so_ulid ?K))"
    unfolding linked_fields by (intro keeping host)
  have steps: "keeps view (run_dir_create ?K p x)" "keeps view (remove_if_exists ?K p)"
    "keeps view (aerr SeMaterialize (materialize (so_sys ?K) p st ws x ob))"
    "keeps view (aor () (run_dir_write_spec ?K p j))" "keeps view (apure (so_now ?K))"
    "keeps view (aor () (run_dir_write_meta ?K p me))" "keeps view (build_redactor spec)"
    "keeps view (aio (so_new_encoder ?K x p rx))" "keeps view (emit_event ?K ty pl)"
    for p x st ws ob j me rx ty pl
    unfolding linked_fields run_dir_create_def run_dir_write_spec_def run_dir_write_meta_def build_redactor_def
      emit_event_def Let_def
    by (intro keeping keeps_aio host keeps_materialize keeps_remove_if session_files
        | simp only: linked_fields)+
  show ?thesis
    unfolding run_prepared_def Let_def
    apply (rule tidy_bind_when [where P = "\<lambda>x. derive_tap_name x \<noteq> None \<and> derive_table_name x \<noteq> None", OF ulid n], assumption)
    apply (intro tidy_bind steps)
    apply (rule agent_tidy, assumption)
    done
qed

lemma session_tidy: "tidy (rb_manage_firewall b) (session_run C env f spec b s)"
proof -
  let ?K = "linked C env f s"
  let ?sandboxed = "requests_sandbox b \<or> rs_oci_image spec \<noteq> None"
  have i: "keeps view (if ?sandboxed then abind (resolve_sandbox_inputs ?K b spec) (\<lambda>i. aret (Some i)) else aret None)"
    by (intro keeping keeps_inputs)
  have p: "keeps view (if ?sandboxed then abind (apure (so_probe_firewall ?K)) (\<lambda>probe.
      case enforce_host_firewall_policy (rb_manage_firewall b) probe of
        Inl message \<Rightarrow> afail (SeHostFirewallBlocked message) | Inr _ \<Rightarrow> aret ()) else aret ())"
    unfolding linked_fields by (intro keeping keeps_probe)
  have e: "tidy (rb_manage_firewall b) (case accept_new_run x of Inl e \<Rightarrow> afail (SeTransition e)
      | Inr _ \<Rightarrow> run_prepared ?K spec b inputs s)" for x inputs
    by (cases "accept_new_run x") (simp_all add: prepared_tidy tidy_keeps keeping)
  have "tidy (rb_manage_firewall b) (afail SeSandboxUnsupportedOnPlatform :: ('w, session_error, run_result) act)"
    by (intro tidy_keeps keeping)
  then show ?thesis
    unfolding session_run_def run_with_backend_def Let_def by (simp only: tidy_bind [OF i] tidy_bind [OF p] e split: if_split) simp
qed

end

section \<open>On the small host\<close>

lemma sim_session_host: "session_host sim_cli (\<lambda>v. v) ruleset_tables"
proof (rule session_host.intro)
  show "cli_host sim_cli (\<lambda>v. v) ruleset_tables" by (rule sim_cli_host)
  show "session_host_axioms sim_cli (\<lambda>v. v)"
    by unfold_locales (auto simp: sim_cli_def sim_run_def so_sys_def intro!: keepsI)
qed

interpretation small_session: session_host sim_cli "\<lambda>v. v" ruleset_tables
  by (rule sim_session_host)

section \<open>Property\<close>



end
